(* ===== verification/Prelude.thy ===== *)
theory Prelude
  imports Main "HOL-Library.Word" "HOL-Library.AList" "HOL-Library.Multiset"
begin

text \<open>
  Shared vocabulary of the development: the machine integers of the Rust sources, the panics
  of the crate as values of a sum type, hash maps as association lists with distinct keys,
  and the generic lemmas on lists and results that every component uses.
\<close>

section \<open>Collections\<close>

named_theorems build_defs "what the build of a plugin adds to an app"
named_theorems builder_defs "the methods of an app under construction"
named_theorems call_defs "the methods of the registration trait"
named_theorems outer_defs "the parts of the world that a schedule leaves alone"

section \<open>Integers\<close>

type_synonym i32 = "32 word"
type_synonym u32 = "32 word"
type_synonym u64 = "64 word"
type_synonym u128 = "128 word"

text \<open>Rust's \<open>i32::abs_diff\<close>: the distance of two signed values as an unsigned one.\<close>

definition abs_diff :: "i32 \<Rightarrow> i32 \<Rightarrow> u32" where
  "abs_diff a b = word_of_int \<bar>sint a - sint b\<bar>"

lemma sint_i32_bounds: "- 2147483648 \<le> sint (x :: i32)" "sint (x :: i32) \<le> 2147483647"
  using sint_ge [of x] sint_lt [of x] by auto

lemma uint_abs_diff: "uint (abs_diff a b) = \<bar>sint a - sint b\<bar>"
proof -
  have "\<bar>sint a - sint b\<bar> < 2 ^ 32"
    using sint_i32_bounds [of a] sint_i32_bounds [of b] by simp
  then show ?thesis
    by (simp add: abs_diff_def uint_word_of_int_eq take_bit_int_eq_self_iff)
qed

section \<open>Panics and results\<close>

text \<open>
  Every \<open>panic!\<close>, \<open>expect\<close>, \<open>unwrap\<close>, \<open>unreachable!\<close> and arithmetic panic of the crate is a
  value; a fallible operation returns \<open>panic + 'a\<close>, with the panic on the left.
\<close>

datatype label = LoadWorld | SaveWorld | AdvanceWorld

datatype panic =
    DebugAssert                    \<comment> \<open>\<open>debug_assert_eq!\<close> on the two queues\<close>
  | UnwrapNone                     \<comment> \<open>\<open>unwrap\<close> on \<open>None\<close>\<close>
  | NoSnapshotAt i32               \<comment> \<open>\<open>rollback\<close>: no snapshot for the frame\<close>
  | NoSnapshot                     \<comment> \<open>\<open>get\<close> on an empty queue\<close>
  | NotRegistered nat              \<comment> \<open>\<open>RollbackOrdered::order\<close> of an unknown id\<close>
  | UnreachableKey                 \<comment> \<open>\<open>unreachable!\<close> in the entity reconciliation\<close>
  | MissingResource string         \<comment> \<open>a required resource is absent\<close>
  | DivideByZero
  | Overflow
  | TimeBackwards
  | NoLocalInputs
  | InvalidHandle
  | MissingSchedule label
  | DuplicatedSchedule label
  | DuplicatedPlugin               \<comment> \<open>\<open>App::add_plugins\<close> of a plugin that is there already\<close>
  | DuplicatedRequirement          \<comment> \<open>\<open>register_required_components\<close> of a component that is required already\<close>

type_synonym 'a res = "panic + 'a"

definition rbind :: "'a res \<Rightarrow> ('a \<Rightarrow> 'b res) \<Rightarrow> 'b res" where
  "rbind m f = (case m of Inl e \<Rightarrow> Inl e | Inr x \<Rightarrow> f x)"

lemma rbind_simps [simp]: "rbind (Inl e) f = Inl e" "rbind (Inr x) f = f x"
  by (simp_all add: rbind_def)

lemma rbind_Inr_iff: "rbind m f = Inr y \<longleftrightarrow> (\<exists>x. m = Inr x \<and> f x = Inr y)"
  by (cases m) auto

lemma rbind_InrE [elim]:
  assumes "rbind m f = Inr y" obtains x where "m = Inr x" "f x = Inr y"
  using assms by (auto simp: rbind_Inr_iff)

lemma rbind_assoc: "rbind (rbind m f) g = rbind m (\<lambda>x. rbind (f x) g)"
  by (cases m) auto

lemma rbind_Inr_right [simp]: "rbind m Inr = m"
  by (cases m) auto

text \<open>\<open>Option::expect\<close> and \<open>Option::unwrap\<close>.\<close>

definition expect :: "panic \<Rightarrow> 'a option \<Rightarrow> 'a res" where
  "expect p x = (case x of None \<Rightarrow> Inl p | Some v \<Rightarrow> Inr v)"

lemma expect_simps [simp]: "expect p None = Inl p" "expect p (Some v) = Inr v"
  by (simp_all add: expect_def)

lemma expect_Inr_iff [simp]: "expect p x = Inr v \<longleftrightarrow> x = Some v"
  by (cases x) auto

text \<open>Running a list of fallible steps stops at the first panic.\<close>

fun rfold :: "('a \<Rightarrow> 's \<Rightarrow> 's res) \<Rightarrow> 'a list \<Rightarrow> 's \<Rightarrow> 's res" where
  "rfold f [] s = Inr s"
| "rfold f (x # xs) s = rbind (f x s) (rfold f xs)"

lemma rfold_append: "rfold f (xs @ ys) s = rbind (rfold f xs s) (rfold f ys)"
  by (induction xs arbitrary: s) (auto simp: rbind_def split: sum.splits)

lemma rfold_cong: "(\<And>x s. x \<in> set xs \<Longrightarrow> f x s = g x s) \<Longrightarrow> rfold f xs s = rfold g xs s"
  by (induction xs arbitrary: s) (auto simp: rbind_def split: sum.splits)

lemma rfold_invariant:
  assumes "rfold f xs s = Inr s'" "P s"
    and "\<And>x s s'. x \<in> set xs \<Longrightarrow> P s \<Longrightarrow> f x s = Inr s' \<Longrightarrow> P s'"
  shows "P s'"
  using assms
proof (induction xs arbitrary: s)
  case (Cons x xs)
  from Cons.prems(1) obtain s1 where s1: "f x s = Inr s1" "rfold f xs s1 = Inr s'"
    by (auto simp: rbind_Inr_iff)
  have "P s1"
    using Cons.prems(2,3) s1(1) by (meson list.set_intros(1))
  with s1(2) Cons.IH Cons.prems(3) show ?case by (meson list.set_intros(2))
qed simp

lemma rfold_total:
  assumes "P s" and "\<And>x s. x \<in> set xs \<Longrightarrow> P s \<Longrightarrow> \<exists>s'. f x s = Inr s' \<and> P s'"
  shows "\<exists>s'. rfold f xs s = Inr s' \<and> P s'"
  using assms
proof (induction xs arbitrary: s)
  case (Cons x xs)
  from Cons.prems obtain s1 where "f x s = Inr s1" "P s1"
    by (meson list.set_intros(1))
  with Cons.IH [of s1] Cons.prems(2) show ?case by auto
qed simp

section \<open>Hash maps\<close>

text \<open>
  A \<open>HashMap\<close> is an association list with distinct keys. Its iteration order is not specified
  by the Rust library: an operation that iterates takes the order as an argument, a
  rearrangement \<open>it\<close> of the entries for which \<open>any_order it\<close> is all that is known.
\<close>

type_synonym ('k, 'v) hashmap = "('k \<times> 'v) list"

definition hm_ok :: "('k, 'v) hashmap \<Rightarrow> bool" where
  "hm_ok m \<longleftrightarrow> distinct (map fst m)"

definition hm_insert :: "'k \<Rightarrow> 'v \<Rightarrow> ('k, 'v) hashmap \<Rightarrow> ('k, 'v) hashmap" where
  "hm_insert k v m = AList.update k v m"

definition hm_get :: "('k, 'v) hashmap \<Rightarrow> 'k \<Rightarrow> 'v option" where
  "hm_get m k = map_of m k"

text \<open>\<open>into_iter().collect()\<close>: a later entry for a key replaces an earlier one.\<close>

definition hm_collect :: "('k \<times> 'v) list \<Rightarrow> ('k, 'v) hashmap" where
  "hm_collect kvs = foldl (\<lambda>m (k, v). hm_insert k v m) [] kvs"

definition any_order :: "('a list \<Rightarrow> 'a list) \<Rightarrow> bool" where
  "any_order it \<longleftrightarrow> (\<forall>xs. mset (it xs) = mset xs)"

lemma any_order_set: "any_order it \<Longrightarrow> set (it xs) = set xs"
  by (metis any_order_def mset_eq_setD)

lemma any_order_distinct_keys:
  "any_order it \<Longrightarrow> distinct (map fst (it xs)) \<longleftrightarrow> distinct (map fst xs)"
  by (metis any_order_def mset_eq_imp_distinct_iff mset_map)

lemma any_order_id [simp]: "any_order (\<lambda>xs. xs)"
  by (simp add: any_order_def)

lemma any_order_rev [simp]: "any_order rev"
  by (simp add: any_order_def)

lemma hm_get_insert [simp]:
  "hm_get (hm_insert k v m) k' = (if k' = k then Some v else hm_get m k')"
  by (simp add: hm_get_def hm_insert_def update_conv)

lemma hm_get_Nil [simp]: "hm_get [] k = None"
  by (simp add: hm_get_def)

lemma hm_ok_Nil [simp]: "hm_ok []"
  by (simp add: hm_ok_def)

lemma hm_ok_insert [simp]: "hm_ok m \<Longrightarrow> hm_ok (hm_insert k v m)"
  by (simp add: hm_ok_def hm_insert_def distinct_update)

lemma foldl_insert_get:
  "hm_get (foldl (\<lambda>m (k, v). hm_insert k v m) m kvs) k =
     (case map_of (rev kvs) k of None \<Rightarrow> hm_get m k | Some v \<Rightarrow> Some v)"
  by (induction kvs arbitrary: m)
    (auto simp: map_add_def hm_get_def hm_insert_def update_conv split: option.splits)

lemma hm_get_collect: "hm_get (hm_collect kvs) k = map_of (rev kvs) k"
  by (simp add: hm_collect_def foldl_insert_get split: option.splits)

lemma hm_ok_collect [simp]: "hm_ok (hm_collect kvs)"
proof -
  have "hm_ok (foldl (\<lambda>m (k, v). hm_insert k v m) m kvs)" if "hm_ok m" for m
    using that by (induction kvs arbitrary: m) auto
  then show ?thesis by (simp add: hm_collect_def)
qed

lemma map_of_rev_distinct: "distinct (map fst kvs) \<Longrightarrow> map_of (rev kvs) = map_of kvs"
  by (rule map_of_eqI) (auto simp: map_of_is_SomeI rev_map [symmetric] distinct_rev dom_map_of_conv_image_fst)

lemma hm_get_collect_distinct:
  "distinct (map fst kvs) \<Longrightarrow> hm_get (hm_collect kvs) k = map_of kvs k"
  by (simp add: hm_get_collect map_of_rev_distinct)

lemma hm_get_SomeD: "hm_get m k = Some v \<Longrightarrow> (k, v) \<in> set m"
  by (simp add: hm_get_def map_of_SomeD)

lemma hm_get_iff: "hm_ok m \<Longrightarrow> hm_get m k = Some v \<longleftrightarrow> (k, v) \<in> set m"
  by (simp add: hm_get_def hm_ok_def)

lemma map_of_perm:
  assumes "distinct (map fst xs)" "mset ys = mset xs"
  shows "map_of ys = map_of xs"
proof -
  have "distinct (map fst ys)" "set ys = set xs"
    using assms by (metis mset_eq_imp_distinct_iff mset_map, metis mset_eq_setD)
  with assms(1) show ?thesis by (metis map_of_inject_set)
qed

section \<open>Options and lists\<close>

lemma option_eqI: "(\<And>v. x = Some v \<longleftrightarrow> y = Some v) \<Longrightarrow> x = y"
  by (cases x; cases y) auto

lemma map_of_map_key_inj:
  "map_of (map (\<lambda>(k, v). (k, f v)) xs) k = map_option f (map_of xs k)"
  by (induction xs) auto

lemma sorted_wrt_irrefl_distinct: "(\<And>x. \<not> R x x) \<Longrightarrow> sorted_wrt R xs \<Longrightarrow> distinct xs"
  by (induction xs) auto

lemma length_filter_filter_le: "length (filter q (filter P xs)) \<le> length (filter q xs)"
  by (induction xs) auto

lemma length_filter_take_le: "length (filter q (take n xs)) \<le> length (filter q xs)"
  by (metis append_take_drop_id filter_append length_append le_add1)

lemma dropWhile_eq_filter_sorted:
  assumes "sorted_wrt (\<lambda>x y. \<not> P x \<longrightarrow> \<not> P y) xs"
  shows "dropWhile P xs = filter (\<lambda>x. \<not> P x) xs"
  using assms by (induction xs) (auto simp: filter_id_conv)

lemma in_set_map_filter: "y \<in> set (List.map_filter f xs) \<longleftrightarrow> (\<exists>x \<in> set xs. f x = Some y)"
  by (induction xs) (auto split: option.split)

lemma distinct_keys_map_filter:
  "(\<And>x y. f x = Some y \<Longrightarrow> g y = x) \<Longrightarrow> distinct xs \<Longrightarrow> distinct (map g (List.map_filter f xs))"
  by (induction xs) (auto simp: in_set_map_filter split: option.split)

end
