(* ===== verification/StoreInterface.thy ===== *)
theory StoreInterface
  imports Prelude
begin

text \<open>
  The interface between the snapshot queue and the plugins that save into it and load from it:
  the operations a plugin calls and the laws it relies on. The laws are proved of the queue of
  \<open>GgrsSnapshots\<close>; the lemmas here are what every plugin's save and load rest on, proved once.
\<close>

locale snapshot_store =
  fixes inv :: "'s \<Rightarrow> bool"
    and cap :: "'s \<Rightarrow> nat"
    and rank :: "'s \<Rightarrow> i32 \<Rightarrow> nat"
    and set_cap :: "nat \<Rightarrow> 's \<Rightarrow> 's"
    and push :: "i32 \<Rightarrow> 'a \<Rightarrow> 's \<Rightarrow> 's res"
    and confirm :: "i32 \<Rightarrow> 's \<Rightarrow> 's res"
    and rollback :: "i32 \<Rightarrow> 's \<Rightarrow> 's res"
    and get :: "'s \<Rightarrow> 'a res"
    and peek :: "'s \<Rightarrow> i32 \<Rightarrow> 'a option"
  assumes set_cap: "inv s \<Longrightarrow> inv (set_cap d s) \<and> cap (set_cap d s) = d
      \<and> peek (set_cap d s) = peek s \<and> rank (set_cap d s) = rank s"
    and push_total: "inv s \<Longrightarrow> 0 <=s f \<Longrightarrow> \<exists>s'. push f x s = Inr s'"
    and push_inv: "inv s \<Longrightarrow> 0 <=s f \<Longrightarrow> push f x s = Inr s' \<Longrightarrow> inv s' \<and> cap s' = cap s"
    and push_same: "inv s \<Longrightarrow> 0 <=s f \<Longrightarrow> push f x s = Inr s' \<Longrightarrow> 0 < cap s \<Longrightarrow> peek s' f = Some x"
    and push_rank_same: "inv s \<Longrightarrow> 0 <=s f \<Longrightarrow> push f x s = Inr s' \<Longrightarrow> rank s' f = 0"
    and push_newer: "inv s \<Longrightarrow> 0 <=s f \<Longrightarrow> push f x s = Inr s' \<Longrightarrow> f <s g \<Longrightarrow> peek s' g = None"
    and push_older: "inv s \<Longrightarrow> 0 <=s f \<Longrightarrow> push f x s = Inr s' \<Longrightarrow> g <s f \<Longrightarrow>
      Suc (rank s g) < cap s \<Longrightarrow> peek s' g = peek s g"
    and push_rank: "inv s \<Longrightarrow> 0 <=s f \<Longrightarrow> push f x s = Inr s' \<Longrightarrow> g <s f \<Longrightarrow> rank s' g \<le> Suc (rank s g)"
    and confirm_total: "inv s \<Longrightarrow> \<exists>s'. confirm c s = Inr s'"
    and confirm_inv: "inv s \<Longrightarrow> confirm c s = Inr s' \<Longrightarrow> inv s' \<and> cap s' = cap s"
    and confirm_peek: "inv s \<Longrightarrow> confirm c s = Inr s' \<Longrightarrow>
      peek s' g = (if g <s c then None else peek s g)"
    and confirm_rank: "inv s \<Longrightarrow> confirm c s = Inr s' \<Longrightarrow> rank s' g \<le> rank s g"
    and rollback_found: "inv s \<Longrightarrow> peek s f = Some x \<Longrightarrow>
      \<exists>s'. rollback f s = Inr s' \<and> get s' = Inr x \<and> inv s' \<and> cap s' = cap s
        \<and> (\<forall>g. peek s' g = (if f <s g then None else peek s g)) \<and> (\<forall>g. rank s' g \<le> rank s g)"
    and rollback_missing: "inv s \<Longrightarrow> peek s f = None \<Longrightarrow> rollback f s = Inl (NoSnapshotAt f)"
begin

text \<open>Selecting a frame and reading it, as every load system does.\<close>

lemma rollback_get:
  "inv s \<Longrightarrow> rbind (rollback f s) get =
     (case peek s f of None \<Rightarrow> Inl (NoSnapshotAt f) | Some x \<Rightarrow> Inr x)"
  by (auto simp: rollback_missing split: option.split dest: rollback_found)

lemma rollback_returns:
  "inv s \<Longrightarrow> rollback f s = Inr s' \<Longrightarrow> \<exists>x. peek s f = Some x \<and> get s' = Inr x \<and> inv s'"
  using rollback_found rollback_missing by (cases "peek s f") fastforce+

lemma rollback_again:
  assumes "inv s" "rollback f s = Inr s'"
  shows "rbind (rollback f s') get = get s'"
proof -
  from rollback_returns [OF assms] obtain x where x: "peek s f = Some x" by blast
  from rollback_found [OF assms(1) x] assms(2)
  have "inv s'" "peek s' f = Some x" "get s' = Inr x"
    by (auto simp: x word_sless_alt)
  then show ?thesis by (simp add: rollback_get)
qed

text \<open>One save of a plugin: set the capacity, discard what is confirmed, push.\<close>

lemma save_total:
  assumes "inv s" "0 <=s f"
  obtains s' where "rbind (confirm c (set_cap d s)) (push f x) = Inr s'"
  using assms by (metis confirm_inv confirm_total push_total rbind_simps(2) set_cap)

lemma save_inv:
  assumes "inv s" "0 <=s f" "rbind (confirm c (set_cap d s)) (push f x) = Inr s'"
  shows "inv s'" "cap s' = d"
proof -
  from assms(3) obtain t where t: "confirm c (set_cap d s) = Inr t" "push f x t = Inr s'"
    by blast
  have "inv t" "cap t = d"
    using assms(1) t(1) by (metis confirm_inv set_cap)+
  then show "inv s'" "cap s' = d"
    using push_inv assms(2) t(2) by auto
qed

lemma save_same:
  assumes "inv s" "0 <=s f" "rbind (confirm c (set_cap d s)) (push f x) = Inr s'" "0 < d"
  shows "peek s' f = Some x" "rank s' f = 0"
proof -
  from assms(3) obtain t where t: "confirm c (set_cap d s) = Inr t" "push f x t = Inr s'"
    by blast
  have "inv t" "cap t = d"
    using assms(1) t(1) by (metis confirm_inv set_cap)+
  then show "peek s' f = Some x" "rank s' f = 0"
    using push_same push_rank_same assms(2,4) t(2) by auto
qed

lemma save_keeps:
  assumes "inv s" "0 <=s f" "rbind (confirm c (set_cap d s)) (push f x) = Inr s'"
    and "g <s f" "\<not> g <s c" "Suc (rank s g) < d"
  shows "peek s' g = peek s g" "rank s' g \<le> Suc (rank s g)"
proof -
  from assms(3) obtain t where t: "confirm c (set_cap d s) = Inr t" "push f x t = Inr s'"
    by blast
  have s: "inv (set_cap d s)" "cap (set_cap d s) = d" "peek (set_cap d s) = peek s"
    "rank (set_cap d s) = rank s"
    using assms(1) set_cap by auto
  have t': "inv t" "cap t = d" "peek t g = peek s g" "rank t g \<le> rank s g"
    using confirm_inv [OF s(1) t(1)] confirm_peek [OF s(1) t(1), of g]
      confirm_rank [OF s(1) t(1), of g] assms(5) s by auto
  show "peek s' g = peek s g" "rank s' g \<le> Suc (rank s g)"
    using push_older [OF t'(1) assms(2) t(2) assms(4)] push_rank [OF t'(1) assms(2) t(2) assms(4)]
      t' assms(6) by auto
qed

text \<open>
  A snapshot outlives a run of saves of newer frames as long as the run is shorter than the
  capacity and nothing at or after the frame is confirmed away.
\<close>

lemma saves_keep:
  assumes "rfold (\<lambda>(c, f, x) s. rbind (confirm c (set_cap d s)) (push f x)) saves s = Inr s'"
    and "inv s" "peek s g = Some y" "rank s g + length saves < d"
    and "\<forall>(c, f, x) \<in> set saves. 0 <=s f \<and> g <s f \<and> \<not> g <s c"
  shows "peek s' g = Some y \<and> inv s'"
  using assms
proof (induction saves arbitrary: s)
  case (Cons v saves)
  obtain c f x where v: "v = (c, f, x)" by (cases v)
  obtain t where t: "rbind (confirm c (set_cap d s)) (push f x) = Inr t"
    "rfold (\<lambda>(c, f, x) s. rbind (confirm c (set_cap d s)) (push f x)) saves t = Inr s'"
    using Cons.prems(1) by (auto simp: v rbind_Inr_iff)
  have f: "0 <=s f" "g <s f" "\<not> g <s c" using Cons.prems(5) by (auto simp: v)
  have r: "Suc (rank s g) < d" using Cons.prems(4) by simp
  have "inv t" using save_inv(1) [OF Cons.prems(2) f(1) t(1)] .
  moreover note save_keeps [OF Cons.prems(2) f(1) t(1) f(2,3) r]
  ultimately show ?case
    using Cons.IH [OF t(2)] Cons.prems(3,4,5) by auto
qed simp

end

end
