(* ===== verification/GgrsSnapshots.thy ===== *)
theory GgrsSnapshots
  imports StoreInterface
begin

text \<open>
  The snapshot queue of \<open>src/snapshot/mod.rs\<close> (\<open>GgrsSnapshots\<close>): two parallel deques, newest at
  the front, one of frames and one of snapshots, and a depth. A deque is a list whose head is the
  front. Every operation of the \<open>impl\<close> is translated loop by loop, \<open>unwrap\<close>s and debug
  assertions included. The lemmas show that no operation panics on a queue that is in sync, what
  each leaves in the queue, and that the queue refines a history indexed by unbounded frame
  numbers, so that the wrap-around of the frame counter is harmless within half its range.
\<close>

section \<open>The queue and its operations\<close>

record 'a ggrs_snapshots =
  snapshots :: "'a list"
  frames :: "i32 list"
  depth :: nat

definition DEFAULT_FPS :: nat where
  "DEFAULT_FPS = 60"

definition default_snapshots :: "'a ggrs_snapshots" where
  "default_snapshots = \<lparr>snapshots = [], frames = [], depth = DEFAULT_FPS\<rparr>"

text \<open>Reserving capacity has no effect on the contents of a deque.\<close>

definition set_depth :: "nat \<Rightarrow> 'a ggrs_snapshots \<Rightarrow> 'a ggrs_snapshots" where
  "set_depth d s = s\<lparr>depth := d\<rparr>"

text \<open>The comparison of \<open>push\<close>: is the stored frame \<open>current\<close> at or after the pushed \<open>frame\<close>?\<close>

definition at_or_after :: "i32 \<Rightarrow> i32 \<Rightarrow> bool" where
  "at_or_after current frame =
     (let wrapped = 4294967295 div 2 < abs_diff current frame;
          current_after_frame = (frame <=s current \<and> \<not> wrapped);
          current_after_frame_wrapped = (current <=s frame \<and> wrapped)
      in current_after_frame \<or> current_after_frame_wrapped)"

fun evict_newer :: "i32 \<Rightarrow> 'a list \<Rightarrow> i32 list \<Rightarrow> ('a list \<times> i32 list) res" where
  "evict_newer frame snaps [] = Inr (snaps, [])"
| "evict_newer frame snaps (current # fs) =
     (if at_or_after current frame
      then (case snaps of [] \<Rightarrow> Inl UnwrapNone | _ # ss \<Rightarrow> evict_newer frame ss fs)
      else Inr (snaps, current # fs))"

function evict_oldest :: "nat \<Rightarrow> 'a list \<Rightarrow> i32 list \<Rightarrow> ('a list \<times> i32 list) res" where
  "evict_oldest d snaps fs =
     (if length snaps > d
      then (if fs = [] then Inl UnwrapNone else evict_oldest d (butlast snaps) (butlast fs))
      else Inr (snaps, fs))"
  by pat_completeness auto
termination
  by (relation "measure (\<lambda>(d, snaps, fs). length snaps)") auto

definition push :: "i32 \<Rightarrow> 'a \<Rightarrow> 'a ggrs_snapshots \<Rightarrow> 'a ggrs_snapshots res" where
  "push frame snapshot s =
     (if length (snapshots s) \<noteq> length (frames s) then Inl DebugAssert
      else rbind (evict_newer frame (snapshots s) (frames s)) (\<lambda>(ss, fs).
           rbind (evict_oldest (depth s) (snapshot # ss) (frame # fs)) (\<lambda>(ss, fs).
           Inr (s\<lparr>snapshots := ss, frames := fs\<rparr>))))"

function drop_confirmed :: "i32 \<Rightarrow> 'a list \<Rightarrow> i32 list \<Rightarrow> ('a list \<times> i32 list) res" where
  "drop_confirmed confirmed_frame snaps fs =
     (if fs \<noteq> [] \<and> last fs <s confirmed_frame
      then (if snaps = [] then Inl UnwrapNone
            else drop_confirmed confirmed_frame (butlast snaps) (butlast fs))
      else Inr (snaps, fs))"
  by pat_completeness auto
termination
  by (relation "measure (\<lambda>(c, snaps, fs). length fs)") auto

definition confirm :: "i32 \<Rightarrow> 'a ggrs_snapshots \<Rightarrow> 'a ggrs_snapshots res" where
  "confirm confirmed_frame s =
     (if length (snapshots s) \<noteq> length (frames s) then Inl DebugAssert
      else rbind (drop_confirmed confirmed_frame (snapshots s) (frames s)) (\<lambda>(ss, fs).
           Inr (s\<lparr>snapshots := ss, frames := fs\<rparr>)))"

fun pop_until :: "i32 \<Rightarrow> 'a list \<Rightarrow> i32 list \<Rightarrow> ('a list \<times> i32 list) res" where
  "pop_until frame snaps [] = Inl (NoSnapshotAt frame)"
| "pop_until frame snaps (current # fs) =
     (if current \<noteq> frame
      then (case snaps of [] \<Rightarrow> Inl UnwrapNone | _ # ss \<Rightarrow> pop_until frame ss fs)
      else Inr (snaps, current # fs))"

definition rollback :: "i32 \<Rightarrow> 'a ggrs_snapshots \<Rightarrow> 'a ggrs_snapshots res" where
  "rollback frame s =
     rbind (pop_until frame (snapshots s) (frames s)) (\<lambda>(ss, fs).
       Inr (s\<lparr>snapshots := ss, frames := fs\<rparr>))"

definition get_snapshot :: "'a ggrs_snapshots \<Rightarrow> 'a res" where
  "get_snapshot s = (case snapshots s of [] \<Rightarrow> Inl NoSnapshot | x # _ \<Rightarrow> Inr x)"

text \<open>\<open>frames.iter().enumerate().find(..)\<close>: the first index that holds the frame.\<close>

fun find_index :: "i32 \<Rightarrow> nat \<Rightarrow> i32 list \<Rightarrow> nat option" where
  "find_index frame i [] = None"
| "find_index frame i (saved_frame # fs) =
     (if saved_frame = frame then Some i else find_index frame (Suc i) fs)"

definition peek :: "'a ggrs_snapshots \<Rightarrow> i32 \<Rightarrow> 'a option" where
  "peek s frame =
     Option.bind (find_index frame 0 (frames s))
       (\<lambda>index. if index < length (snapshots s) then Some (snapshots s ! index) else None)"

text \<open>The two systems of the \<open>impl\<close>; an absent resource is \<open>None\<close>.\<close>

definition discard_old_snapshots ::
  "i32 option \<Rightarrow> 'a ggrs_snapshots \<Rightarrow> 'a ggrs_snapshots res" where
  "discard_old_snapshots confirmed_frame s =
     (case confirmed_frame of None \<Rightarrow> Inr s | Some c \<Rightarrow> confirm c s)"

definition sync_depth :: "nat option \<Rightarrow> 'a ggrs_snapshots \<Rightarrow> 'a ggrs_snapshots" where
  "sync_depth max_prediction s =
     (case max_prediction of None \<Rightarrow> s | Some d \<Rightarrow> set_depth d s)"

section \<open>The queues in sync\<close>

text \<open>
  The invariant the debug assertions check, and the queue read as one list of frame and
  snapshot pairs. The functional lemmas below give each operation on that list.
\<close>

definition in_sync :: "'a ggrs_snapshots \<Rightarrow> bool" where
  "in_sync s \<longleftrightarrow> length (snapshots s) = length (frames s)"

definition entries :: "'a ggrs_snapshots \<Rightarrow> (i32 \<times> 'a) list" where
  "entries s = zip (frames s) (snapshots s)"

definition with_entries :: "'a ggrs_snapshots \<Rightarrow> (i32 \<times> 'a) list \<Rightarrow> 'a ggrs_snapshots" where
  "with_entries s es = s\<lparr>snapshots := map snd es, frames := map fst es\<rparr>"

lemma in_sync_default [simp]: "in_sync default_snapshots"
  by (simp add: in_sync_def default_snapshots_def)

lemma entries_default [simp]: "entries default_snapshots = []"
  by (simp add: entries_def default_snapshots_def)

lemma in_sync_with_entries [simp]: "in_sync (with_entries s es)"
  by (simp add: in_sync_def with_entries_def)

lemma entries_with_entries [simp]: "entries (with_entries s es) = es"
  by (simp add: entries_def with_entries_def zip_map_fst_snd)

lemma depth_with_entries [simp]: "depth (with_entries s es) = depth s"
  by (simp add: with_entries_def)

lemma in_sync_set_depth [simp]: "in_sync (set_depth d s) = in_sync s"
  by (simp add: in_sync_def set_depth_def)

lemma entries_set_depth [simp]: "entries (set_depth d s) = entries s"
  by (simp add: entries_def set_depth_def)

lemma depth_set_depth [simp]: "depth (set_depth d s) = d"
  by (simp add: set_depth_def)

lemma frames_entries: "in_sync s \<Longrightarrow> frames s = map fst (entries s)"
  by (simp add: in_sync_def entries_def)

lemma snapshots_entries: "in_sync s \<Longrightarrow> snapshots s = map snd (entries s)"
  by (simp add: in_sync_def entries_def)

text \<open>The four loops, on the paired list.\<close>

declare evict_oldest.simps [simp del] drop_confirmed.simps [simp del]

lemma evict_newer_entries:
  "evict_newer f (map snd es) (map fst es) =
     (let r = dropWhile (\<lambda>(g, _). at_or_after g f) es in Inr (map snd r, map fst r))"
  by (induction es) (auto simp: Let_def)

lemma pop_until_entries:
  "pop_until f (map snd es) (map fst es) =
     (let r = dropWhile (\<lambda>(g, _). g \<noteq> f) es
      in if r = [] then Inl (NoSnapshotAt f) else Inr (map snd r, map fst r))"
  by (induction es) (auto simp: Let_def)

lemma evict_oldest_entries:
  "evict_oldest d (map snd es) (map fst es) = Inr (map snd (take d es), map fst (take d es))"
proof (induction es rule: rev_induct)
  case Nil
  then show ?case by (simp add: evict_oldest.simps)
next
  case (snoc e es)
  then show ?case
    by (subst evict_oldest.simps) (auto simp: butlast_append)
qed

fun drop_back :: "('a \<Rightarrow> bool) \<Rightarrow> 'a list \<Rightarrow> 'a list" where
  "drop_back P xs = rev (dropWhile P (rev xs))"

declare drop_back.simps [simp del]

lemma drop_back_Nil [simp]: "drop_back P [] = []"
  by (simp add: drop_back.simps)

lemma drop_back_snoc [simp]:
  "drop_back P (xs @ [x]) = (if P x then drop_back P xs else xs @ [x])"
  by (simp add: drop_back.simps)

lemma drop_confirmed_entries:
  "drop_confirmed c (map snd es) (map fst es) =
     (let r = drop_back (\<lambda>(g, _). g <s c) es in Inr (map snd r, map fst r))"
proof (induction es rule: rev_induct)
  case Nil
  then show ?case by (simp add: drop_confirmed.simps)
next
  case (snoc e es)
  then show ?case
    by (subst drop_confirmed.simps) (auto simp: butlast_append Let_def split: prod.splits)
qed

section \<open>Each operation on the paired list\<close>

lemma push_eq:
  assumes "in_sync s"
  shows "push f x s =
    Inr (with_entries s (take (depth s) ((f, x) # dropWhile (\<lambda>(g, _). at_or_after g f) (entries s))))"
proof -
  let ?r = "dropWhile (\<lambda>(g, _). at_or_after g f) (entries s)"
  have "evict_newer f (snapshots s) (frames s) = Inr (map snd ?r, map fst ?r)"
    using evict_newer_entries [of f "entries s"] assms
    by (simp only: frames_entries snapshots_entries Let_def)
  moreover have "evict_oldest (depth s) (x # map snd ?r) (f # map fst ?r) =
      Inr (map snd (take (depth s) ((f, x) # ?r)), map fst (take (depth s) ((f, x) # ?r)))"
    using evict_oldest_entries [of "depth s" "(f, x) # ?r"] by simp
  ultimately show ?thesis
    using assms by (simp add: push_def in_sync_def with_entries_def)
qed

lemma confirm_eq:
  assumes "in_sync s"
  shows "confirm c s = Inr (with_entries s (drop_back (\<lambda>(g, _). g <s c) (entries s)))"
proof -
  have "drop_confirmed c (snapshots s) (frames s) =
      (let r = drop_back (\<lambda>(g, _). g <s c) (entries s) in Inr (map snd r, map fst r))"
    using drop_confirmed_entries [of c "entries s"] assms
    by (simp only: frames_entries snapshots_entries)
  then show ?thesis
    using assms by (simp add: confirm_def in_sync_def with_entries_def Let_def)
qed

lemma rollback_eq:
  assumes "in_sync s"
  shows "rollback f s =
    (let r = dropWhile (\<lambda>(g, _). g \<noteq> f) (entries s)
     in if r = [] then Inl (NoSnapshotAt f) else Inr (with_entries s r))"
proof -
  have "pop_until f (snapshots s) (frames s) =
      (let r = dropWhile (\<lambda>(g, _). g \<noteq> f) (entries s)
       in if r = [] then Inl (NoSnapshotAt f) else Inr (map snd r, map fst r))"
    using pop_until_entries [of f "entries s"] assms
    by (simp only: frames_entries snapshots_entries)
  then show ?thesis
    by (simp add: rollback_def with_entries_def Let_def)
qed

lemma get_snapshot_eq:
  "in_sync s \<Longrightarrow>
     get_snapshot s = (case entries s of [] \<Rightarrow> Inl NoSnapshot | e # _ \<Rightarrow> Inr (snd e))"
  by (auto simp: get_snapshot_def snapshots_entries split: list.splits)

lemma find_index_ge: "find_index f i fs = Some j \<Longrightarrow> i \<le> j"
  by (induction fs arbitrary: i) (auto split: if_splits dest: Suc_leD)

lemma find_index_zip:
  "length fs = length ss \<Longrightarrow>
     Option.bind (find_index f i fs)
       (\<lambda>j. if j - i < length ss then Some (ss ! (j - i)) else None) = map_of (zip fs ss) f"
proof (induction fs ss arbitrary: i rule: list_induct2)
  case (Cons g fs x ss)
  show ?case
  proof (cases "g = f")
    case False
    have "find_index f (Suc i) fs = Some j \<Longrightarrow> j - i = Suc (j - Suc i)" for j
      using find_index_ge [of f "Suc i" fs j] by simp
    with False Cons.IH [of "Suc i"] show ?thesis
      by (cases "find_index f (Suc i) fs") auto
  qed simp
qed simp

lemma peek_eq: "in_sync s \<Longrightarrow> peek s f = map_of (entries s) f"
  using find_index_zip [of "frames s" "snapshots s" f 0]
  by (simp add: peek_def in_sync_def entries_def cong: if_cong)

section \<open>The frame comparison\<close>

lemma at_or_after_sint:
  "at_or_after c f \<longleftrightarrow>
     (if \<bar>sint c - sint f\<bar> < 2 ^ 31 then sint f \<le> sint c else sint c < sint f)"
proof -
  have "(4294967295 div 2 < abs_diff c f) \<longleftrightarrow> 2 ^ 31 \<le> \<bar>sint c - sint f\<bar>"
    by (auto simp: word_less_def uint_abs_diff)
  then show ?thesis
    by (auto simp: at_or_after_def Let_def word_sle_eq)
qed

text \<open>
  Within half the range of the counter the comparison is the one of the unbounded frame numbers,
  whatever wrap-around separates the two values.
\<close>

lemma sint_of_int_cases:
  obtains k where "sint (word_of_int a :: i32) = a + 2 ^ 32 * k"
proof -
  have "sint (word_of_int a :: i32) = take_bit 32 (a + 2 ^ 31) - 2 ^ 31"
    by (simp add: sint_sbintrunc' signed_take_bit_eq_take_bit_shift)
  also have "\<dots> = a + 2 ^ 32 * (- ((a + 2 ^ 31) div 2 ^ 32))"
    by (simp add: take_bit_eq_mod minus_div_mult_eq_mod [symmetric])
  finally show ?thesis by (rule that)
qed

lemma at_or_after_of_int:
  assumes "\<bar>a - b\<bar> < 2 ^ 31"
  shows "at_or_after (word_of_int a) (word_of_int b) \<longleftrightarrow> b \<le> a"
proof -
  let ?A = "sint (word_of_int a :: i32)" and ?B = "sint (word_of_int b :: i32)"
  obtain i where i: "?A = a + 2 ^ 32 * i" by (rule sint_of_int_cases)
  obtain j where j: "?B = b + 2 ^ 32 * j" by (rule sint_of_int_cases)
  have D: "?A - ?B = (a - b) + 2 ^ 32 * (i - j)"
    by (simp add: i j algebra_simps)
  have bd: "\<bar>?A - ?B\<bar> < 2 ^ 32"
    using sint_i32_bounds [of "word_of_int a"] sint_i32_bounds [of "word_of_int b"] by simp
  consider "i - j = 0" | "i - j = 1" | "i - j = - 1"
    using D bd assms by fastforce
  then have "?A - ?B = a - b \<or> ?A - ?B = a - b + 2 ^ 32 \<or> ?A - ?B = a - b - 2 ^ 32"
    by cases (use D in simp_all)
  then show ?thesis
    using assms bd unfolding at_or_after_sint by auto
qed

section \<open>The queue of a session: frames counted from zero\<close>

text \<open>
  GGRS counts frames up from zero. In that regime the queue is strictly ordered, newest first,
  and the wrapped comparison is the plain one. \<open>queue_ok\<close> is the invariant of the component.
\<close>

definition queue_ok :: "'a ggrs_snapshots \<Rightarrow> bool" where
  "queue_ok s \<longleftrightarrow> in_sync s \<and> sorted_wrt (\<lambda>g h. h <s g) (frames s)
     \<and> list_all (\<lambda>g. 0 <=s g) (frames s)"

text \<open>How many stored frames are newer than a given one: its distance from the front.\<close>

definition newer_than :: "'a ggrs_snapshots \<Rightarrow> i32 \<Rightarrow> nat" where
  "newer_than s g = length (filter (\<lambda>h. g <s h) (frames s))"

lemma sless_trans: "(a :: i32) <s b \<Longrightarrow> b <s c \<Longrightarrow> a <s c"
  by (simp add: word_sless_alt)

lemma sless_linear: "\<not> (g :: i32) <s c \<longleftrightarrow> c <=s g"
  by (simp add: word_sless_alt word_sle_eq linorder_not_less)

lemma sless_irrefl [simp]: "\<not> (a :: i32) <s a"
  by (simp add: word_sless_alt)

lemma at_or_after_nonneg: "0 <=s g \<Longrightarrow> 0 <=s f \<Longrightarrow> at_or_after g f \<longleftrightarrow> \<not> g <s f"
  using sint_i32_bounds [of g] sint_i32_bounds [of f]
  by (auto simp: at_or_after_sint word_sle_eq word_sless_alt)

lemma queue_okI:
  "sorted_wrt (\<lambda>(g, _) (h, _). h <s g) es \<Longrightarrow> \<forall>(g, _) \<in> set es. 0 <=s g \<Longrightarrow>
     queue_ok (with_entries s es)"
  by (force simp: queue_ok_def with_entries_def in_sync_def sorted_wrt_map list_all_iff
      case_prod_unfold elim!: sorted_wrt_mono_rel [rotated])

lemma queue_okD:
  assumes "queue_ok s"
  shows "in_sync s" "sorted_wrt (\<lambda>(g, _) (h, _). h <s g) (entries s)"
    "\<forall>(g, _) \<in> set (entries s). 0 <=s g" "distinct (map fst (entries s))"
proof -
  show sync: "in_sync s" using assms by (simp add: queue_ok_def)
  have fr: "frames s = map fst (entries s)" using sync by (rule frames_entries)
  show "sorted_wrt (\<lambda>(g, _) (h, _). h <s g) (entries s)"
    using assms by (simp add: queue_ok_def fr sorted_wrt_map case_prod_unfold)
  show "\<forall>(g, _) \<in> set (entries s). 0 <=s g"
    using assms by (force simp: queue_ok_def fr list_all_iff)
  show "distinct (map fst (entries s))"
    using assms by (auto simp: queue_ok_def fr intro: sorted_wrt_irrefl_distinct)
qed

lemma queue_ok_default [simp]: "queue_ok default_snapshots"
  by (simp add: queue_ok_def default_snapshots_def in_sync_def)

lemma queue_ok_set_depth [simp]: "queue_ok (set_depth d s) = queue_ok s"
  by (simp add: queue_ok_def in_sync_def set_depth_def)

lemma peek_with_entries [simp]: "peek (with_entries s es) g = map_of es g"
  by (simp add: peek_eq)

lemma peek_set_depth [simp]: "peek (set_depth d s) g = peek s g"
  by (simp add: peek_def set_depth_def cong: if_cong)

lemma newer_than_with_entries:
  "newer_than (with_entries s es) g = length (filter (\<lambda>(h, _). g <s h) es)"
  by (simp add: newer_than_def with_entries_def filter_map o_def case_prod_unfold)

lemma newer_than_set_depth [simp]: "newer_than (set_depth d s) g = newer_than s g"
  by (simp add: newer_than_def set_depth_def)

text \<open>On a sorted queue the loops are filters.\<close>

lemma dropWhile_at_or_after:
  assumes "queue_ok s" "0 <=s f"
  shows "dropWhile (\<lambda>(g, _). at_or_after g f) (entries s) = filter (\<lambda>(g, _). g <s f) (entries s)"
proof -
  let ?P = "\<lambda>(g, _). \<not> g <s f"
  note ok = queue_okD [OF assms(1)]
  have "dropWhile (\<lambda>(g, _). at_or_after g f) (entries s) = dropWhile ?P (entries s)"
    using ok(3) assms(2) by (intro dropWhile_cong) (auto simp: at_or_after_nonneg)
  also have "\<dots> = filter (\<lambda>e. \<not> ?P e) (entries s)"
    using ok(2) by (intro dropWhile_eq_filter_sorted)
      (auto elim!: sorted_wrt_mono_rel [rotated] intro: sless_trans)
  finally show ?thesis by (simp add: case_prod_unfold)
qed

lemma drop_back_confirmed:
  assumes "queue_ok s"
  shows "drop_back (\<lambda>(g, _). g <s c) (entries s) = filter (\<lambda>(g, _). \<not> g <s c) (entries s)"
proof -
  let ?P = "\<lambda>(g, _). g <s c"
  have "sorted_wrt (\<lambda>(h, _) (g, _). h <s g) (rev (entries s))"
    using queue_okD(2) [OF assms] by (simp add: sorted_wrt_rev case_prod_unfold)
  then have "dropWhile ?P (rev (entries s)) = filter (\<lambda>e. \<not> ?P e) (rev (entries s))"
    by (intro dropWhile_eq_filter_sorted)
      (auto elim!: sorted_wrt_mono_rel [rotated] dest: sless_trans)
  then show ?thesis by (simp add: drop_back.simps rev_filter case_prod_unfold)
qed

lemma dropWhile_not_found: "map_of es f = None \<Longrightarrow> dropWhile (\<lambda>(g, _). g \<noteq> f) es = []"
  by (auto simp: map_of_eq_None_iff image_iff)

lemma dropWhile_found:
  "sorted_wrt (\<lambda>(g, _) (h, _). h <s g) es \<Longrightarrow> map_of es f = Some x \<Longrightarrow>
     dropWhile (\<lambda>(g, _). g \<noteq> f) es = filter (\<lambda>(g, _). \<not> f <s g) es
     \<and> hd (filter (\<lambda>(g, _). \<not> f <s g) es) = (f, x) \<and> filter (\<lambda>(g, _). \<not> f <s g) es \<noteq> []"
proof (induction es)
  case (Cons e es)
  show ?case
  proof (cases "fst e = f")
    case True
    have "filter (\<lambda>(g, _). \<not> f <s g) es = es"
      using Cons.prems(1) True
      by (auto simp: filter_id_conv word_sless_alt split: prod.splits)
    with True Cons.prems(2) show ?thesis by (cases e) auto
  next
    case False
    then have found: "map_of es f = Some x"
      using Cons.prems(2) by (cases e) auto
    then have "f <s fst e"
      using Cons.prems(1) by (cases e) (auto dest: map_of_SomeD)
    with False Cons found show ?thesis by (cases e) auto
  qed
qed simp

lemma map_of_filter_key:
  "map_of (filter (\<lambda>(g, _). P g) es) g = (if P g then map_of es g else None)"
  by (induction es) auto

section \<open>The queue implements the store interface\<close>

lemma push_sorted:
  assumes "queue_ok s" "0 <=s f"
  shows "push f x s =
    Inr (with_entries s (take (depth s) ((f, x) # filter (\<lambda>(g, _). g <s f) (entries s))))"
  using assms by (simp add: push_eq queue_okD(1) dropWhile_at_or_after)

lemma push_queue_ok:
  assumes "queue_ok s" "0 <=s f" "push f x s = Inr s'"
  shows "queue_ok s'" "depth s' = depth s"
proof -
  let ?es = "(f, x) # filter (\<lambda>(g, _). g <s f) (entries s)"
  have es: "sorted_wrt (\<lambda>(g, _) (h, _). h <s g) ?es" "\<forall>(g, _) \<in> set ?es. 0 <=s g"
    using queue_okD(2,3) [OF assms(1)] assms(2) by (auto intro: sorted_wrt_filter)
  have "queue_ok (with_entries s (take n ?es))" for n
  proof (rule queue_okI)
    show "sorted_wrt (\<lambda>(g, _) (h, _). h <s g) (take n ?es)"
      using es(1) by (rule sorted_wrt_take)
    show "\<forall>(g, _) \<in> set (take n ?es). 0 <=s g"
      using es(2) by (blast dest: in_set_takeD)
  qed
  then show "queue_ok s'" "depth s' = depth s"
    using assms(3) unfolding push_sorted [OF assms(1,2)] by auto
qed

lemma map_of_take_rank:
  assumes "sorted_wrt (\<lambda>(g, _) (h, _). h <s g) es" "length (filter (\<lambda>(h, _). g <s h) es) < n"
  shows "map_of (take n es) g = map_of es g"
  using assms
proof (induction es arbitrary: n)
  case (Cons e es)
  obtain m where n: "n = Suc m" using Cons.prems(2) by (cases n) auto
  show ?case
  proof (cases "g <s fst e")
    case True
    with Cons n show ?thesis by (cases e) auto
  next
    case False
    then have "map_of es g = None" if "fst e \<noteq> g"
      using Cons.prems(1) that
      by (cases e) (force simp: map_of_eq_None_iff word_sless_alt)
    moreover have "map_of (take m es) g = None" if "map_of es g = None"
      using that by (auto simp: map_of_eq_None_iff dest: in_set_takeD)
    ultimately show ?thesis using n by (cases e) auto
  qed
qed simp

lemma newer_than_entries:
  "in_sync s \<Longrightarrow> newer_than s g = length (filter (\<lambda>(h, _). g <s h) (entries s))"
  by (simp add: newer_than_def frames_entries filter_map o_def case_prod_unfold)

lemma newer_than_older:
  "length (filter (\<lambda>(h, _). g <s h) ((f, x) # filter P es))
     \<le> Suc (length (filter (\<lambda>(h, _). g <s h) es))"
  using length_filter_filter_le [of "\<lambda>(h, _). g <s h" P es]
  by (simp del: filter_filter)

lemma newer_than_push:
  assumes "queue_ok s" "0 <=s f" "push f x s = Inr s'"
  shows "newer_than s' g \<le> Suc (newer_than s g)"
proof -
  let ?es = "(f, x) # filter (\<lambda>(g, _). g <s f) (entries s)"
  have s': "s' = with_entries s (take (depth s) ?es)"
    using assms(3) unfolding push_sorted [OF assms(1,2)] by (simp only: sum.inject)
  have "newer_than s' g = length (filter (\<lambda>(h, _). g <s h) (take (depth s) ?es))"
    unfolding s' by (rule newer_than_with_entries)
  also have "\<dots> \<le> length (filter (\<lambda>(h, _). g <s h) ?es)"
    by (rule length_filter_take_le)
  also have "\<dots> \<le> Suc (newer_than s g)"
    unfolding newer_than_entries [OF queue_okD(1) [OF assms(1)]] by (rule newer_than_older)
  finally show ?thesis .
qed

lemma peek_push:
  assumes "queue_ok s" "0 <=s f" "push f x s = Inr s'"
  shows "0 < depth s \<Longrightarrow> peek s' f = Some x"
    and "newer_than s' f = 0"
    and "f <s g \<Longrightarrow> peek s' g = None"
    and "g <s f \<Longrightarrow> Suc (newer_than s g) < depth s \<Longrightarrow> peek s' g = peek s g"
proof -
  let ?es = "(f, x) # filter (\<lambda>(g, _). g <s f) (entries s)"
  have s': "s' = with_entries s (take (depth s) ?es)"
    using assms(3) unfolding push_sorted [OF assms(1,2)] by simp
  have sorted: "sorted_wrt (\<lambda>(g, _) (h, _). h <s g) ?es"
    using queue_okD(2) [OF assms(1)] by (auto intro: sorted_wrt_filter)
  show "0 < depth s \<Longrightarrow> peek s' f = Some x"
    by (cases "depth s") (auto simp: s')
  show "newer_than s' f = 0"
    by (auto simp: s' newer_than_with_entries filter_empty_conv dest!: in_set_takeD
        dest: sless_trans)
  show "f <s g \<Longrightarrow> peek s' g = None"
    by (auto simp: s' map_of_eq_None_iff dest!: in_set_takeD dest: sless_trans)
  assume g: "g <s f" and r: "Suc (newer_than s g) < depth s"
  have "length (filter (\<lambda>(h, _). g <s h) ?es) \<le> Suc (newer_than s g)"
    unfolding newer_than_entries [OF queue_okD(1) [OF assms(1)]] by (rule newer_than_older)
  then have "map_of (take (depth s) ?es) g = map_of ?es g"
    using map_of_take_rank [OF sorted] r by simp
  then show "peek s' g = peek s g"
    using g by (auto simp: s' peek_eq queue_okD(1) [OF assms(1)] map_of_filter_key)
qed

lemma confirm_sorted:
  "queue_ok s \<Longrightarrow> confirm c s = Inr (with_entries s (filter (\<lambda>(g, _). \<not> g <s c) (entries s)))"
  by (simp add: confirm_eq queue_okD(1) drop_back_confirmed)

lemma queue_ok_filter:
  assumes "queue_ok s" shows "queue_ok (with_entries s (filter P (entries s)))"
proof (rule queue_okI)
  show "sorted_wrt (\<lambda>(g, _) (h, _). h <s g) (filter P (entries s))"
    using queue_okD(2) [OF assms] by (rule sorted_wrt_filter)
  show "\<forall>(g, _) \<in> set (filter P (entries s)). 0 <=s g"
    using queue_okD(3) [OF assms] by auto
qed

lemma newer_than_filter:
  "queue_ok s \<Longrightarrow> newer_than (with_entries s (filter P (entries s))) g \<le> newer_than s g"
  unfolding newer_than_with_entries newer_than_entries [OF queue_okD(1)]
  by (rule length_filter_filter_le)

lemma rollback_sorted:
  assumes "queue_ok s" "peek s f = Some x"
  shows "rollback f s = Inr (with_entries s (filter (\<lambda>(g, _). \<not> f <s g) (entries s)))"
    and "get_snapshot (with_entries s (filter (\<lambda>(g, _). \<not> f <s g) (entries s))) = Inr x"
proof -
  have "map_of (entries s) f = Some x"
    using assms by (simp add: peek_eq queue_okD(1))
  from dropWhile_found [OF queue_okD(2) [OF assms(1)] this]
  show "rollback f s = Inr (with_entries s (filter (\<lambda>(g, _). \<not> f <s g) (entries s)))"
    and "get_snapshot (with_entries s (filter (\<lambda>(g, _). \<not> f <s g) (entries s))) = Inr x"
    by (auto simp: rollback_eq queue_okD(1) [OF assms(1)] get_snapshot_eq Let_def split: list.split)
qed

lemma rollback_missing_frame:
  "in_sync s \<Longrightarrow> peek s f = None \<Longrightarrow> rollback f s = Inl (NoSnapshotAt f)"
  by (simp add: rollback_eq peek_eq dropWhile_not_found)

interpretation gs: snapshot_store queue_ok depth newer_than set_depth push confirm rollback
  get_snapshot peek
proof
  fix s s' :: "'a ggrs_snapshots" and f g c :: i32 and x :: 'a and d :: nat
  assume ok: "queue_ok s"
  note sync = queue_okD(1) [OF ok]
  show "queue_ok (set_depth d s) \<and> depth (set_depth d s) = d
      \<and> peek (set_depth d s) = peek s \<and> newer_than (set_depth d s) = newer_than s"
    using ok by (auto simp: fun_eq_iff)
  show "\<exists>s'. confirm c s = Inr s'"
    by (simp add: confirm_sorted ok)
  show "queue_ok s' \<and> depth s' = depth s" if "confirm c s = Inr s'"
    using that by (auto simp: confirm_sorted ok queue_ok_filter)
  show "peek s' g = (if g <s c then None else peek s g)" if "confirm c s = Inr s'"
    using that by (auto simp: confirm_sorted ok map_of_filter_key peek_eq sync)
  show "newer_than s' g \<le> newer_than s g" if "confirm c s = Inr s'"
    using that by (auto simp: confirm_sorted ok newer_than_filter)
  show "rollback f s = Inl (NoSnapshotAt f)" if "peek s f = None"
    using that sync by (rule rollback_missing_frame [rotated])
  show "\<exists>s'. rollback f s = Inr s' \<and> get_snapshot s' = Inr x \<and> queue_ok s' \<and> depth s' = depth s
        \<and> (\<forall>g. peek s' g = (if f <s g then None else peek s g))
        \<and> (\<forall>g. newer_than s' g \<le> newer_than s g)" if "peek s f = Some x"
    using rollback_sorted [OF ok that]
    by (simp add: queue_ok_filter ok newer_than_filter map_of_filter_key peek_eq sync)
  assume f: "0 <=s f"
  show "\<exists>s'. push f x s = Inr s'"
    by (simp add: push_sorted ok f)
  assume p: "push f x s = Inr s'"
  show "queue_ok s' \<and> depth s' = depth s"
    using push_queue_ok [OF ok f p] by simp
  show "peek s' f = Some x" if "0 < depth s"
    using peek_push(1) [OF ok f p that] .
  show "newer_than s' f = 0"
    using peek_push(2) [OF ok f p] .
  show "peek s' g = None" if "f <s g"
    using peek_push(3) [OF ok f p that] .
  show "peek s' g = peek s g" if "g <s f" "Suc (newer_than s g) < depth s"
    using peek_push(4) [OF ok f p that] .
  show "newer_than s' g \<le> Suc (newer_than s g)" if "g <s f"
    using newer_than_push [OF ok f p] .
qed

text \<open>
  The chained systems \<open>(sync_depth, discard_old_snapshots, save)\<close> that every snapshot plugin adds
  to \<open>SaveWorldSystems::Snapshot\<close>, on the storage of the plugin; \<open>x\<close> is what its \<open>save\<close> pushes.
\<close>

definition save_chain ::
  "nat option \<Rightarrow> i32 option \<Rightarrow> i32 \<Rightarrow> 'a \<Rightarrow> 'a ggrs_snapshots \<Rightarrow> 'a ggrs_snapshots res" where
  "save_chain max_prediction confirmed_frame frame x s =
     rbind (discard_old_snapshots confirmed_frame (sync_depth max_prediction s)) (push frame x)"

lemma save_chain_Some:
  "save_chain (Some d) (Some c) f x s = rbind (confirm c (set_depth d s)) (push f x)"
  by (simp add: save_chain_def discard_old_snapshots_def sync_depth_def)

lemma queue_ok_sync_depth [simp]: "queue_ok (sync_depth d s) = queue_ok s"
  by (simp add: sync_depth_def split: option.split)

lemma discard_old_total:
  assumes "queue_ok s" shows "\<exists>t. discard_old_snapshots c s = Inr t \<and> queue_ok t"
proof (cases c)
  case (Some c')
  then show ?thesis
    using gs.confirm_total [OF assms, of c'] gs.confirm_inv [OF assms, of c']
    by (auto simp: discard_old_snapshots_def)
qed (simp add: discard_old_snapshots_def assms)

lemma save_chain_total:
  assumes "queue_ok s" "0 <=s f"
  shows "\<exists>s'. save_chain d c f x s = Inr s' \<and> queue_ok s'"
proof -
  obtain t where t: "discard_old_snapshots c (sync_depth d s) = Inr t" "queue_ok t"
    using discard_old_total assms(1) by (metis queue_ok_sync_depth)
  obtain s' where s': "push f x t = Inr s'"
    using gs.push_total [OF t(2) assms(2)] by blast
  show ?thesis
    using s' gs.push_inv [OF t(2) assms(2) s'] t(1) by (simp add: save_chain_def)
qed

text \<open>A saved snapshot through a run of further saves of newer frames.\<close>

definition later_saves :: "nat \<Rightarrow> i32 \<Rightarrow> (i32 \<times> i32 \<times> 'a) list \<Rightarrow> bool" where
  "later_saves d g saves \<longleftrightarrow> length saves < d \<and>
     (\<forall>(c, f, x) \<in> set saves. 0 <=s f \<and> g <s f \<and> \<not> g <s c)"

definition run_saves ::
  "nat \<Rightarrow> (i32 \<times> i32 \<times> 'a) list \<Rightarrow> 'a ggrs_snapshots \<Rightarrow> 'a ggrs_snapshots res" where
  "run_saves d saves s = rfold (\<lambda>(c, f, x). save_chain (Some d) (Some c) f x) saves s"

lemma saves_keep_chain:
  assumes "run_saves d saves s = Inr s'"
    and "queue_ok s" and "peek s g = Some y" and "newer_than s g + length saves < d"
    and "\<forall>(c, f, x) \<in> set saves. 0 <=s f \<and> g <s f \<and> \<not> g <s c"
  shows "peek s' g = Some y \<and> queue_ok s'"
proof -
  have "rfold (\<lambda>(c, f, x) s. rbind (confirm c (set_depth d s)) (push f x)) saves s = Inr s'"
    using assms(1) by (simp add: run_saves_def save_chain_Some [abs_def] case_prod_unfold)
  from gs.saves_keep [OF this assms(2-5)] show ?thesis .
qed

lemma saved_stays:
  assumes "queue_ok s" "0 <=s g" "0 < depth s" "push g y s = Inr s1"
    and "run_saves d saves s1 = Inr s2" "later_saves d g saves"
  shows "peek s2 g = Some y \<and> queue_ok s2"
  using saves_keep_chain [OF assms(5)] gs.push_inv [OF assms(1,2,4)] gs.push_same [OF assms(1,2,4,3)]
    gs.push_rank_same [OF assms(1,2,4)] assms(6)
  by (auto simp: later_saves_def)

lemma run_saves_total:
  assumes "queue_ok s" "\<forall>(c, f, x) \<in> set saves. 0 <=s f"
  shows "\<exists>s'. run_saves d saves s = Inr s' \<and> queue_ok s'"
  unfolding run_saves_def
  using assms by (intro rfold_total) (auto intro: save_chain_total)

section \<open>Refinement: a history of unbounded frame numbers\<close>

text \<open>
  The abstract storage is a history of (frame, snapshot) pairs, newest first, whose frames are
  unbounded integers; the queue stores their low 32 bits.
\<close>

definition refines :: "'a ggrs_snapshots \<Rightarrow> (int \<times> 'a) list \<Rightarrow> bool" where
  "refines s h \<longleftrightarrow> in_sync s \<and> entries s = map (\<lambda>(k, x). (word_of_int k, x)) h"

definition hist_push :: "nat \<Rightarrow> int \<Rightarrow> 'a \<Rightarrow> (int \<times> 'a) list \<Rightarrow> (int \<times> 'a) list" where
  "hist_push d f x h = take d ((f, x) # dropWhile (\<lambda>(g, _). f \<le> g) h)"

definition hist_rollback :: "int \<Rightarrow> (int \<times> 'a) list \<Rightarrow> (int \<times> 'a) list" where
  "hist_rollback f h = dropWhile (\<lambda>(g, _). g \<noteq> f) h"

lemma word_of_int_eq_near:
  assumes "\<bar>a - b\<bar> < 2 ^ 31" shows "(word_of_int a :: i32) = word_of_int b \<longleftrightarrow> a = b"
proof -
  have "a = b" if "2 ^ 32 dvd (a - b)"
    using dvd_imp_le_int [of "a - b" "2 ^ 32"] that assms by (cases "a = b") auto
  then show ?thesis
    by (auto simp: word_of_int_eq_iff take_bit_eq_mod mod_eq_dvd_iff)
qed

lemma hist_push_near:
  "\<forall>(g, _) \<in> set h. \<bar>g - f\<bar> < 2 ^ 31 \<Longrightarrow>
     dropWhile (\<lambda>(g, _). at_or_after g (word_of_int f)) (map (\<lambda>(k, x). (word_of_int k, x)) h)
       = map (\<lambda>(k, x). (word_of_int k, x)) (dropWhile (\<lambda>(g, _). f \<le> g) h)"
  by (induction h) (auto simp: at_or_after_of_int)

lemma hist_rollback_near:
  "\<forall>(g, _) \<in> set h. \<bar>g - f\<bar> < 2 ^ 31 \<Longrightarrow>
     dropWhile (\<lambda>(g, _). g \<noteq> word_of_int f) (map (\<lambda>(k, x). (word_of_int k :: i32, x)) h)
       = map (\<lambda>(k, x). (word_of_int k, x)) (hist_rollback f h)"
  by (induction h) (auto simp: word_of_int_eq_near hist_rollback_def)

lemma not_at_or_after_succ: "\<not> at_or_after (word_of_int f) (word_of_int (f + 1))"
  using at_or_after_of_int [of f "f + 1"] by simp

lemma refines_with_entries: "refines (with_entries s (map (\<lambda>(k, x). (word_of_int k, x)) h)) h"
  by (simp add: refines_def)

section \<open>Properties of the snapshot queue\<close>

text \<open>
  C9: Within half the range of the frame counter, \<open>push\<close> on the wrapped 32-bit frames does what
  pushing into the history of unbounded frame numbers does: it discards the frames at or after the
  pushed one, puts the new snapshot in front and evicts the oldest beyond the depth, with no panic,
  across the wrap-around of the counter.
\<close>

theorem push_refines_history:
  assumes "refines s h" and "\<forall>(g, _) \<in> set h. \<bar>g - f\<bar> < 2 ^ 31"
  shows "\<exists>s'. push (word_of_int f) x s = Inr s' \<and> refines s' (hist_push (depth s) f x h)
    \<and> depth s' = depth s"
proof -
  have "in_sync s" "entries s = map (\<lambda>(k, x). (word_of_int k, x)) h"
    using assms(1) by (simp_all add: refines_def)
  then have "push (word_of_int f) x s =
      Inr (with_entries s (map (\<lambda>(k, x). (word_of_int k, x)) (hist_push (depth s) f x h)))"
    using hist_push_near [OF assms(2)]
    by (cases "depth s") (simp_all add: push_eq hist_push_def take_map)
  then show ?thesis using refines_with_entries by auto
qed

lemma push_refines_history_witness:
  "\<exists>s'. push (word_of_int 2147483648) (4 :: nat)
      \<lparr>snapshots = [3, 2], frames = [2147483647, 2147483646], depth = 2\<rparr> = Inr s'
    \<and> refines s' [(2147483648, 4), (2147483647, 3)] \<and> depth s' = 2"
  using push_refines_history [of "\<lparr>snapshots = [3, 2], frames = [2147483647, 2147483646], depth = 2\<rparr>"
      "[(2147483647, 3), (2147483646, 2)]" 2147483648 4]
  by (simp add: refines_def in_sync_def entries_def hist_push_def)

text \<open>
  C10: \<open>rollback\<close> selects the target frame: it discards exactly the newer frames of the history and
  leaves the target's snapshot in front, where \<open>get\<close> returns it; it panics exactly when no snapshot
  of the frame is stored.
\<close>

theorem rollback_refines_history:
  assumes "refines s h" and "\<forall>(g, _) \<in> set h. \<bar>g - f\<bar> < 2 ^ 31"
  shows "case hist_rollback f h of
      [] \<Rightarrow> rollback (word_of_int f) s = Inl (NoSnapshotAt (word_of_int f))
    | (_, x) # _ \<Rightarrow> \<exists>s'. rollback (word_of_int f) s = Inr s'
        \<and> refines s' (hist_rollback f h) \<and> get_snapshot s' = Inr x \<and> depth s' = depth s"
proof -
  have "in_sync s" "entries s = map (\<lambda>(k, x). (word_of_int k, x)) h"
    using assms(1) by (simp_all add: refines_def)
  then have "rollback (word_of_int f) s =
      (let r = map (\<lambda>(k, x). (word_of_int k, x)) (hist_rollback f h)
       in if r = [] then Inl (NoSnapshotAt (word_of_int f)) else Inr (with_entries s r))"
    using hist_rollback_near [OF assms(2)] by (simp add: rollback_eq)
  then show ?thesis
    using refines_with_entries [of s "hist_rollback f h"]
    by (auto simp: get_snapshot_eq split: list.split)
qed

lemma rollback_refines_history_witness:
  "\<exists>s'. rollback (word_of_int 2147483647)
      \<lparr>snapshots = [4 :: nat, 3], frames = [2147483648, 2147483647], depth = 2\<rparr> = Inr s'
    \<and> refines s' [(2147483647, 3)] \<and> get_snapshot s' = Inr 3 \<and> depth s' = 2"
  using rollback_refines_history [of
      "\<lparr>snapshots = [4 :: nat, 3], frames = [2147483648, 2147483647], depth = 2\<rparr>"
      "[(2147483648, 4), (2147483647, 3)]" 2147483647]
  by (simp add: refines_def in_sync_def entries_def hist_rollback_def)

text \<open>
  C32: Saving one frame after the other, from any starting frame and across the wrap-around, the
  queue holds the last \<open>depth\<close> frames, newest first, and nothing else.
\<close>

theorem consecutive_saves:
  "rfold (\<lambda>i. push (word_of_int (a + int i)) (x i)) [0..<n] (set_depth d default_snapshots)
     = Inr (with_entries (set_depth d default_snapshots)
         (take d (map (\<lambda>i. (word_of_int (a + int i), x i)) (rev [0..<n]))))"
proof (induction n)
  case 0
  then show ?case by (simp add: with_entries_def set_depth_def default_snapshots_def)
next
  case (Suc n)
  let ?new = "\<lambda>i. (word_of_int (a + int i) :: i32, x i)"
  let ?es = "map ?new (rev [0..<n])"
  let ?s = "with_entries (set_depth d default_snapshots) (take d ?es)"
  have "dropWhile (\<lambda>(g, _). at_or_after g (word_of_int (a + int n))) (take d ?es) = take d ?es"
    using not_at_or_after_succ [of "a + int n - 1"]
    by (cases n; cases d) (auto simp: algebra_simps)
  then have "push (word_of_int (a + int n)) (x n) ?s
      = Inr (with_entries ?s (take d (?new n # take d ?es)))"
    by (simp add: push_eq)
  moreover have "take d (?new n # take d ?es) = take d (map ?new (rev [0..<Suc n]))"
    by (cases d) (simp_all add: min_def)
  ultimately show ?case
    using Suc.IH by (simp add: rfold_append with_entries_def)
qed

text \<open>
  C24: A saved snapshot can be rolled back to after any run of further saves: with a prediction
  window of \<open>d\<close> frames it survives every sequence of \<open>save\<close> chains for newer frames that is
  shorter than \<open>d\<close> minus its distance from the front, as long as nothing after it is confirmed.
\<close>

theorem snapshot_survives_saves:
  assumes "rfold (\<lambda>(c, f, x). save_chain (Some d) (Some c) f x) saves s = Inr s'"
    and "queue_ok s" and "peek s g = Some y" and "newer_than s g + length saves < d"
    and "\<forall>(c, f, x) \<in> set saves. 0 <=s f \<and> g <s f \<and> \<not> g <s c"
  shows "rbind (rollback g s') get_snapshot = Inr y"
  using saves_keep_chain [OF _ assms(2-5)] assms(1) by (simp add: run_saves_def gs.rollback_get)

lemma snapshot_survives_saves_witness:
  "rbind (rollback 3 \<lparr>snapshots = [50, 40, 30 :: nat], frames = [5, 4, 3], depth = 3\<rparr>) get_snapshot
     = Inr 30"
proof -
  let ?s = "\<lparr>snapshots = [30 :: nat], frames = [3], depth = 60\<rparr>"
  have "rfold (\<lambda>(c, f, x). save_chain (Some 3) (Some c) f x) [(2, 4, 40), (3, 5, 50)] ?s
      = Inr \<lparr>snapshots = [50, 40, 30 :: nat], frames = [5, 4, 3], depth = 3\<rparr>"
    by code_simp
  moreover have "queue_ok ?s" by code_simp
  moreover have "peek ?s 3 = Some 30" by code_simp
  moreover have "newer_than ?s 3 + length [(2, 4, 40), (3 :: i32, 5 :: i32, 50 :: nat)] < 3"
    by code_simp
  moreover have "\<forall>(c, f, x) \<in> set [(2, 4, 40), (3 :: i32, 5 :: i32, 50 :: nat)].
      0 <=s f \<and> 3 <s f \<and> \<not> 3 <s c"
    by code_simp
  ultimately show ?thesis by (rule snapshot_survives_saves)
qed

text \<open>
  C33: Confirming a frame of a session discards exactly the snapshots of earlier frames and keeps
  the confirmed frame itself and everything after it, without a panic.
\<close>

theorem confirm_discards_earlier:
  assumes "queue_ok s"
  shows "\<exists>s'. confirm c s = Inr s' \<and> queue_ok s' \<and> depth s' = depth s
    \<and> (\<forall>g. peek s' g = (if g <s c then None else peek s g))"
proof -
  obtain s' where s': "confirm c s = Inr s'"
    using gs.confirm_total [OF assms] by blast
  with gs.confirm_inv [OF assms s'] gs.confirm_peek [OF assms s'] show ?thesis by auto
qed

lemma confirm_discards_earlier_witness:
  "\<exists>s'. confirm 3 \<lparr>snapshots = [50, 40, 30, 20 :: nat], frames = [5, 4, 3, 2], depth = 8\<rparr> = Inr s'
     \<and> peek s' 2 = None \<and> peek s' 3 = Some 30"
proof -
  let ?s = "\<lparr>snapshots = [50, 40, 30, 20 :: nat], frames = [5, 4, 3, 2], depth = 8\<rparr>"
  have "queue_ok ?s" by code_simp
  moreover have "peek ?s 3 = Some 30" by code_simp
  ultimately show ?thesis
    using confirm_discards_earlier [of ?s 3] by (auto simp: word_sless_alt)
qed

lemma sint_minus_antipode: "sint (2 ^ 31 :: i32) = - 2147483648"
  by simp

text \<open>
  The comparison of \<open>push\<close> is serial-number arithmetic: a stored frame is at or after the
  pushed one when their wrapping difference is not negative, and at the exact antipode, where the
  difference is the least 32-bit value, when the stored frame is the smaller one.
\<close>

lemma at_or_after_serial:
  "at_or_after c f \<longleftrightarrow> (if c - f = 2 ^ 31 then c <s f else 0 <=s c - f)"
proof -
  let ?D = "sint c - sint f"
  have w: "c - f = word_of_int ?D" by simp
  have bd: "\<bar>?D\<bar> < 2 ^ 32"
    using sint_i32_bounds [of c] sint_i32_bounds [of f] by simp
  obtain k where k: "sint (c - f) = ?D + 2 ^ 32 * k"
    unfolding w by (rule sint_of_int_cases)
  have anti: "c - f = 2 ^ 31 \<longleftrightarrow> sint (c - f) = - 2147483648"
    by (metis (no_types, lifting) signed_word_eqI sint_minus_antipode)
  consider "k = 0" | "k = 1" | "k = - 1"
    using k bd sint_i32_bounds [of "c - f"] by fastforce
  then show ?thesis
    using k bd sint_i32_bounds [of "c - f"] unfolding anti at_or_after_sint
    by cases (auto simp: word_sle_eq word_sless_alt)
qed

text \<open>
  C34: In a session, pushing a frame keeps the queue sorted, never panics and never leaves more than
  \<open>depth\<close> snapshots; the pushed snapshot is stored, every newer frame is gone, and an older frame
  stays as long as fewer than \<open>depth - 1\<close> stored frames are newer than it.
\<close>

theorem push_in_session:
  assumes "queue_ok s" and "0 <=s f"
  shows "\<exists>s'. push f x s = Inr s' \<and> queue_ok s' \<and> depth s' = depth s
    \<and> length (snapshots s') \<le> depth s
    \<and> (\<forall>g. f <s g \<longrightarrow> peek s' g = None)
    \<and> (0 < depth s \<longrightarrow> peek s' f = Some x)
    \<and> (\<forall>g. g <s f \<and> Suc (newer_than s g) < depth s \<longrightarrow> peek s' g = peek s g)"
proof -
  obtain s' where s': "push f x s = Inr s'"
    using gs.push_total [OF assms] by blast
  then have "length (snapshots s') \<le> depth s"
    by (auto simp: push_sorted [OF assms] with_entries_def)
  with s' show ?thesis
    using push_queue_ok [OF assms s'] peek_push [OF assms s'] by auto
qed

lemma push_in_session_witness:
  "\<exists>s'. push 5 99 \<lparr>snapshots = [70, 60, 50 :: nat], frames = [7, 6, 5], depth = 8\<rparr> = Inr s'
     \<and> queue_ok s' \<and> peek s' 7 = None \<and> peek s' 5 = Some 99"
proof -
  have "queue_ok \<lparr>snapshots = [70, 60, 50 :: nat], frames = [7, 6, 5], depth = 8\<rparr>"
    by code_simp
  from push_in_session [OF this, of 5 99] show ?thesis
    by (auto simp: word_sle_eq word_sless_alt)
qed

text \<open>
  C40: Confirmation does not follow the counter past its wrap-around: when the oldest stored frame
  lies before the confirmed one in the order \<open>push\<close> uses, but on the other side of the wrap, nothing
  is discarded.
\<close>

theorem confirm_keeps_across_wrap:
  assumes "in_sync s" and "frames s \<noteq> []" and "2 ^ 31 < sint (last (frames s)) - sint c"
  shows "\<not> at_or_after (last (frames s)) c \<and> confirm c s = Inr s"
proof -
  have "\<not> last (frames s) <s c" using assms(3) by (simp add: word_sless_alt)
  then have "drop_confirmed c (snapshots s) (frames s) = Inr (snapshots s, frames s)"
    by (subst drop_confirmed.simps) simp
  then show ?thesis
    using assms by (simp add: at_or_after_sint confirm_def in_sync_def)
qed

lemma confirm_keeps_across_wrap_witness:
  "\<not> at_or_after 2147483647 2147483648
   \<and> confirm 2147483648 \<lparr>snapshots = [2, 1 :: nat], frames = [2147483648, 2147483647], depth = 8\<rparr>
     = Inr \<lparr>snapshots = [2, 1 :: nat], frames = [2147483648, 2147483647], depth = 8\<rparr>"
  using confirm_keeps_across_wrap [of
      "\<lparr>snapshots = [2, 1 :: nat], frames = [2147483648, 2147483647], depth = 8\<rparr>" 2147483648]
  by (simp add: in_sync_def)

end
