(* ===== verification/Rollback.thy ===== *)
theory Rollback
  imports Prelude
begin

text \<open>
  \<open>src/snapshot/rollback.rs\<close> and \<open>src/snapshot/rollback_entity_map.rs\<close>: the stable identity of a
  rollback entity, the resource that gives identities a stable order, and the map from old to new
  entities that a load produces.
\<close>

section \<open>Identities\<close>

text \<open>\<open>Entity\<close> is an opaque identifier of the ECS; only equality is used of it.\<close>

type_synonym entity = nat

datatype rollback_id = RollbackId (id_entity: entity)

instantiation rollback_id :: linorder
begin

definition less_eq_rollback_id :: "rollback_id \<Rightarrow> rollback_id \<Rightarrow> bool" where
  "less_eq_rollback_id a b \<longleftrightarrow> id_entity a \<le> id_entity b"

definition less_rollback_id :: "rollback_id \<Rightarrow> rollback_id \<Rightarrow> bool" where
  "less_rollback_id a b \<longleftrightarrow> id_entity a < id_entity b"

instance
  by intro_classes
    (auto simp: less_eq_rollback_id_def less_rollback_id_def rollback_id.expand)

end

section \<open>RollbackOrdered\<close>

record rollback_ordered =
  order_map :: "(rollback_id, u64) hashmap"
  sorted_ids :: "rollback_id list"

definition default_ordered :: rollback_ordered where
  "default_ordered = \<lparr>order_map = [], sorted_ids = []\<rparr>"

definition push_ordered :: "rollback_id \<Rightarrow> rollback_ordered \<Rightarrow> rollback_ordered" where
  "push_ordered r o1 =
     (let o2 = o1\<lparr>sorted_ids := sorted_ids o1 @ [r]\<rparr>
      in o2\<lparr>order_map := hm_insert r (of_nat (length (sorted_ids o2)) - 1) (order_map o2)\<rparr>)"

definition iter_sorted :: "rollback_ordered \<Rightarrow> rollback_id list" where
  "iter_sorted o1 = sorted_ids o1"

definition order :: "rollback_ordered \<Rightarrow> rollback_id \<Rightarrow> u64 res" where
  "order o1 r = expect (NotRegistered (id_entity r)) (hm_get (order_map o1) r)"

definition len_ordered :: "rollback_ordered \<Rightarrow> nat" where
  "len_ordered o1 = length (order_map o1)"

definition is_empty_ordered :: "rollback_ordered \<Rightarrow> bool" where
  "is_empty_ordered o1 \<longleftrightarrow> order_map o1 = []"

text \<open>
  The invariant: the map is the inverse of the list, which holds each identity once and is short
  enough for its indices to fit the 64-bit order.
\<close>

definition ordered_ok :: "rollback_ordered \<Rightarrow> bool" where
  "ordered_ok o1 \<longleftrightarrow> distinct (sorted_ids o1) \<and> length (sorted_ids o1) < 2 ^ 64
     \<and> order_map o1 = zip (sorted_ids o1) (map of_nat [0..<length (sorted_ids o1)])"

definition registered :: "rollback_ordered \<Rightarrow> rollback_id \<Rightarrow> bool" where
  "registered o1 r \<longleftrightarrow> r \<in> set (sorted_ids o1)"

lemma ordered_ok_default [simp]: "ordered_ok default_ordered"
  by (simp add: ordered_ok_def default_ordered_def)

lemma update_new_key: "k \<notin> fst ` set m \<Longrightarrow> AList.update k v m = m @ [(k, v)]"
  by (induction m) auto

lemma push_ordered_ok:
  assumes "ordered_ok o1" "\<not> registered o1 r" "Suc (length (sorted_ids o1)) < 2 ^ 64"
  shows "ordered_ok (push_ordered r o1)"
proof -
  have keys: "fst ` set (order_map o1) = set (sorted_ids o1)"
    using assms(1) by (simp add: ordered_ok_def flip: set_map)
  have "hm_insert r (of_nat (length (sorted_ids o1))) (order_map o1)
      = order_map o1 @ [(r, of_nat (length (sorted_ids o1)))]"
    using assms(2) unfolding hm_insert_def registered_def keys [symmetric]
    by (rule update_new_key)
  then show ?thesis
    using assms by (simp add: ordered_ok_def push_ordered_def Let_def registered_def)
qed

lemma order_nth:
  assumes "ordered_ok o1" "i < length (sorted_ids o1)"
  shows "order o1 (sorted_ids o1 ! i) = Inr (of_nat i)"
proof -
  have "(sorted_ids o1 ! i, of_nat i) \<in> set (order_map o1)"
    using assms by (auto simp: ordered_ok_def set_zip intro!: exI [of _ i])
  moreover have "distinct (map fst (order_map o1))"
    using assms(1) by (simp add: ordered_ok_def)
  ultimately show ?thesis by (simp add: order_def hm_get_def)
qed

lemma registered_order: "ordered_ok o1 \<Longrightarrow> registered o1 r \<Longrightarrow> \<exists>i. order o1 r = Inr i"
  by (metis order_nth registered_def in_set_conv_nth)

lemma registered_push [simp]: "registered (push_ordered r o1) r' \<longleftrightarrow> r' = r \<or> registered o1 r'"
  by (auto simp: registered_def push_ordered_def Let_def)

lemma word_unat_of_nat_eq:
  "(of_nat m :: u64) = of_nat n \<Longrightarrow> m < 2 ^ 64 \<Longrightarrow> n < 2 ^ 64 \<Longrightarrow> m = n"
  by (drule arg_cong [where f = unat]) (simp add: unat_of_nat)



text \<open>
  Registering a new identity gives it the next index and leaves the index of every identity
  already registered as it was.
\<close>

theorem order_stable_under_push:
  assumes "ordered_ok o1" and "r \<notin> set (iter_sorted o1)" and "Suc (length (iter_sorted o1)) < 2 ^ 64"
  shows "ordered_ok (push_ordered r o1)
    \<and> order (push_ordered r o1) r = Inr (of_nat (length (iter_sorted o1)))
    \<and> (\<forall>r'. r' \<in> set (iter_sorted o1) \<longrightarrow> order (push_ordered r o1) r' = order o1 r')"
  using push_ordered_ok [of o1 r] assms
  by (auto simp: iter_sorted_def registered_def order_def push_ordered_def Let_def)

lemma order_stable_under_push_witness:
  "order (push_ordered (RollbackId 20) (push_ordered (RollbackId 10) default_ordered)) (RollbackId 10)
     = Inr 0"
proof -
  let ?o = "push_ordered (RollbackId 10) default_ordered"
  have "ordered_ok ?o" "RollbackId 20 \<notin> set (iter_sorted ?o)"
    "Suc (length (iter_sorted ?o)) < 2 ^ 64" "RollbackId 10 \<in> set (iter_sorted ?o)"
    "order ?o (RollbackId 10) = Inr 0"
    by (simp_all add: ordered_ok_def iter_sorted_def push_ordered_def default_ordered_def order_def
        hm_insert_def hm_get_def)
  with order_stable_under_push [of ?o "RollbackId 20"] show ?thesis by auto
qed

section \<open>RollbackEntityMap\<close>

datatype rollback_entity_map = RollbackEntityMap "(entity, entity) hashmap"

fun entity_map_of :: "rollback_entity_map \<Rightarrow> (entity, entity) hashmap" where
  "entity_map_of (RollbackEntityMap m) = m"

text \<open>The order in which the hash map iterates is the argument \<open>it\<close>.\<close>

definition iter_map :: "((entity \<times> entity) list \<Rightarrow> (entity \<times> entity) list) \<Rightarrow>
    rollback_entity_map \<Rightarrow> (entity \<times> entity) list" where
  "iter_map it m = it (entity_map_of m)"

definition get_map :: "rollback_entity_map \<Rightarrow> entity \<Rightarrow> entity option" where
  "get_map m e = hm_get (entity_map_of m) e"

definition len_map :: "rollback_entity_map \<Rightarrow> nat" where
  "len_map m = length (entity_map_of m)"

definition is_empty_map :: "rollback_entity_map \<Rightarrow> bool" where
  "is_empty_map m \<longleftrightarrow> entity_map_of m = []"

text \<open>\<open>EntityMapper for &RollbackEntityMap\<close>: an unmapped entity is left as it is.\<close>

definition get_mapped :: "rollback_entity_map \<Rightarrow> entity \<Rightarrow> entity" where
  "get_mapped m source = (case get_map m source of None \<Rightarrow> source | Some e \<Rightarrow> e)"

definition set_mapped :: "entity \<Rightarrow> entity \<Rightarrow> rollback_entity_map \<Rightarrow> rollback_entity_map" where
  "set_mapped source target m = m"

lemma set_iter_map:
  "any_order it \<Longrightarrow> hm_ok (entity_map_of m) \<Longrightarrow>
     (a, b) \<in> set (iter_map it m) \<longleftrightarrow> get_map m a = Some b"
  by (simp add: iter_map_def any_order_set get_map_def hm_get_iff)

end
