(* ===== verification/Ecs.thy ===== *)
theory Ecs
  imports Rollback
begin

text \<open>
  The entity store the plugins run on. The ECS (\<open>bevy_ecs\<close>) is not part of the repository: its
  state is an abstract type \<open>'w\<close> and its operations are the fields of the record \<open>ecs\<close>, an argument
  of every definition that reads or changes entities. What the crate relies on is the predicate
  \<open>ecs_laws\<close>, the documented behaviour of these operations. The queries the crate's systems make
  are translated here from their type signatures.
\<close>

section \<open>Components\<close>

text \<open>
  The component types the crate names, and the user's component types numbered by \<open>UserKey\<close>;
  \<open>FlagKey\<close> is \<open>ChecksumFlag<T>\<close> for \<open>T\<close> the entity set, a component type or a resource type.
\<close>

datatype checksum_flag = EntityFlag | CompFlag nat | ResFlag nat

datatype ckey =
    RollbackKey | RollbackIdKey | ChildOfKey | DespawnedKey | PartKey
  | FlagKey checksum_flag | UserKey nat

datatype 'v cval =
    Marker | IdVal rollback_id | ParentVal entity | FrameVal i32 | PartVal u128 | UserVal 'v

section \<open>The operations of the store and their laws\<close>

record ('w, 'v) ecs =
  ents :: "'w \<Rightarrow> entity list"                                     \<comment> \<open>iteration over all entities\<close>
  cget :: "'w \<Rightarrow> ckey \<Rightarrow> entity \<Rightarrow> 'v cval option"                 \<comment> \<open>\<open>get::<C>\<close>\<close>
  cset :: "ckey \<Rightarrow> entity \<Rightarrow> 'v cval \<Rightarrow> 'w \<Rightarrow> 'w"                   \<comment> \<open>write through \<open>Mut<C>\<close>\<close>
  cinsert :: "ckey \<Rightarrow> entity \<Rightarrow> 'v cval \<Rightarrow> 'w \<Rightarrow> 'w"                \<comment> \<open>\<open>insert(C)\<close>\<close>
  cinsert_rec :: "ckey \<Rightarrow> entity \<Rightarrow> 'v cval \<Rightarrow> 'w \<Rightarrow> 'w"            \<comment> \<open>\<open>insert_recursive::<Children>\<close>\<close>
  cremove :: "ckey \<Rightarrow> entity \<Rightarrow> 'w \<Rightarrow> 'w"                           \<comment> \<open>\<open>remove::<C>\<close>\<close>
  reserve :: "'w \<Rightarrow> nat \<Rightarrow> entity"                                 \<comment> \<open>the n-th id reserved by \<open>Commands::spawn\<close>\<close>
  spawn_at :: "entity \<Rightarrow> 'w \<Rightarrow> 'w"                                 \<comment> \<open>a reserved id comes to life\<close>
  despawn_ent :: "entity \<Rightarrow> 'w \<Rightarrow> 'w"                              \<comment> \<open>\<open>despawn\<close>, children included\<close>

text \<open>The entities below an entity in the parent-child hierarchy, itself included.\<close>

inductive below :: "('w, 'v) ecs \<Rightarrow> 'w \<Rightarrow> entity \<Rightarrow> entity \<Rightarrow> bool" for E w e where
  self: "below E w e e"
| child: "below E w e p \<Longrightarrow> cget E w ChildOfKey c = Some (ParentVal p) \<Longrightarrow> below E w e c"

text \<open>An entity has components only while it is alive, and iteration visits each live entity once.\<close>

definition live_law :: "('w, 'v) ecs \<Rightarrow> bool" where
  "live_law E \<longleftrightarrow> (\<forall>w. distinct (ents E w)) \<and>
     (\<forall>w k e. e \<notin> set (ents E w) \<longrightarrow> cget E w k e = None)"

text \<open>
  Writing through a mutable reference changes one component that is present; it moves no entity and
  leaves the allocator of entity ids alone.
\<close>

definition set_law :: "('w, 'v) ecs \<Rightarrow> bool" where
  "set_law E \<longleftrightarrow> (\<forall>w k e v. cget E w k e \<noteq> None \<longrightarrow>
     ents E (cset E k e v w) = ents E w \<and> reserve E (cset E k e v w) = reserve E w \<and>
     (\<forall>k' e'. cget E (cset E k e v w) k' e' = (if k' = k \<and> e' = e then Some v else cget E w k' e')))"

text \<open>
  Inserting \<open>ChildOf\<close> is only specified for a live parent other than the entity itself; every other
  insertion and every removal on a live entity changes the one component it names.
\<close>

definition insertable :: "('w, 'v) ecs \<Rightarrow> 'w \<Rightarrow> ckey \<Rightarrow> entity \<Rightarrow> 'v cval \<Rightarrow> bool" where
  "insertable E w k e v \<longleftrightarrow> e \<in> set (ents E w) \<and>
     (k = ChildOfKey \<longrightarrow> (\<exists>p. v = ParentVal p \<and> p \<in> set (ents E w) \<and> p \<noteq> e))"

definition insert_law :: "('w, 'v) ecs \<Rightarrow> bool" where
  "insert_law E \<longleftrightarrow> (\<forall>w k e v. insertable E w k e v \<longrightarrow>
     set (ents E (cinsert E k e v w)) = set (ents E w) \<and>
     (\<forall>k' e'. cget E (cinsert E k e v w) k' e' = (if k' = k \<and> e' = e then Some v else cget E w k' e')))"

definition insert_rec_law :: "('w, 'v) ecs \<Rightarrow> bool" where
  "insert_rec_law E \<longleftrightarrow> (\<forall>w k e v. e \<in> set (ents E w) \<and> k \<noteq> ChildOfKey \<longrightarrow>
     set (ents E (cinsert_rec E k e v w)) = set (ents E w) \<and>
     (\<forall>k' e'. cget E (cinsert_rec E k e v w) k' e' =
        (if k' = k \<and> below E w e e' then Some v else cget E w k' e')))"

definition remove_law :: "('w, 'v) ecs \<Rightarrow> bool" where
  "remove_law E \<longleftrightarrow> (\<forall>w k e. set (ents E (cremove E k e w)) = set (ents E w) \<and>
     (\<forall>k' e'. cget E (cremove E k e w) k' e' = (if k' = k \<and> e' = e then None else cget E w k' e')))"

text \<open>Reserved ids are fresh and distinct; a spawned entity starts with no component.\<close>

definition spawn_law :: "('w, 'v) ecs \<Rightarrow> bool" where
  "spawn_law E \<longleftrightarrow> (\<forall>w n. reserve E w n \<notin> set (ents E w)) \<and> (\<forall>w. inj (reserve E w)) \<and>
     (\<forall>w e. e \<notin> set (ents E w) \<longrightarrow>
        set (ents E (spawn_at E e w)) = insert e (set (ents E w)) \<and>
        (\<forall>k' e'. cget E (spawn_at E e w) k' e' = cget E w k' e'))"

text \<open>Despawning a live entity removes it and everything below it; a dead one is left alone.\<close>

definition despawn_law :: "('w, 'v) ecs \<Rightarrow> bool" where
  "despawn_law E \<longleftrightarrow> (\<forall>w e. e \<in> set (ents E w) \<longrightarrow>
       set (ents E (despawn_ent E e w)) = set (ents E w) - {e'. below E w e e'} \<and>
       (\<forall>k' e'. cget E (despawn_ent E e w) k' e' = (if below E w e e' then None else cget E w k' e'))) \<and>
     (\<forall>w e. e \<notin> set (ents E w) \<longrightarrow> set (ents E (despawn_ent E e w)) = set (ents E w) \<and>
       cget E (despawn_ent E e w) = cget E w)"

definition ecs_laws :: "('w, 'v) ecs \<Rightarrow> bool" where
  "ecs_laws E \<longleftrightarrow> live_law E \<and> set_law E \<and> insert_law E \<and> insert_rec_law E \<and> remove_law E
     \<and> spawn_law E \<and> despawn_law E"

lemma ecs_distinct [simp]: "ecs_laws E \<Longrightarrow> distinct (ents E w)"
  by (simp add: ecs_laws_def live_law_def)

lemma ecs_dead: "ecs_laws E \<Longrightarrow> e \<notin> set (ents E w) \<Longrightarrow> cget E w k e = None"
  by (simp add: ecs_laws_def live_law_def)

lemma ecs_live: "ecs_laws E \<Longrightarrow> cget E w k e = Some v \<Longrightarrow> e \<in> set (ents E w)"
  using ecs_dead by fastforce

lemma ecs_cset:
  assumes "ecs_laws E" "cget E w k e = Some x"
  shows "ents E (cset E k e v w) = ents E w"
    "cget E (cset E k e v w) k' e' = (if k' = k \<and> e' = e then Some v else cget E w k' e')"
    "reserve E (cset E k e v w) = reserve E w"
  using assms by (simp_all add: ecs_laws_def set_law_def)

lemma ecs_cinsert:
  assumes "ecs_laws E" "insertable E w k e v"
  shows "set (ents E (cinsert E k e v w)) = set (ents E w)"
    "cget E (cinsert E k e v w) k' e' = (if k' = k \<and> e' = e then Some v else cget E w k' e')"
  using assms by (simp_all add: ecs_laws_def insert_law_def)

lemma ecs_cinsert_rec:
  assumes "ecs_laws E" "e \<in> set (ents E w)" "k \<noteq> ChildOfKey"
  shows "set (ents E (cinsert_rec E k e v w)) = set (ents E w)"
    "cget E (cinsert_rec E k e v w) k' e' =
       (if k' = k \<and> below E w e e' then Some v else cget E w k' e')"
  using assms by (simp_all add: ecs_laws_def insert_rec_law_def)

lemma ecs_cremove:
  assumes "ecs_laws E"
  shows "set (ents E (cremove E k e w)) = set (ents E w)"
    "cget E (cremove E k e w) k' e' = (if k' = k \<and> e' = e then None else cget E w k' e')"
  using assms by (simp_all add: ecs_laws_def remove_law_def)

lemma ecs_reserve:
  assumes "ecs_laws E"
  shows "reserve E w n \<notin> set (ents E w)" "reserve E w m = reserve E w n \<longleftrightarrow> m = n"
  using assms by (auto simp: ecs_laws_def spawn_law_def inj_eq)

lemma ecs_spawn_at:
  assumes "ecs_laws E" "e \<notin> set (ents E w)"
  shows "set (ents E (spawn_at E e w)) = insert e (set (ents E w))"
    "cget E (spawn_at E e w) k' e' = cget E w k' e'"
  using assms by (simp_all add: ecs_laws_def spawn_law_def)

lemma ecs_despawn:
  assumes "ecs_laws E" "e \<in> set (ents E w)"
  shows "set (ents E (despawn_ent E e w)) = set (ents E w) - {e'. below E w e e'}"
    "cget E (despawn_ent E e w) k' e' = (if below E w e e' then None else cget E w k' e')"
  using assms by (simp_all add: ecs_laws_def despawn_law_def)

lemma ecs_despawn_dead:
  assumes "ecs_laws E" "e \<notin> set (ents E w)"
  shows "set (ents E (despawn_ent E e w)) = set (ents E w)"
    "cget E (despawn_ent E e w) = cget E w"
  using assms by (simp_all add: ecs_laws_def despawn_law_def)

section \<open>Queries\<close>

text \<open>
  Typed access to the crate's components. An entity carrying \<open>RollbackDespawned\<close>, a disabling
  component, is skipped by every query that does not name that component.
\<close>

definition rid_of :: "('w, 'v) ecs \<Rightarrow> 'w \<Rightarrow> entity \<Rightarrow> rollback_id option" where
  "rid_of E w e = (case cget E w RollbackIdKey e of Some (IdVal r) \<Rightarrow> Some r | _ \<Rightarrow> None)"

definition parent_of :: "('w, 'v) ecs \<Rightarrow> 'w \<Rightarrow> entity \<Rightarrow> entity option" where
  "parent_of E w e = (case cget E w ChildOfKey e of Some (ParentVal p) \<Rightarrow> Some p | _ \<Rightarrow> None)"

definition despawned_of :: "('w, 'v) ecs \<Rightarrow> 'w \<Rightarrow> entity \<Rightarrow> i32 option" where
  "despawned_of E w e = (case cget E w DespawnedKey e of Some (FrameVal f) \<Rightarrow> Some f | _ \<Rightarrow> None)"

definition part_of :: "('w, 'v) ecs \<Rightarrow> 'w \<Rightarrow> entity \<Rightarrow> u128 option" where
  "part_of E w e = (case cget E w PartKey e of Some (PartVal c) \<Rightarrow> Some c | _ \<Rightarrow> None)"

definition comp_of :: "('w, 'v) ecs \<Rightarrow> 'w \<Rightarrow> nat \<Rightarrow> entity \<Rightarrow> 'v option" where
  "comp_of E w t e = (case cget E w (UserKey t) e of Some (UserVal v) \<Rightarrow> Some v | _ \<Rightarrow> None)"

definition enabled :: "('w, 'v) ecs \<Rightarrow> 'w \<Rightarrow> entity \<Rightarrow> bool" where
  "enabled E w e \<longleftrightarrow> cget E w DespawnedKey e = None"

text \<open>
  The rows of a query whose data is \<open>(&RollbackId, Entity, Q)\<close> for \<open>Q\<close> given by \<open>f\<close>: every enabled
  entity with a \<open>RollbackId\<close> on which \<open>f\<close> matches.
\<close>

definition rollback_rows ::
  "('w, 'v) ecs \<Rightarrow> 'w \<Rightarrow> (entity \<Rightarrow> 'q option) \<Rightarrow> (entity \<times> rollback_id \<times> 'q) list" where
  "rollback_rows E w f = List.map_filter
     (\<lambda>e. if enabled E w e
          then (case (rid_of E w e, f e) of (Some r, Some q) \<Rightarrow> Some (e, r, q) | _ \<Rightarrow> None)
          else None) (ents E w)"

lemma rid_live: "ecs_laws E \<Longrightarrow> rid_of E w e = Some r \<Longrightarrow> e \<in> set (ents E w)"
  by (auto simp: rid_of_def dest: ecs_live split: option.splits)

lemma set_rollback_rows:
  "ecs_laws E \<Longrightarrow> (e, r, q) \<in> set (rollback_rows E w f) \<longleftrightarrow>
     enabled E w e \<and> rid_of E w e = Some r \<and> f e = Some q"
  by (auto simp: rollback_rows_def in_set_map_filter rid_live split: option.splits if_splits
      intro!: bexI [of _ e])

lemma distinct_rollback_rows: "ecs_laws E \<Longrightarrow> distinct (map fst (rollback_rows E w f))"
  unfolding rollback_rows_def
  by (rule distinct_keys_map_filter) (auto split: option.splits if_splits)

text \<open>The queries of the snapshot systems.\<close>

definition q_entities :: "('w, 'v) ecs \<Rightarrow> 'w \<Rightarrow> (rollback_id \<times> entity) list" where
  "q_entities E w = map (\<lambda>(e, r, _). (r, e)) (rollback_rows E w Some)"

definition q_parents :: "('w, 'v) ecs \<Rightarrow> 'w \<Rightarrow> (rollback_id \<times> entity) list" where
  "q_parents E w = map (\<lambda>(e, r, p). (r, p)) (rollback_rows E w (parent_of E w))"

definition q_components :: "('w, 'v) ecs \<Rightarrow> 'w \<Rightarrow> nat \<Rightarrow> (rollback_id \<times> 'v) list" where
  "q_components E w t = map (\<lambda>(e, r, c). (r, c)) (rollback_rows E w (comp_of E w t))"

definition q_optional ::
  "('w, 'v) ecs \<Rightarrow> 'w \<Rightarrow> (entity \<Rightarrow> 'q option) \<Rightarrow> (entity \<times> rollback_id \<times> 'q option) list" where
  "q_optional E w f = rollback_rows E w (\<lambda>e. Some (f e))"

text \<open>
  An identity belongs to one entity. The entity that carries an identity and is enabled is where
  the state of that identity lives.
\<close>

definition unique_ids :: "('w, 'v) ecs \<Rightarrow> 'w \<Rightarrow> bool" where
  "unique_ids E w \<longleftrightarrow> (\<forall>e e' r. rid_of E w e = Some r \<and> rid_of E w e' = Some r \<longrightarrow> e = e')"

definition carries :: "('w, 'v) ecs \<Rightarrow> 'w \<Rightarrow> entity \<Rightarrow> rollback_id \<Rightarrow> bool" where
  "carries E w e r \<longleftrightarrow> enabled E w e \<and> rid_of E w e = Some r"

lemma carries_unique: "unique_ids E w \<Longrightarrow> carries E w e r \<Longrightarrow> carries E w e' r \<Longrightarrow> e = e'"
  by (auto simp: unique_ids_def carries_def)

lemma carries_live: "ecs_laws E \<Longrightarrow> carries E w e r \<Longrightarrow> e \<in> set (ents E w)"
  by (auto simp: carries_def rid_live)

lemma rows_by_id:
  assumes "ecs_laws E" "unique_ids E w"
  shows "map_of (map (\<lambda>(e, r, q). (r, g e q)) (rollback_rows E w f)) r = Some v \<longleftrightarrow>
      (\<exists>e q. carries E w e r \<and> f e = Some q \<and> v = g e q)"
    and "distinct (map fst (map (\<lambda>(e, r, q). (r, g e q)) (rollback_rows E w f)))"
proof -
  let ?rows = "rollback_rows E w f"
  have inj: "inj_on (\<lambda>(e, r, q). r) (set ?rows)"
    using assms by (fastforce simp: inj_on_def set_rollback_rows unique_ids_def)
  have "distinct ?rows"
    using distinct_rollback_rows [OF assms(1), of w f] by (simp add: distinct_map)
  with inj have "distinct (map (\<lambda>(e, r, q). r) ?rows)"
    by (simp add: distinct_map)
  then show d: "distinct (map fst (map (\<lambda>(e, r, q). (r, g e q)) ?rows))"
    by (simp add: o_def case_prod_unfold)
  show "map_of (map (\<lambda>(e, r, q). (r, g e q)) ?rows) r = Some v \<longleftrightarrow>
      (\<exists>e q. carries E w e r \<and> f e = Some q \<and> v = g e q)"
    unfolding map_of_eq_Some_iff [OF d]
  proof -
    have "(r, v) \<in> set (map (\<lambda>(e, r, q). (r, g e q)) ?rows) \<longleftrightarrow>
        (\<exists>e q. (e, r, q) \<in> set ?rows \<and> v = g e q)"
      by force
    then show "(r, v) \<in> set (map (\<lambda>(e, r, q). (r, g e q)) ?rows) \<longleftrightarrow>
        (\<exists>e q. carries E w e r \<and> f e = Some q \<and> v = g e q)"
      using assms(1) by (auto simp: set_rollback_rows carries_def)
  qed
qed

end
