(* ===== verification/TableEcs.thy ===== *)
theory TableEcs
  imports Ecs
begin

text \<open>
  A store that satisfies the laws: a table of entities, each a list of components. It shows that the
  laws of \<open>Ecs\<close> can hold together, and the witnesses of the development run on it. Nothing in the
  model of the crate depends on it.
\<close>

record 'v table =
  table_rows :: "(entity \<times> (ckey \<times> 'v cval) list) list"
  next_id :: nat

definition t_ents :: "'v table \<Rightarrow> entity list" where
  "t_ents w = remdups (map fst (table_rows w))"

definition t_get :: "'v table \<Rightarrow> ckey \<Rightarrow> entity \<Rightarrow> 'v cval option" where
  "t_get w k e = (case map_of (table_rows w) e of None \<Rightarrow> None | Some cs \<Rightarrow> map_of cs k)"

definition t_insert :: "ckey \<Rightarrow> entity \<Rightarrow> 'v cval \<Rightarrow> 'v table \<Rightarrow> 'v table" where
  "t_insert k e v w = w\<lparr>table_rows := map (\<lambda>(e', cs). (e', if e' = e then AList.update k v cs else cs)) (table_rows w)\<rparr>"

definition t_remove :: "ckey \<Rightarrow> entity \<Rightarrow> 'v table \<Rightarrow> 'v table" where
  "t_remove k e w = w\<lparr>table_rows := map (\<lambda>(e', cs). (e', if e' = e then AList.delete k cs else cs)) (table_rows w)\<rparr>"

definition t_parent :: "'v table \<Rightarrow> entity \<Rightarrow> entity option" where
  "t_parent w e = (case t_get w ChildOfKey e of Some (ParentVal p) \<Rightarrow> Some p | _ \<Rightarrow> None)"

fun t_reaches :: "nat \<Rightarrow> 'v table \<Rightarrow> entity \<Rightarrow> entity \<Rightarrow> bool" where
  "t_reaches 0 w e c = (c = e)"
| "t_reaches (Suc n) w e c =
     (c = e \<or> (case t_parent w c of None \<Rightarrow> False | Some p \<Rightarrow> t_reaches n w e p))"

definition t_below :: "'v table \<Rightarrow> entity \<Rightarrow> entity \<Rightarrow> bool" where
  "t_below w e c = t_reaches (length (table_rows w)) w e c"

definition t_insert_rec :: "ckey \<Rightarrow> entity \<Rightarrow> 'v cval \<Rightarrow> 'v table \<Rightarrow> 'v table" where
  "t_insert_rec k e v w =
     w\<lparr>table_rows := map (\<lambda>(e', cs). (e', if t_below w e e' then AList.update k v cs else cs)) (table_rows w)\<rparr>"

definition t_base :: "'v table \<Rightarrow> nat" where
  "t_base w = max (next_id w) (foldr (\<lambda>(e, cs) m. max (Suc e) m) (table_rows w) 0)"

definition t_reserve :: "'v table \<Rightarrow> nat \<Rightarrow> entity" where
  "t_reserve w n = t_base w + n"

definition t_spawn_at :: "entity \<Rightarrow> 'v table \<Rightarrow> 'v table" where
  "t_spawn_at e w = \<lparr>table_rows = table_rows w @ [(e, [])], next_id = max (next_id w) (Suc e)\<rparr>"

definition t_despawn :: "entity \<Rightarrow> 'v table \<Rightarrow> 'v table" where
  "t_despawn e w =
     (if e \<in> set (t_ents w) then w\<lparr>table_rows := filter (\<lambda>(e', cs). \<not> t_below w e e') (table_rows w)\<rparr> else w)"

definition table_ecs :: "('v table, 'v) ecs" where
  "table_ecs = \<lparr>ents = t_ents, cget = t_get, cset = t_insert, cinsert = t_insert,
     cinsert_rec = t_insert_rec, cremove = t_remove, reserve = t_reserve,
     spawn_at = t_spawn_at, despawn_ent = t_despawn\<rparr>"

lemma table_ecs_simps [simp]:
  "ents table_ecs = t_ents" "cget table_ecs = t_get" "cset table_ecs = t_insert"
  "cinsert table_ecs = t_insert" "cinsert_rec table_ecs = t_insert_rec"
  "cremove table_ecs = t_remove" "reserve table_ecs = t_reserve"
  "spawn_at table_ecs = t_spawn_at" "despawn_ent table_ecs = t_despawn"
  by (simp_all add: table_ecs_def)

lemma map_of_map_rows:
  "map_of (map (\<lambda>(e, cs). (e, f e cs)) xs) e = map_option (f e) (map_of xs e)"
  by (induction xs) auto

lemma map_of_filter_rows:
  "map_of (filter (\<lambda>(e, cs). P e) xs) e = (if P e then map_of xs e else None)"
  by (induction xs) auto

text \<open>Following parents: the fuel of \<open>t_below\<close> is enough.\<close>

fun ancestor :: "'v table \<Rightarrow> nat \<Rightarrow> entity \<Rightarrow> entity option" where
  "ancestor w 0 c = Some c"
| "ancestor w (Suc n) c = (case t_parent w c of None \<Rightarrow> None | Some p \<Rightarrow> ancestor w n p)"

lemma t_reaches_ancestor: "t_reaches n w e c \<longleftrightarrow> (\<exists>m \<le> n. ancestor w m c = Some e)"
proof (induction n arbitrary: c)
  case (Suc n)
  have "(\<exists>m \<le> Suc n. ancestor w m c = Some e) \<longleftrightarrow>
      c = e \<or> (\<exists>m \<le> n. ancestor w (Suc m) c = Some e)"
    by (metis Suc_le_mono ancestor.simps(1) le0 not0_implies_Suc option.inject)
  then show ?case using Suc.IH by (auto split: option.splits)
qed auto

lemma ancestor_add:
  "ancestor w (m + n) c = (case ancestor w m c of None \<Rightarrow> None | Some d \<Rightarrow> ancestor w n d)"
  by (induction m arbitrary: c) (auto split: option.splits)

lemma ancestor_snoc:
  "ancestor w (Suc n) c = (case ancestor w n c of None \<Rightarrow> None | Some d \<Rightarrow> t_parent w d)"
  using ancestor_add [of w n 1 c] by (auto split: option.splits)

lemma t_parent_live: "t_parent w c = Some p \<Longrightarrow> c \<in> fst ` set (table_rows w)"
  by (auto simp: t_parent_def t_get_def split: option.splits cval.splits dest!: map_of_SomeD
      intro: rev_image_eqI)

lemma ancestor_short:
  assumes "ancestor w n c = Some e" "\<And>m. m < n \<Longrightarrow> ancestor w m c \<noteq> Some e"
  shows "n \<le> length (table_rows w)"
proof -
  have def: "\<exists>d. ancestor w i c = Some d" if "i \<le> n" for i
    using assms(1) ancestor_add [of w i "n - i" c] that by (cases "ancestor w i c") auto
  let ?a = "\<lambda>i. the (ancestor w i c)"
  have "inj_on ?a {..<n}"
  proof (rule linorder_inj_onI)
    fix i j assume ij: "i < j" "i \<in> {..<n}" "j \<in> {..<n}"
    show "?a i \<noteq> ?a j"
    proof
      assume "?a i = ?a j"
      then have eq: "ancestor w i c = ancestor w j c"
        using def [of i] def [of j] ij by auto
      have "ancestor w (i + (n - j)) c = ancestor w (j + (n - j)) c"
        unfolding ancestor_add eq ..
      then show False using assms ij by auto
    qed
  qed auto
  moreover have "?a ` {..<n} \<subseteq> fst ` set (table_rows w)"
  proof
    fix d assume "d \<in> ?a ` {..<n}"
    then obtain i where i: "i < n" "d = ?a i" by auto
    then obtain p where "t_parent w d = Some p"
      using def [of i] def [of "Suc i"] ancestor_snoc [of w i c] by (auto split: option.splits)
    then show "d \<in> fst ` set (table_rows w)" by (rule t_parent_live)
  qed
  ultimately have "card {..<n} \<le> card (fst ` set (table_rows w))"
    by (intro card_inj_on_le) auto
  also have "\<dots> \<le> length (table_rows w)"
    by (metis card_length length_map set_map)
  finally show ?thesis by simp
qed

lemma below_ancestor: "below table_ecs w e c \<longleftrightarrow> (\<exists>n. ancestor w n c = Some e)"
proof
  assume "below table_ecs w e c" then show "\<exists>n. ancestor w n c = Some e"
  proof (induction rule: below.induct)
    case self show ?case by (rule exI [of _ 0]) simp
  next
    case (child p c)
    then obtain n where "ancestor w n p = Some e" by blast
    with child.hyps(2) show ?case
      by (intro exI [of _ "Suc n"]) (simp add: t_parent_def)
  qed
next
  have "below table_ecs w e c" if "ancestor w n c = Some e" for n
    using that
  proof (induction n arbitrary: c)
    case (Suc n)
    then obtain p where p: "t_parent w c = Some p" "ancestor w n p = Some e"
      by (auto split: option.splits)
    then have "cget table_ecs w ChildOfKey c = Some (ParentVal p)"
      by (auto simp: t_parent_def split: option.splits cval.splits)
    with Suc.IH [OF p(2)] show ?case by (rule below.child)
  qed (simp add: below.self)
  then show "\<exists>n. ancestor w n c = Some e \<Longrightarrow> below table_ecs w e c" by blast
qed

lemma t_below_iff [simp]: "t_below w e c \<longleftrightarrow> below table_ecs w e c"
proof
  show "t_below w e c \<Longrightarrow> below table_ecs w e c"
    by (auto simp: t_below_def t_reaches_ancestor below_ancestor)
  assume "below table_ecs w e c"
  then obtain k where k: "ancestor w k c = Some e" by (auto simp: below_ancestor)
  let ?n = "LEAST n. ancestor w n c = Some e"
  have "ancestor w ?n c = Some e" using k by (rule LeastI)
  moreover have "?n \<le> length (table_rows w)"
    using calculation not_less_Least by (intro ancestor_short) blast+
  ultimately show "t_below w e c"
    by (auto simp: t_below_def t_reaches_ancestor)
qed

lemma t_base_gt: "(e, cs) \<in> set (table_rows w) \<Longrightarrow> e < t_base w"
proof -
  have "(e, cs) \<in> set xs \<Longrightarrow> e < foldr (\<lambda>(e, cs) m. max (Suc e) m) xs 0" for xs :: "(entity \<times> (ckey \<times> 'a cval) list) list"
    by (induction xs) auto
  then show "(e, cs) \<in> set (table_rows w) \<Longrightarrow> e < t_base w"
    by (fastforce simp: t_base_def)
qed

lemma map_of_live: "(\<exists>cs. map_of (table_rows w) e = Some cs) \<longleftrightarrow> e \<in> set (t_ents w)"
  by (simp add: t_ents_def flip: dom_map_of_conv_image_fst) auto

lemma t_get_dead: "e \<notin> set (t_ents w) \<Longrightarrow> t_get w k e = None"
  using map_of_live [of w e] by (cases "map_of (table_rows w) e") (auto simp: t_get_def)

lemma t_insert_ents [simp]: "t_ents (t_insert k e v w) = t_ents w"
  by (simp add: t_ents_def t_insert_def case_prod_unfold o_def)

lemma t_remove_ents [simp]: "t_ents (t_remove k e w) = t_ents w"
  by (simp add: t_ents_def t_remove_def case_prod_unfold o_def)

lemma t_insert_rec_ents [simp]: "t_ents (t_insert_rec k e v w) = t_ents w"
  by (simp add: t_ents_def t_insert_rec_def case_prod_unfold o_def)

lemma map_of_update: "map_of (AList.update k v cs) k' = (if k' = k then Some v else map_of cs k')"
  by (simp add: update_conv')

lemma map_of_delete: "map_of (AList.delete k cs) k' = (if k' = k then None else map_of cs k')"
  by (simp add: delete_conv')

lemma t_get_insert:
  "e \<in> set (t_ents w) \<Longrightarrow>
     t_get (t_insert k e v w) k' e' = (if k' = k \<and> e' = e then Some v else t_get w k' e')"
  by (auto simp: t_get_def t_insert_def map_of_map_rows map_of_update split: option.splits
      dest: map_of_live [THEN iffD2])

lemma t_get_insert_rec:
  assumes "e \<in> set (t_ents w)"
  shows "t_get (t_insert_rec k e v w) k' e' =
    (if k' = k \<and> below table_ecs w e e' then Some v else t_get w k' e')"
proof (cases "map_of (table_rows w) e'")
  case None
  have "\<not> below table_ecs w e e'"
  proof
    assume "below table_ecs w e e'"
    then have "e' \<in> set (t_ents w)"
      by cases (use assms t_get_dead [of e' w ChildOfKey] in auto)
    with None show False by (auto dest: map_of_live [THEN iffD2])
  qed
  then show ?thesis by (simp add: t_get_def t_insert_rec_def map_of_map_rows None)
qed (auto simp: t_get_def t_insert_rec_def map_of_map_rows map_of_update)

lemma t_get_remove:
  "t_get (t_remove k e w) k' e' = (if k' = k \<and> e' = e then None else t_get w k' e')"
  by (auto simp: t_get_def t_remove_def map_of_map_rows map_of_delete split: option.splits)

lemma t_spawn_laws:
  assumes "e \<notin> set (t_ents w)"
  shows "set (t_ents (t_spawn_at e w)) = insert e (set (t_ents w))"
    "t_get (t_spawn_at e w) k e' = t_get w k e'"
  using assms map_of_live [of w e]
  by (auto simp: t_ents_def t_spawn_at_def t_get_def map_add_def split: option.splits)

lemma t_despawn_laws:
  assumes "e \<in> set (t_ents w)"
  shows "set (t_ents (t_despawn e w)) = set (t_ents w) - {e'. below table_ecs w e e'}"
    "t_get (t_despawn e w) k e' = (if below table_ecs w e e' then None else t_get w k e')"
  using assms
  by (force simp: t_ents_def t_despawn_def)
    (use assms in \<open>simp add: t_despawn_def t_get_def map_of_filter_rows\<close>)

lemma t_reserve_fresh: "t_reserve w n \<notin> set (t_ents w)"
  by (auto simp: t_reserve_def t_ents_def dest: t_base_gt)

lemma t_reserve_inj: "inj (t_reserve w)"
  by (simp add: inj_def t_reserve_def)

lemma t_reserve_insert [simp]: "t_reserve (t_insert k e v w) = t_reserve w"
proof -
  have "foldr (\<lambda>(e, cs) m. max (Suc e) m) (map (\<lambda>(e', cs). (e', f e' cs)) xs) 0
      = foldr (\<lambda>(e, cs) m. max (Suc e) m) xs 0"
    for f :: "entity \<Rightarrow> (ckey \<times> 'a cval) list \<Rightarrow> (ckey \<times> 'a cval) list" and xs
    by (induction xs) auto
  then show ?thesis by (simp add: fun_eq_iff t_reserve_def t_base_def t_insert_def)
qed

lemma t_distinct: "distinct (t_ents w)"
  by (simp add: t_ents_def)

lemma t_despawn_dead: "e \<notin> set (t_ents w) \<Longrightarrow> t_despawn e w = w"
  by (simp add: t_despawn_def)

text \<open>The laws hold for the table.\<close>

lemma table_ecs_laws [simp]: "ecs_laws table_ecs"
  unfolding ecs_laws_def live_law_def set_law_def insert_law_def insert_rec_law_def remove_law_def
    spawn_law_def despawn_law_def
proof (intro conjI allI impI)
  fix w :: "'a table" and k e v
  assume "cget table_ecs w k e \<noteq> None"
  then have "e \<in> set (t_ents w)" by (metis t_get_dead table_ecs_simps(2))
  then show "cget table_ecs (cset table_ecs k e v w) k' e' =
      (if k' = k \<and> e' = e then Some v else cget table_ecs w k' e')" for k' e'
    by (simp add: t_get_insert)
qed (auto simp: t_get_dead t_get_insert t_get_insert_rec t_get_remove t_reserve_fresh t_spawn_laws
    t_despawn_laws insertable_def t_reserve_inj t_distinct t_despawn_dead)

end
