(* ===== verification/Commands.thy ===== *)
theory Commands
  imports TableEcs
begin

text \<open>
  Deferred commands. A system queues commands, which take effect at the next \<open>ApplyDeferred\<close>. Only
  the commands the crate issues are here, each in terms of the operations of the store; spawning
  takes the id that was reserved when the command was queued. \<open>on_rollback_added\<close> of
  \<open>src/snapshot/rollback.rs\<close> is the hook that runs when a \<open>Rollback\<close> component is added.
\<close>

datatype 'v command =
    Insert ckey entity "'v cval"
  | Remove ckey entity
  | Despawn entity
  | Spawn entity "(ckey \<times> 'v cval) list"

text \<open>
  The hook. An entity that already has a \<open>RollbackId\<close> is one that a load respawns; otherwise it gets
  a new identity, its own entity, which is registered for ordering. The insertion of the identity is
  itself a command, returned for the caller to queue.
\<close>

definition on_rollback_added ::
  "('w, 'v) ecs \<Rightarrow> entity \<Rightarrow> 'w \<Rightarrow> rollback_ordered \<Rightarrow> 'v command list \<times> rollback_ordered" where
  "on_rollback_added E e w ordered =
     (if rid_of E w e \<noteq> None then ([], ordered)
      else let r = RollbackId e
           in ([Insert RollbackIdKey e (IdVal r)], push_ordered r ordered))"

text \<open>
  Applying a command. A bundle is written component by component and the hook of \<open>Rollback\<close> runs
  after all of them; the command it queues is applied right after.
\<close>

definition write_bundle ::
  "('w, 'v) ecs \<Rightarrow> entity \<Rightarrow> (ckey \<times> 'v cval) list \<Rightarrow> 'w \<Rightarrow> 'w" where
  "write_bundle E e bundle w = foldl (\<lambda>w (k, v). cinsert E k e v w) w bundle"

fun apply_simple :: "('w, 'v) ecs \<Rightarrow> 'v command \<Rightarrow> 'w \<Rightarrow> 'w" where
  "apply_simple E (Insert k e v) w = cinsert E k e v w"
| "apply_simple E (Remove k e) w = cremove E k e w"
| "apply_simple E (Despawn e) w = despawn_ent E e w"
| "apply_simple E (Spawn e bundle) w = write_bundle E e bundle (spawn_at E e w)"

fun adds_rollback :: "('w, 'v) ecs \<Rightarrow> 'v command \<Rightarrow> 'w \<Rightarrow> bool" where
  "adds_rollback E (Insert k e v) w = (k = RollbackKey \<and> cget E w RollbackKey e = None)"
| "adds_rollback E (Spawn e bundle) w = (RollbackKey \<in> fst ` set bundle)"
| "adds_rollback E _ w = False"

fun target :: "'v command \<Rightarrow> entity" where
  "target (Insert k e v) = e"
| "target (Remove k e) = e"
| "target (Despawn e) = e"
| "target (Spawn e bundle) = e"

definition apply_command ::
  "('w, 'v) ecs \<Rightarrow> 'v command \<Rightarrow> 'w \<times> rollback_ordered \<Rightarrow> 'w \<times> rollback_ordered" where
  "apply_command E c s =
     (let (w, ordered) = s; w1 = apply_simple E c w
      in if adds_rollback E c w
         then let (cs, ordered1) = on_rollback_added E (target c) w1 ordered
              in (foldl (\<lambda>w c. apply_simple E c w) w1 cs, ordered1)
         else (w1, ordered))"

definition apply_commands ::
  "('w, 'v) ecs \<Rightarrow> 'v command list \<Rightarrow> 'w \<times> rollback_ordered \<Rightarrow> 'w \<times> rollback_ordered" where
  "apply_commands E cs s = foldl (\<lambda>s c. apply_command E c s) s cs"

lemma apply_commands_simps [simp]:
  "apply_commands E [] s = s"
  "apply_commands E (c # cs) s = apply_commands E cs (apply_command E c s)"
  "apply_commands E (cs @ ds) s = apply_commands E ds (apply_commands E cs s)"
  by (simp_all add: apply_commands_def)

lemma apply_command_simple:
  "\<not> adds_rollback E c w \<Longrightarrow> apply_command E c (w, o1) = (apply_simple E c w, o1)"
  by (simp add: apply_command_def)

text \<open>
  Commands that only insert and remove components, other than the \<open>Rollback\<close> marker, on live
  entities: what a list of them does to one component of one entity.
\<close>

fun touches :: "'v command \<Rightarrow> ckey \<times> entity" where
  "touches (Insert k e v) = (k, e)"
| "touches (Remove k e) = (k, e)"
| "touches (Despawn e) = (RollbackKey, e)"
| "touches (Spawn e bundle) = (RollbackKey, e)"

fun applicable :: "entity set \<Rightarrow> 'v command \<Rightarrow> bool" where
  "applicable A (Insert k e v) \<longleftrightarrow> k \<noteq> RollbackKey \<and> e \<in> A \<and>
     (k = ChildOfKey \<longrightarrow> (\<exists>p. v = ParentVal p \<and> p \<in> A \<and> p \<noteq> e))"
| "applicable A (Remove k e) \<longleftrightarrow> True"
| "applicable A (Despawn e) \<longleftrightarrow> False"
| "applicable A (Spawn e bundle) \<longleftrightarrow> False"

fun effect_on :: "ckey \<Rightarrow> entity \<Rightarrow> 'v cval option \<Rightarrow> 'v command \<Rightarrow> 'v cval option" where
  "effect_on k e x (Insert k' e' v) = (if k' = k \<and> e' = e then Some v else x)"
| "effect_on k e x (Remove k' e') = (if k' = k \<and> e' = e then None else x)"
| "effect_on k e x c = x"

definition effects_on :: "ckey \<Rightarrow> entity \<Rightarrow> 'v command list \<Rightarrow> 'v cval option \<Rightarrow> 'v cval option" where
  "effects_on k e cs x = foldl (effect_on k e) x cs"

lemma effects_on_simps [simp]:
  "effects_on k e [] x = x"
  "effects_on k e (c # cs) x = effects_on k e cs (effect_on k e x c)"
  "effects_on k e (cs @ ds) x = effects_on k e ds (effects_on k e cs x)"
  by (simp_all add: effects_on_def)

lemma effects_on_untouched:
  "(k, e) \<notin> touches ` set cs \<Longrightarrow> effects_on k e cs x = x"
proof (induction cs arbitrary: x)
  case (Cons c cs)
  then show ?case by (cases c) auto
qed simp

lemma apply_data_commands:
  assumes "ecs_laws E" "\<forall>c \<in> set cs. applicable (set (ents E w)) c"
  shows "\<exists>w'. apply_commands E cs (w, o1) = (w', o1) \<and> set (ents E w') = set (ents E w) \<and>
    (\<forall>k e. cget E w' k e = effects_on k e cs (cget E w k e))"
  using assms(2)
proof (induction cs arbitrary: w)
  case (Cons c cs)
  let ?w1 = "apply_simple E c w"
  have c: "applicable (set (ents E w)) c" using Cons.prems by simp
  then have s: "\<not> adds_rollback E c w" by (cases c) auto
  have e: "set (ents E ?w1) = set (ents E w) \<and> (\<forall>k e. cget E ?w1 k e = effect_on k e (cget E w k e) c)"
    using c assms(1) by (cases c) (auto simp: ecs_cinsert insertable_def ecs_cremove)
  then have "\<forall>c \<in> set cs. applicable (set (ents E ?w1)) c" using Cons.prems by simp
  from Cons.IH [OF this] e show ?case
    by (simp add: apply_command_simple [OF s])
qed simp

lemma respawn_effect:
  assumes "ecs_laws E" and "e \<notin> set (ents E w)"
  shows "\<exists>w'. apply_command E (Spawn e [(RollbackIdKey, IdVal r), (RollbackKey, Marker)]) (w, o1) = (w', o1)
    \<and> set (ents E w') = insert e (set (ents E w))
    \<and> (\<forall>k' e'. cget E w' k' e' =
        (if e' = e then (if k' = RollbackIdKey then Some (IdVal r)
                         else if k' = RollbackKey then Some Marker else None)
         else cget E w k' e'))"
proof -
  let ?w1 = "spawn_at E e w"
  let ?w2 = "cinsert E RollbackIdKey e (IdVal r) ?w1"
  let ?w3 = "cinsert E RollbackKey e Marker ?w2"
  note s = ecs_spawn_at [OF assms]
  have i: "insertable E ?w1 RollbackIdKey e (IdVal r)"
    by (simp add: insertable_def s)
  note l2 = ecs_cinsert [OF assms(1) i]
  have j: "insertable E ?w2 RollbackKey e Marker"
    by (simp add: insertable_def l2 s)
  note l3 = ecs_cinsert [OF assms(1) j]
  have "rid_of E ?w3 e = Some r"
    by (simp add: rid_of_def l3 l2)
  then have "apply_command E (Spawn e [(RollbackIdKey, IdVal r), (RollbackKey, Marker)]) (w, o1)
      = (?w3, o1)"
    by (simp add: apply_command_def on_rollback_added_def write_bundle_def)
  then show ?thesis
    using ecs_dead [OF assms] by (auto simp: l3 l2 s)
qed

text \<open>
  The respawn of a load keeps the identity: the entity comes alive with exactly the stored
  \<open>RollbackId\<close> and the \<open>Rollback\<close> marker, no other entity changes, and nothing is registered again.
\<close>

theorem respawn_keeps_identity:
  assumes "ecs_laws E" and "e \<notin> set (ents E w)"
  shows "\<exists>w'. apply_command E (Spawn e [(RollbackIdKey, IdVal r), (RollbackKey, Marker)]) (w, o1) = (w', o1)
    \<and> set (ents E w') = insert e (set (ents E w))
    \<and> (\<forall>k' e'. cget E w' k' e' =
        (if e' = e then (if k' = RollbackIdKey then Some (IdVal r)
                         else if k' = RollbackKey then Some Marker else None)
         else cget E w k' e'))"
  using assms by (rule respawn_effect)

definition two_entities :: "int table" where
  "two_entities = \<lparr>table_rows = [(2, [(RollbackKey, Marker), (RollbackIdKey, IdVal (RollbackId 0))]), (3, [])],
     next_id = 4\<rparr>"

lemma two_entities_simps [simp]:
  "t_ents two_entities = [2, 3]"
  "t_get two_entities RollbackIdKey 2 = Some (IdVal (RollbackId 0))"
  "t_get two_entities k 3 = None"
  by (simp_all add: t_ents_def t_get_def two_entities_def)

theorem respawn_keeps_identity_witness:
  "\<exists>w'. apply_command table_ecs (Spawn 5 [(RollbackIdKey, IdVal (RollbackId 4)), (RollbackKey, Marker)])
      (two_entities, default_ordered) = (w', default_ordered)
    \<and> set (t_ents w') = {2, 3, 5} \<and> rid_of table_ecs w' 5 = Some (RollbackId 4)
    \<and> rid_of table_ecs w' 2 = Some (RollbackId 0)"
  using respawn_keeps_identity [of table_ecs 5 two_entities "RollbackId 4" default_ordered]
  by (auto simp: rid_of_def)

text \<open>
  A newly marked entity becomes its own identity and takes the next place in the order; adding
  the marker to one that already has an identity registers nothing.
\<close>

theorem mark_assigns_identity:
  assumes "ecs_laws E" and "e \<in> set (ents E w)" and "cget E w RollbackKey e = None"
  shows "let (w', o2) = apply_command E (Insert RollbackKey e Marker) (w, o1)
    in cget E w' RollbackKey e = Some Marker
      \<and> (\<forall>k e'. e' \<noteq> e \<longrightarrow> cget E w' k e' = cget E w k e')
      \<and> (case rid_of E w e of
           Some r \<Rightarrow> rid_of E w' e = Some r \<and> o2 = o1
         | None \<Rightarrow> rid_of E w' e = Some (RollbackId e) \<and> o2 = push_ordered (RollbackId e) o1)"
proof -
  let ?w1 = "cinsert E RollbackKey e Marker w"
  have i: "insertable E w RollbackKey e Marker"
    using assms(2) by (simp add: insertable_def)
  note l1 = ecs_cinsert [OF assms(1) i]
  have r1: "rid_of E ?w1 e = rid_of E w e" by (simp add: rid_of_def l1)
  have j: "insertable E ?w1 RollbackIdKey e (IdVal (RollbackId e))"
    using assms(2) by (simp add: insertable_def l1)
  note l2 = ecs_cinsert [OF assms(1) j]
  show ?thesis
  proof (cases "rid_of E w e")
    case None
    then show ?thesis
      using assms(3)
      by (simp add: apply_command_def on_rollback_added_def r1 l1 l2 Let_def rid_of_def [of E _ e])
  next
    case (Some r)
    then show ?thesis
      using assms(3) by (simp add: apply_command_def on_rollback_added_def r1 l1 Let_def)
  qed
qed

theorem mark_assigns_identity_witness:
  "let (w', o2) = apply_command table_ecs (Insert RollbackKey 3 Marker) (two_entities, default_ordered)
   in rid_of table_ecs w' 3 = Some (RollbackId 3)
      \<and> o2 = push_ordered (RollbackId 3) default_ordered
      \<and> cget table_ecs w' RollbackIdKey 2 = Some (IdVal (RollbackId 0))"
  using mark_assigns_identity [of table_ecs 3 two_entities default_ordered]
  by (simp add: rid_of_def [of _ two_entities] split: prod.splits)

end
