(* ===== verification/EntitySnapshot.thy ===== *)
theory EntitySnapshot
  imports GgrsSnapshots Commands TableEcs
begin

text \<open>
  \<open>src/snapshot/entity.rs\<close>: saving which entity carries each identity, and reconciling the live
  entities with a snapshot on load. The two systems are functions of their system parameters: the
  storage, the frame, the rows of the query and the orders in which the hash maps iterate. What they
  queue on \<open>Commands\<close> is returned as a list.
\<close>

section \<open>The systems\<close>

text \<open>\<open>GgrsComponentSnapshot\<close> of \<open>src/snapshot/mod.rs\<close> and its operations.\<close>

type_synonym 's component_snapshot = "(rollback_id, 's) hashmap"

definition new_snapshot :: "(rollback_id \<times> 's) list \<Rightarrow> 's component_snapshot" where
  "new_snapshot components = hm_collect components"

definition insert_snapshot :: "rollback_id \<Rightarrow> 's \<Rightarrow> 's component_snapshot \<Rightarrow> 's component_snapshot" where
  "insert_snapshot entity snapshot m = hm_insert entity snapshot m"

definition get_component :: "'s component_snapshot \<Rightarrow> rollback_id \<Rightarrow> 's option" where
  "get_component m entity = hm_get m entity"

definition iter_snapshot ::
  "((rollback_id \<times> 's) list \<Rightarrow> (rollback_id \<times> 's) list) \<Rightarrow> 's component_snapshot \<Rightarrow> (rollback_id \<times> 's) list" where
  "iter_snapshot it m = it m"

definition save_entities ::
  "i32 \<Rightarrow> (rollback_id \<times> entity) list \<Rightarrow> entity component_snapshot ggrs_snapshots \<Rightarrow>
     entity component_snapshot ggrs_snapshots res" where
  "save_entities frame query snaps = push frame (new_snapshot query) snaps"

text \<open>
  \<open>rollback_mapping\<close>: for each identity, the entity that carries it now and the one that carried it
  when the snapshot was taken.
\<close>

type_synonym mapping = "(rollback_id, entity option \<times> entity option) hashmap"

definition note_old :: "mapping \<Rightarrow> rollback_id \<times> entity \<Rightarrow> mapping" where
  "note_old m = (\<lambda>(r, old). hm_insert r (None, Some old) m)"

definition note_current :: "mapping \<Rightarrow> rollback_id \<times> entity \<Rightarrow> mapping" where
  "note_current m = (\<lambda>(r, current).
     hm_insert r (Some current, (case hm_get m r of None \<Rightarrow> None | Some (_, old) \<Rightarrow> old)) m)"

definition rollback_mapping ::
  "(rollback_id \<times> entity) list \<Rightarrow> (rollback_id \<times> entity) list \<Rightarrow> mapping" where
  "rollback_mapping old_entities query =
     foldl note_current (foldl note_old [] old_entities) query"

text \<open>
  The loop over the mapping. \<open>n\<close> counts the ids reserved so far by \<open>commands.spawn\<close>, \<open>new n\<close> is the
  n-th reserved id.
\<close>

fun reconcile ::
  "(nat \<Rightarrow> entity) \<Rightarrow> nat \<Rightarrow> (rollback_id \<times> entity option \<times> entity option) list \<Rightarrow>
     (entity, entity) hashmap \<Rightarrow> 'v command list \<Rightarrow> ((entity, entity) hashmap \<times> 'v command list) res" where
  "reconcile new n [] entity_map commands = Inr (entity_map, commands)"
| "reconcile new n ((r, Some current, Some old) # ms) entity_map commands =
     reconcile new n ms (hm_insert current old entity_map) commands"
| "reconcile new n ((r, Some current, None) # ms) entity_map commands =
     reconcile new n ms entity_map (commands @ [Despawn current])"
| "reconcile new n ((r, None, Some old) # ms) entity_map commands =
     reconcile new (Suc n) ms (hm_insert old (new n) entity_map)
       (commands @ [Spawn (new n) [(RollbackIdKey, IdVal r), (RollbackKey, Marker)]])"
| "reconcile new n ((r, None, None) # ms) entity_map commands = Inl UnreachableKey"

text \<open>The iteration orders of the three hash maps of \<open>load\<close>.\<close>

record load_orders =
  snapshot_order :: "(rollback_id \<times> entity) list \<Rightarrow> (rollback_id \<times> entity) list"
  mapping_order :: "(rollback_id \<times> entity option \<times> entity option) list \<Rightarrow>
    (rollback_id \<times> entity option \<times> entity option) list"
  entity_map_order :: "(entity \<times> entity) list \<Rightarrow> (entity \<times> entity) list"

definition orders_ok :: "load_orders \<Rightarrow> bool" where
  "orders_ok it \<longleftrightarrow> any_order (snapshot_order it) \<and> any_order (mapping_order it)
     \<and> any_order (entity_map_order it)"

definition load_entities ::
  "load_orders \<Rightarrow> (nat \<Rightarrow> entity) \<Rightarrow> i32 \<Rightarrow> (rollback_id \<times> entity) list \<Rightarrow>
     entity component_snapshot ggrs_snapshots \<Rightarrow>
     (entity component_snapshot ggrs_snapshots \<times> rollback_entity_map \<times> 'v command list) res" where
  "load_entities it new frame query snaps =
     rbind (rollback frame snaps) (\<lambda>snaps1.
     rbind (get_snapshot snaps1) (\<lambda>snapshot.
     rbind (reconcile new 0
              (mapping_order it (rollback_mapping (iter_snapshot (snapshot_order it) snapshot) query))
              [] [])
       (\<lambda>(entity_map, commands).
         Inr (snaps1, RollbackEntityMap (hm_collect (entity_map_order it entity_map)), commands))))"

section \<open>The mapping\<close>

lemma hm_get_note_old_foldl:
  "hm_get (foldl note_old m xs) r =
     (case map_of (rev xs) r of None \<Rightarrow> hm_get m r | Some old \<Rightarrow> Some (None, Some old))"
  by (induction xs arbitrary: m) (auto simp: note_old_def map_add_def split: option.splits)

lemma hm_get_note_current_foldl:
  "hm_get (foldl note_current m xs) r =
     (case map_of (rev xs) r of
        None \<Rightarrow> hm_get m r
      | Some c \<Rightarrow> Some (Some c, (case hm_get m r of None \<Rightarrow> None | Some (_, old) \<Rightarrow> old)))"
  by (induction xs arbitrary: m)
    (auto simp: note_current_def map_add_def split: option.splits)

lemma hm_ok_rollback_mapping: "hm_ok (rollback_mapping olds query)"
proof -
  have "hm_ok (foldl note_old m olds)" if "hm_ok m" for m
    using that by (induction olds arbitrary: m) (auto simp: note_old_def)
  moreover have "hm_ok (foldl note_current m query)" if "hm_ok m" for m
    using that by (induction query arbitrary: m) (auto simp: note_current_def)
  ultimately show ?thesis by (simp add: rollback_mapping_def)
qed

text \<open>Each identity of the mapping has an old entity, a current one, or both.\<close>

lemma hm_get_rollback_mapping:
  assumes "distinct (map fst olds)" "distinct (map fst query)"
  shows "hm_get (rollback_mapping olds query) r =
    (case (map_of query r, map_of olds r) of
       (None, None) \<Rightarrow> None
     | (c, old) \<Rightarrow> Some (c, old))"
  using assms
  by (auto simp: rollback_mapping_def hm_get_note_current_foldl hm_get_note_old_foldl
      map_of_rev_distinct split: option.splits)

lemma mapping_in_order:
  assumes "any_order it" "distinct (map fst olds)" "distinct (map fst query)"
  shows "(r, c, old) \<in> set (it (rollback_mapping olds query)) \<longleftrightarrow>
      map_of query r = c \<and> map_of olds r = old \<and> (c \<noteq> None \<or> old \<noteq> None)"
  using assms hm_get_rollback_mapping [OF assms(2,3), of r]
    hm_get_iff [OF hm_ok_rollback_mapping, of olds query r "(c, old)"]
  by (auto simp: any_order_set split: option.splits)

section \<open>The reconciliation loop\<close>

text \<open>What the loop inserts into the entity map and what it queues, row by row.\<close>

type_synonym row = "rollback_id \<times> entity option \<times> entity option"

fun row_pairs :: "(nat \<Rightarrow> entity) \<Rightarrow> nat \<Rightarrow> row list \<Rightarrow> (entity \<times> entity) list" where
  "row_pairs new n [] = []"
| "row_pairs new n ((r, Some current, Some old) # ms) = (current, old) # row_pairs new n ms"
| "row_pairs new n ((r, None, Some old) # ms) = (old, new n) # row_pairs new (Suc n) ms"
| "row_pairs new n ((r, c, None) # ms) = row_pairs new n ms"

fun row_commands :: "(nat \<Rightarrow> entity) \<Rightarrow> nat \<Rightarrow> row list \<Rightarrow> 'v command list" where
  "row_commands new n [] = []"
| "row_commands new n ((r, Some current, None) # ms) = Despawn current # row_commands new n ms"
| "row_commands new n ((r, None, Some old) # ms) =
     Spawn (new n) [(RollbackIdKey, IdVal r), (RollbackKey, Marker)] # row_commands new (Suc n) ms"
| "row_commands new n ((r, c, old) # ms) = row_commands new n ms"

text \<open>The id each respawned identity gets.\<close>

fun row_spawns :: "(nat \<Rightarrow> entity) \<Rightarrow> nat \<Rightarrow> row list \<Rightarrow> (rollback_id \<times> entity) list" where
  "row_spawns new n [] = []"
| "row_spawns new n ((r, None, Some old) # ms) = (r, new n) # row_spawns new (Suc n) ms"
| "row_spawns new n ((r, c, old) # ms) = row_spawns new n ms"

lemma reconcile_eq:
  assumes "\<forall>(r, c, old) \<in> set ms. c \<noteq> None \<or> old \<noteq> None"
  shows "reconcile new n ms em cs =
    Inr (foldl (\<lambda>m (a, b). hm_insert a b m) em (row_pairs new n ms), cs @ row_commands new n ms)"
  using assms
  by (induction new n ms em cs rule: reconcile.induct) auto

lemma row_spawns_range: "(r, e) \<in> set (row_spawns new n ms) \<Longrightarrow> \<exists>i \<ge> n. e = new i"
  by (induction new n ms rule: row_spawns.induct) (auto dest: Suc_leD)

lemma row_spawns_ids:
  "r \<in> fst ` set (row_spawns new n ms) \<longleftrightarrow> (\<exists>old. (r, None, Some old) \<in> set ms)"
  by (induction new n ms rule: row_spawns.induct) auto

lemma distinct_row_spawns:
  assumes "inj new" "distinct (map fst ms)"
  shows "distinct (map fst (row_spawns new n ms))" "distinct (map snd (row_spawns new n ms))"
proof -
  show "distinct (map fst (row_spawns new n ms))"
    using assms(2)
  proof (induction new n ms rule: row_spawns.induct)
    case (2 new n r old ms)
    then show ?case
      using row_spawns_ids [of r new "Suc n" ms] by (force simp: image_iff)
  qed auto
  show "distinct (map snd (row_spawns new n ms))"
    using assms(1)
  proof (induction new n ms rule: row_spawns.induct)
    case (2 new n r old ms)
    then show ?case
      by (auto dest!: row_spawns_range simp: inj_eq)
  qed auto
qed

lemma row_pairs_iff:
  assumes "distinct (map fst ms)"
  shows "(a, b) \<in> set (row_pairs new n ms) \<longleftrightarrow>
     (\<exists>r. (r, Some a, Some b) \<in> set ms) \<or>
     (\<exists>r. (r, b) \<in> set (row_spawns new n ms) \<and> (r, None, Some a) \<in> set ms)"
  using assms
proof (induction new n ms rule: row_pairs.induct)
  case (3 new n r old ms)
  have "r \<notin> fst ` set ms" "r \<notin> fst ` set (row_spawns new (Suc n) ms)"
    using "3.prems" row_spawns_ids [of r new "Suc n" ms] by force+
  with 3 show ?case by (auto simp: image_iff)
qed auto

section \<open>What applying the queued commands does to the store\<close>

text \<open>
  The store after some of the commands: \<open>K\<close> holds the entities despawned so far, \<open>N\<close> the identity
  of each entity spawned so far.
\<close>

definition spawned_value :: "rollback_id \<Rightarrow> ckey \<Rightarrow> 'v cval option" where
  "spawned_value r k =
     (if k = RollbackIdKey then Some (IdVal r) else if k = RollbackKey then Some Marker else None)"

definition reconciled ::
  "('w, 'v) ecs \<Rightarrow> 'w \<Rightarrow> entity set \<Rightarrow> (entity \<rightharpoonup> rollback_id) \<Rightarrow> 'w \<Rightarrow> bool" where
  "reconciled E w K N w' \<longleftrightarrow>
     set (ents E w') = (set (ents E w) - K) \<union> dom N \<and> dom N \<inter> set (ents E w) = {} \<and>
     (\<forall>p e. p \<in> K \<and> below E w p e \<longrightarrow> e \<in> K) \<and>
     (\<forall>k e. cget E w' k e = (case N e of Some r \<Rightarrow> spawned_value r k
        | None \<Rightarrow> if e \<in> K then None else cget E w k e))"

lemma below_trans: "below E w b c \<Longrightarrow> below E w a b \<Longrightarrow> below E w a c"
  by (induction rule: below.induct) (auto intro: below.intros)

lemma reconciled_start: "reconciled E w {} Map.empty w"
  by (simp add: reconciled_def)

lemma below_live:
  "below E w c e \<Longrightarrow> ecs_laws E \<Longrightarrow> c \<in> set (ents E w) \<Longrightarrow> e \<in> set (ents E w)"
  by (induction rule: below.induct) (auto dest: ecs_live)

lemma reconciled_below:
  assumes "ecs_laws E" "reconciled E w K N w'" "c \<in> set (ents E w)" "c \<notin> K" "e \<notin> K" "N e = None"
  shows "below E w' c e \<longleftrightarrow> below E w c e"
proof
  assume "below E w' c e" then show "below E w c e"
  proof (induction rule: below.induct)
    case (child p e)
    then have "cget E w ChildOfKey e = Some (ParentVal p)"
      using assms(2) by (auto simp: reconciled_def spawned_value_def split: option.splits if_splits)
    with child show ?case by (auto intro: below.child)
  qed (rule below.self)
next
  assume "below E w c e" then show "below E w' c e"
    using assms(5,6)
  proof (induction rule: below.induct)
    case (child p e)
    have "p \<notin> K"
      using child.hyps(2) child.prems(1) assms(2)
      unfolding reconciled_def by (metis below.child below.self)
    moreover have "N p = None"
      using below_live [OF child.hyps(1) assms(1) assms(3)] assms(2) by (auto simp: reconciled_def)
    ultimately show ?case
      using child assms(2) by (auto simp: reconciled_def intro: below.child)
  qed (rule below.self)
qed

lemma reconciled_despawn:
  assumes "ecs_laws E" "reconciled E w K N w'" "c \<in> set (ents E w)"
  shows "reconciled E w (K \<union> {e. below E w c e}) N (despawn_ent E c w')"
proof -
  note r = assms(2) [unfolded reconciled_def]
  have Nc: "N c = None" using r assms(3) by auto
  have Ne: "below E w c e \<Longrightarrow> N e = None" for e
    using below_live [OF _ assms(1) assms(3)] r by auto
  show ?thesis
  proof (cases "c \<in> K")
    case True
    then have "{e. below E w c e} \<subseteq> K" using r by auto
    moreover have "c \<notin> set (ents E w')" using r True Nc by auto
    ultimately show ?thesis
      using assms(2) by (simp add: Un_absorb2 reconciled_def ecs_despawn_dead assms(1))
  next
    case False
    then have live: "c \<in> set (ents E w')" using r assms(3) by auto
    have fresh: "N e = None" if "below E w' c e" for e
      using that r Nc
      by cases (auto simp: spawned_value_def split: option.splits if_splits)
    have kept: "e \<notin> K" if "below E w' c e" for e
      using below_live [OF that assms(1) live] fresh [OF that] r by auto
    have b: "below E w' c e \<longleftrightarrow> below E w c e \<and> e \<notin> K" for e
      using reconciled_below [OF assms(1-3) False] fresh kept Ne by blast
    show ?thesis
      unfolding reconciled_def ecs_despawn [OF assms(1) live] b
      using r Ne by (auto split: option.splits intro: below_trans)
  qed
qed

lemma reconciled_spawn:
  assumes "ecs_laws E" "reconciled E w K N w'" "e \<notin> set (ents E w)" "N e = None"
  shows "\<exists>w''. apply_command E (Spawn e [(RollbackIdKey, IdVal r), (RollbackKey, Marker)]) (w', o1)
      = (w'', o1) \<and> reconciled E w K (N(e \<mapsto> r)) w''"
proof -
  note rec = assms(2) [unfolded reconciled_def]
  have "e \<notin> set (ents E w')" using rec assms(3,4) by auto
  from respawn_effect [OF assms(1) this, of r o1]
  obtain w'' where w'': "apply_command E (Spawn e [(RollbackIdKey, IdVal r), (RollbackKey, Marker)]) (w', o1)
      = (w'', o1)" "set (ents E w'') = insert e (set (ents E w'))"
    "\<And>k' e'. cget E w'' k' e' = (if e' = e then spawned_value r k' else cget E w' k' e')"
    unfolding spawned_value_def by auto
  then have "reconciled E w K (N(e \<mapsto> r)) w''"
    using rec assms(3) by (auto simp: reconciled_def)
  with w''(1) show ?thesis by blast
qed

definition despawned_below :: "('w, 'v) ecs \<Rightarrow> 'w \<Rightarrow> row list \<Rightarrow> entity set" where
  "despawned_below E w ms = {e. \<exists>r c. (r, Some c, None) \<in> set ms \<and> below E w c e}"

definition spawned_ids :: "(nat \<Rightarrow> entity) \<Rightarrow> nat \<Rightarrow> row list \<Rightarrow> entity \<rightharpoonup> rollback_id" where
  "spawned_ids new n ms = map_of (map (\<lambda>(r, e). (e, r)) (row_spawns new n ms))"

lemma reconciled_rows:
  fixes E :: "('w, 'v) ecs"
  assumes "ecs_laws E" "reconciled E w K N w'" "inj new" "\<forall>i. new i \<notin> set (ents E w)"
    and "\<forall>r c. (r, Some c, None) \<in> set ms \<longrightarrow> c \<in> set (ents E w)"
    and "\<forall>i \<ge> n. N (new i) = None"
  shows "\<exists>w''. apply_commands E (row_commands new n ms) (w', o1) = (w'', o1)
    \<and> reconciled E w (K \<union> despawned_below E w ms) (spawned_ids new n ms ++ N) w''"
  using assms(2,5,6)
proof (induction ms arbitrary: K N w' n)
  case Nil
  then show ?case by (simp add: despawned_below_def spawned_ids_def)
next
  case (Cons m ms)
  obtain r c old where m: "m = (r, c, old)" by (cases m)
  have live: "\<forall>r c. (r, Some c, None) \<in> set ms \<longrightarrow> c \<in> set (ents E w)"
    using Cons.prems(2) by auto
  consider (despawn) c' where "c = Some c'" "old = None"
    | (spawn) old' where "c = None" "old = Some old'"
    | (other) "row_commands new n (m # ms) = (row_commands new n ms :: 'v command list)"
        "despawned_below E w (m # ms) = despawned_below E w ms"
        "row_spawns new n (m # ms) = row_spawns new n ms"
    unfolding m by (cases c; cases old) (auto simp: despawned_below_def)
  then show ?case
  proof cases
    case despawn
    have "c' \<in> set (ents E w)" using Cons.prems(2) m despawn by simp
    from reconciled_despawn [OF assms(1) Cons.prems(1) this]
    have "reconciled E w (K \<union> {e. below E w c' e}) N (despawn_ent E c' w')" .
    from Cons.IH [OF this live Cons.prems(3)]
    have "\<exists>w''. apply_commands E (row_commands new n ms) (despawn_ent E c' w', o1) = (w'', o1)
      \<and> reconciled E w (K \<union> {e. below E w c' e} \<union> despawned_below E w ms) (spawned_ids new n ms ++ N) w''" .
    moreover have "K \<union> {e. below E w c' e} \<union> despawned_below E w ms = K \<union> despawned_below E w (m # ms)"
      by (auto simp: despawned_below_def m despawn)
    ultimately show ?thesis
      by (simp add: m despawn apply_command_simple spawned_ids_def)
  next
    case spawn
    have "N (new n) = None" using Cons.prems(3) by simp
    from reconciled_spawn [OF assms(1) Cons.prems(1) _ this, of r o1] assms(4)
    obtain w1 where w1: "apply_command E (Spawn (new n) [(RollbackIdKey, IdVal r), (RollbackKey, Marker)]) (w', o1)
        = (w1, o1)" "reconciled E w K (N(new n \<mapsto> r)) w1"
      by blast
    have free: "\<forall>i \<ge> Suc n. (N(new n \<mapsto> r)) (new i) = None"
      using Cons.prems(3) assms(3) by (auto simp: inj_eq)
    have "spawned_ids new (Suc n) ms (new n) = None"
      using assms(3) by (force simp: spawned_ids_def map_of_eq_None_iff inj_eq dest: row_spawns_range)
    then have ids: "spawned_ids new (Suc n) ms ++ N(new n \<mapsto> r) = spawned_ids new n (m # ms) ++ N"
      using \<open>N (new n) = None\<close>
      by (auto simp: m spawn spawned_ids_def map_add_def fun_eq_iff split: option.split)
    have gone: "despawned_below E w (m # ms) = despawned_below E w ms"
      by (auto simp: despawned_below_def m spawn)
    obtain w2 where w2: "apply_commands E (row_commands new (Suc n) ms) (w1, o1) = (w2, o1)"
      "reconciled E w (K \<union> despawned_below E w ms) (spawned_ids new (Suc n) ms ++ N(new n \<mapsto> r)) w2"
      using Cons.IH [OF w1(2) live free] by blast
    from w2(2) have "reconciled E w (K \<union> despawned_below E w (m # ms)) (spawned_ids new n (m # ms) ++ N) w2"
      unfolding ids gone .
    with w2(1) w1(1) show ?thesis
      by (auto simp: m spawn)
  next
    case other
    then show ?thesis using Cons.IH [OF Cons.prems(1) live Cons.prems(3)]
      by (simp add: spawned_ids_def)
  qed
qed

section \<open>Loading the entities\<close>

abbreviation load_rows ::
  "load_orders \<Rightarrow> entity component_snapshot \<Rightarrow> (rollback_id \<times> entity) list \<Rightarrow> row list" where
  "load_rows it snapshot query \<equiv>
     mapping_order it (rollback_mapping (snapshot_order it snapshot) query)"

lemma q_entities_ids:
  assumes "ecs_laws E" "unique_ids E w"
  shows "map_of (q_entities E w) r = Some e \<longleftrightarrow> carries E w e r"
    and "map_of (q_entities E w) r = None \<longleftrightarrow> (\<forall>e. \<not> carries E w e r)"
    and "distinct (map fst (q_entities E w))"
proof -
  have *: "q_entities E w = map (\<lambda>(e, r, q). (r, (\<lambda>e q. e) e q)) (rollback_rows E w Some)"
    by (simp add: q_entities_def)
  show some: "map_of (q_entities E w) r = Some e \<longleftrightarrow> carries E w e r" for e
    unfolding * rows_by_id(1) [OF assms] by auto
  show "map_of (q_entities E w) r = None \<longleftrightarrow> (\<forall>e. \<not> carries E w e r)"
    using some by (cases "map_of (q_entities E w) r") auto
  show "distinct (map fst (q_entities E w))"
    unfolding * by (rule rows_by_id(2) [OF assms])
qed

lemma load_rows_iff:
  assumes "orders_ok it" "ecs_laws E" "unique_ids E w" "hm_ok snapshot"
  shows "(r, Some e, old) \<in> set (load_rows it snapshot (q_entities E w)) \<longleftrightarrow>
      carries E w e r \<and> hm_get snapshot r = old"
    and "(r, None, old) \<in> set (load_rows it snapshot (q_entities E w)) \<longleftrightarrow>
      (\<forall>e. \<not> carries E w e r) \<and> hm_get snapshot r = old \<and> old \<noteq> None"
    and "distinct (map fst (load_rows it snapshot (q_entities E w)))"
proof -
  have o: "any_order (snapshot_order it)" "any_order (mapping_order it)"
    using assms(1) by (auto simp: orders_ok_def)
  have d: "distinct (map fst (snapshot_order it snapshot))"
    using o(1) assms(4) by (simp add: any_order_distinct_keys hm_ok_def)
  have m: "map_of (snapshot_order it snapshot) = hm_get snapshot"
    using map_of_perm [of snapshot "snapshot_order it snapshot"] o(1) assms(4)
    by (simp add: any_order_def hm_ok_def hm_get_def [abs_def])
  note q = q_entities_ids [OF assms(2,3)]
  show "(r, Some e, old) \<in> set (load_rows it snapshot (q_entities E w)) \<longleftrightarrow>
      carries E w e r \<and> hm_get snapshot r = old"
    by (auto simp: mapping_in_order [OF o(2) d q(3)] q(1) m)
  show "(r, None, old) \<in> set (load_rows it snapshot (q_entities E w)) \<longleftrightarrow>
      (\<forall>e. \<not> carries E w e r) \<and> hm_get snapshot r = old \<and> old \<noteq> None"
    by (auto simp: mapping_in_order [OF o(2) d q(3)] q(2) m)
  show "distinct (map fst (load_rows it snapshot (q_entities E w)))"
    using o(2) hm_ok_rollback_mapping [unfolded hm_ok_def] by (simp add: any_order_distinct_keys)
qed

lemma load_entities_eq:
  fixes E :: "('w, 'v) ecs"
  assumes "orders_ok it" "ecs_laws E" "unique_ids E w"
    and "queue_ok snaps" "peek snaps frame = Some snapshot" "hm_ok snapshot"
  defines "ms \<equiv> load_rows it snapshot (q_entities E w)"
  shows "\<exists>snaps1. rollback frame snaps = Inr snaps1 \<and> queue_ok snaps1 \<and>
    load_entities it new frame (q_entities E w) snaps =
      Inr (snaps1, RollbackEntityMap (hm_collect (entity_map_order it (hm_collect (row_pairs new 0 ms)))),
           row_commands new 0 ms :: 'v command list)"
proof -
  obtain snaps1 where s1: "rollback frame snaps = Inr snaps1" "get_snapshot snaps1 = Inr snapshot"
    "queue_ok snaps1"
    using gs.rollback_found [OF assms(4,5)] by blast
  have "\<forall>(r, c, old) \<in> set ms. c \<noteq> None \<or> old \<noteq> None"
    using load_rows_iff [OF assms(1-3,6)] unfolding ms_def by fastforce
  from reconcile_eq [OF this, of new 0 "[]" "[] :: 'v command list"] show ?thesis
    using s1 by (simp add: load_entities_def iter_snapshot_def ms_def hm_collect_def)
qed

text \<open>
  When a load can rebuild the entity set: no entity hidden by \<open>RollbackDespawned\<close> carries an identity
  of the snapshot, and none that the snapshot keeps lies below one that it does not.
\<close>

definition reconcilable :: "('w, 'v) ecs \<Rightarrow> 'w \<Rightarrow> entity component_snapshot \<Rightarrow> bool" where
  "reconcilable E w snapshot \<longleftrightarrow>
     (\<forall>e r. rid_of E w e = Some r \<and> \<not> enabled E w e \<longrightarrow> hm_get snapshot r = None) \<and>
     (\<forall>p q e r. carries E w p q \<and> hm_get snapshot q = None \<and> below E w p e \<and> carries E w e r \<longrightarrow>
        hm_get snapshot r = None)"

text \<open>
  The entity set after a load. The identities of the snapshot are exactly the ones carried; an
  entity that carried one of them keeps all its components; every other carrier is new, with only
  its identity.
\<close>

lemma rid_of_reconciled:
  "reconciled E w K N w' \<Longrightarrow>
     rid_of E w' e = (case N e of Some r \<Rightarrow> Some r | None \<Rightarrow> if e \<in> K then None else rid_of E w e)"
  by (auto simp: reconciled_def rid_of_def spawned_value_def split: option.splits)

lemma enabled_reconciled:
  "reconciled E w K N w' \<Longrightarrow> N e \<noteq> None \<or> e \<notin> K \<Longrightarrow>
     enabled E w' e \<longleftrightarrow> N e \<noteq> None \<or> enabled E w e"
  by (auto simp: reconciled_def enabled_def spawned_value_def split: option.splits)

lemma spawned_ids_iff:
  assumes "inj new" "distinct (map fst ms)"
  shows "spawned_ids new n ms e = Some r \<longleftrightarrow> (r, e) \<in> set (row_spawns new n ms)"
proof -
  have "distinct (map fst (map (\<lambda>(r, e). (e, r)) (row_spawns new n ms)))"
    using distinct_row_spawns(2) [OF assms] by (simp add: case_prod_unfold o_def)
  then show ?thesis by (force simp: spawned_ids_def)
qed

lemma reserve_inj: "ecs_laws E \<Longrightarrow> inj (reserve E w)"
  by (simp add: ecs_laws_def spawn_law_def)

lemma load_entities_carries:
  assumes "orders_ok it" "ecs_laws E" "unique_ids E w" "hm_ok snapshot" "reconcilable E w snapshot"
    and ms_def: "ms = load_rows it snapshot (q_entities E w)"
    and rec: "reconciled E w (despawned_below E w ms) (spawned_ids (reserve E w) 0 ms) w'"
  shows "carries E w' e r \<longleftrightarrow> hm_get snapshot r \<noteq> None \<and>
      (carries E w e r \<or> (\<forall>e'. \<not> carries E w e' r) \<and> spawned_ids (reserve E w) 0 ms e = Some r)"
    and "unique_ids E w'"
proof -
  let ?N = "spawned_ids (reserve E w) 0 ms" and ?K = "despawned_below E w ms"
  note rows = load_rows_iff [OF assms(1-4)]
  note N_iff = spawned_ids_iff [OF reserve_inj [OF assms(2)] rows(3)]
  have Nid: "(\<forall>e'. \<not> carries E w e' r) \<and> hm_get snapshot r \<noteq> None" if "?N e = Some r" for e r
    using that row_spawns_ids [of r "reserve E w" 0 ms]
    by (force simp: N_iff ms_def rows)
  have Nnew: "e \<notin> set (ents E w)" if "?N e = Some r" for e r
    using that rec by (auto simp: reconciled_def)
  have K: "e \<in> ?K \<longleftrightarrow> (\<exists>p q. carries E w p q \<and> hm_get snapshot q = None \<and> below E w p e)" for e
    by (auto simp: despawned_below_def ms_def rows)
  have kept: "e \<notin> ?K" if "carries E w e r" "hm_get snapshot r \<noteq> None" for e r
    using that assms(5) by (auto simp: K reconcilable_def)
  have gone: "e \<in> ?K" if "carries E w e r" "hm_get snapshot r = None" for e r
    using that by (auto simp: K intro: below.self)
  have rid: "rid_of E w' e = (case ?N e of Some r \<Rightarrow> Some r | None \<Rightarrow> if e \<in> ?K then None else rid_of E w e)" for e
    by (rule rid_of_reconciled [OF rec])
  show c: "carries E w' e r \<longleftrightarrow> hm_get snapshot r \<noteq> None \<and>
      (carries E w e r \<or> (\<forall>e'. \<not> carries E w e' r) \<and> ?N e = Some r)" for e r
  proof (cases "?N e")
    case None
    then show ?thesis
      using enabled_reconciled [OF rec, of e] rid [of e] kept [of e r] gone [of e r]
      by (auto simp: carries_def)
  next
    case (Some q)
    then have "\<not> carries E w e r"
      using Nnew carries_live [OF assms(2)] by blast
    then show ?thesis
      using Some enabled_reconciled [OF rec, of e] rid [of e] Nid [OF Some]
      by (auto simp: carries_def)
  qed
  have one: "e1 = e2" if "?N e1 = Some r" "?N e2 = Some r" for e1 e2 r
    using that eq_key_imp_eq_value [OF distinct_row_spawns(1) [OF reserve_inj [OF assms(2)] rows(3)]]
    by (simp add: N_iff ms_def)
  have none: False if "?N e1 = Some r" "rid_of E w e2 = Some r" for e1 e2 r
  proof (cases "enabled E w e2")
    case True
    then show False using Nid [OF that(1)] that(2) by (auto simp: carries_def)
  next
    case False
    then show False using Nid [OF that(1)] that(2) assms(5) by (auto simp: reconcilable_def)
  qed
  show "unique_ids E w'"
    unfolding unique_ids_def rid
    using one none assms(3) [unfolded unique_ids_def]
    by (auto split: option.splits if_splits dest: none)
qed

lemma load_entities_reconciled:
  fixes E :: "('w, 'v) ecs"
  assumes "orders_ok it" "ecs_laws E" "unique_ids E w" "hm_ok snapshot"
    and ms_def: "ms = load_rows it snapshot (q_entities E w)"
  shows "\<exists>w'. apply_commands E (row_commands (reserve E w) 0 ms) (w, o1) = (w', o1) \<and>
    reconciled E w (despawned_below E w ms) (spawned_ids (reserve E w) 0 ms) w'"
proof -
  have "\<forall>r c. (r, Some c, None) \<in> set ms \<longrightarrow> c \<in> set (ents E w)"
    using load_rows_iff(1) [OF assms(1-4)] carries_live [OF assms(2)] by (auto simp: ms_def)
  from reconciled_rows [OF assms(2) reconciled_start reserve_inj [OF assms(2)] _ this, of w 0 o1]
  show ?thesis by (auto simp: ecs_reserve [OF assms(2)])
qed

text \<open>The entity map after a load.\<close>

definition no_reuse :: "('w, 'v) ecs \<Rightarrow> 'w \<Rightarrow> entity component_snapshot \<Rightarrow> bool" where
  "no_reuse E w snapshot \<longleftrightarrow>
     (\<forall>r r' e. hm_get snapshot r = Some e \<and> hm_get snapshot r' = Some e \<longrightarrow> r = r') \<and>
     (\<forall>r r' e. hm_get snapshot r = Some e \<and> rid_of E w e = Some r' \<longrightarrow> r = r')"

lemma load_pairs_iff:
  assumes "orders_ok it" "ecs_laws E" "unique_ids E w" "hm_ok snapshot"
    and ms_def: "ms = load_rows it snapshot (q_entities E w)"
  shows "(a, b) \<in> set (row_pairs (reserve E w) 0 ms) \<longleftrightarrow>
    (\<exists>r. carries E w a r \<and> hm_get snapshot r = Some b) \<or>
    (\<exists>r. hm_get snapshot r = Some a \<and> (\<forall>e. \<not> carries E w e r) \<and>
         spawned_ids (reserve E w) 0 ms b = Some r)"
proof -
  note rows = load_rows_iff [OF assms(1-4)]
  have d: "distinct (map fst ms)" unfolding ms_def by (rule rows(3))
  show ?thesis
    unfolding row_pairs_iff [OF d] spawned_ids_iff [OF reserve_inj [OF assms(2)] d]
    by (auto simp: ms_def rows)
qed

lemma load_pairs_distinct:
  assumes "orders_ok it" "ecs_laws E" "unique_ids E w" "hm_ok snapshot" "no_reuse E w snapshot"
    and ms_def: "ms = load_rows it snapshot (q_entities E w)"
    and "(a, b) \<in> set (row_pairs (reserve E w) 0 ms)" "(a, b') \<in> set (row_pairs (reserve E w) 0 ms)"
  shows "b = b'"
proof -
  note rows = load_rows_iff [OF assms(1-4)]
  have d: "distinct (map fst ms)" unfolding ms_def by (rule rows(3))
  have one: "b = b'" if "spawned_ids (reserve E w) 0 ms b = Some r" "spawned_ids (reserve E w) 0 ms b' = Some r" for r
    using that eq_key_imp_eq_value [OF distinct_row_spawns(1) [OF reserve_inj [OF assms(2)] d]]
    by (simp add: spawned_ids_iff [OF reserve_inj [OF assms(2)] d])
  have live: "carries E w a r \<Longrightarrow> hm_get snapshot r' = Some a \<Longrightarrow> r' = r" for r r'
    using assms(5) by (auto simp: no_reuse_def carries_def)
  have inj: "hm_get snapshot r = Some a \<Longrightarrow> hm_get snapshot r' = Some a \<Longrightarrow> r = r'" for r r'
    using assms(5) by (auto simp: no_reuse_def)
  have uniq: "carries E w a r \<Longrightarrow> carries E w a r' \<Longrightarrow> r = r'" for r r'
    by (auto simp: carries_def)
  show ?thesis
    using assms(7,8) unfolding load_pairs_iff [OF assms(1-4) ms_def]
    by (elim disjE exE conjE) (metis uniq option.inject, metis live, metis live, metis inj one)
qed

text \<open>A list of pairs collected into a hash map, in any order and twice over, is read as a relation.\<close>

lemma get_recollected:
  assumes "any_order it" "\<And>b b'. (a, b) \<in> set ps \<Longrightarrow> (a, b') \<in> set ps \<Longrightarrow> b = b'"
  shows "hm_get (hm_collect (it (hm_collect ps))) a = Some b \<longleftrightarrow> (a, b) \<in> set ps"
proof -
  have "hm_get (hm_collect (it (hm_collect ps))) a = hm_get (hm_collect ps) a"
    using hm_get_collect_distinct [of "it (hm_collect ps)" a]
      any_order_distinct_keys [OF assms(1), of "hm_collect ps"]
      map_of_perm [of "hm_collect ps" "it (hm_collect ps)"] assms(1) hm_ok_collect [of ps]
    by (simp add: hm_ok_def any_order_def hm_get_def)
  also have "\<dots> = map_of (rev ps) a" by (rule hm_get_collect)
  finally show ?thesis
    using assms(2) by (auto dest!: map_of_SomeD)
      (metis assms(2) map_of_SomeD not_Some_eq map_of_eq_None_iff set_rev image_eqI fst_conv)
qed

text \<open>
  Everything the properties below need of a load: \<open>N\<close> gives the identity of each entity the load
  spawned.
\<close>

definition loaded_as ::
  "('w, 'v) ecs \<Rightarrow> 'w \<Rightarrow> entity component_snapshot \<Rightarrow> (entity \<rightharpoonup> rollback_id) \<Rightarrow> 'w \<Rightarrow> bool" where
  "loaded_as E w snapshot N w' \<longleftrightarrow> unique_ids E w' \<and>
     (\<forall>e r. carries E w' e r \<longleftrightarrow> hm_get snapshot r \<noteq> None \<and>
        (carries E w e r \<or> (\<forall>e'. \<not> carries E w e' r) \<and> N e = Some r)) \<and>
     (\<forall>r. (\<exists>e. N e = Some r) \<longleftrightarrow> (\<forall>e'. \<not> carries E w e' r) \<and> hm_get snapshot r \<noteq> None) \<and>
     (\<forall>e r k. N e = Some r \<longrightarrow> e \<notin> set (ents E w) \<and> cget E w' k e = spawned_value r k) \<and>
     (\<forall>e r k. carries E w e r \<and> hm_get snapshot r \<noteq> None \<longrightarrow> cget E w' k e = cget E w k e) \<and>
     (\<forall>e. N e = None \<longrightarrow> (\<forall>k. cget E w' k e = None) \<or> (\<forall>k. cget E w' k e = cget E w k e))"

definition maps_as ::
  "('w, 'v) ecs \<Rightarrow> 'w \<Rightarrow> entity component_snapshot \<Rightarrow> (entity \<rightharpoonup> rollback_id) \<Rightarrow> rollback_entity_map \<Rightarrow> bool" where
  "maps_as E w snapshot N em \<longleftrightarrow> (\<forall>a b. get_map em a = Some b \<longleftrightarrow>
     (\<exists>r. carries E w a r \<and> hm_get snapshot r = Some b) \<or>
     (\<exists>r. hm_get snapshot r = Some a \<and> (\<forall>e. \<not> carries E w e r) \<and> N b = Some r))"

lemma loaded_as:
  assumes "loaded_as E w snapshot N w'"
  shows loaded_unique: "unique_ids E w'"
    and loaded_carries: "carries E w' e r \<longleftrightarrow> hm_get snapshot r \<noteq> None \<and>
        (carries E w e r \<or> (\<forall>e'. \<not> carries E w e' r) \<and> N e = Some r)"
    and loaded_lost: "(\<exists>e. N e = Some r) \<longleftrightarrow> (\<forall>e'. \<not> carries E w e' r) \<and> hm_get snapshot r \<noteq> None"
    and loaded_new: "N e = Some r \<Longrightarrow> e \<notin> set (ents E w)"
    and loaded_new_value: "N e = Some r \<Longrightarrow> cget E w' k e = spawned_value r k"
    and loaded_kept: "carries E w e r \<Longrightarrow> hm_get snapshot r \<noteq> None \<Longrightarrow> cget E w' k e = cget E w k e"
    and loaded_others: "N e = None \<Longrightarrow> (\<forall>k. cget E w' k e = None) \<or> (\<forall>k. cget E w' k e = cget E w k e)"
  using assms unfolding loaded_as_def by blast+

lemma load_entities_effect:
  fixes E :: "('w, 'v) ecs"
  assumes "orders_ok it" "ecs_laws E" "unique_ids E w"
    and "queue_ok snaps" "peek snaps f = Some snapshot" "hm_ok snapshot" "reconcilable E w snapshot"
  obtains snaps1 em w' and cs :: "'v command list" and N where
    "rollback f snaps = Inr snaps1"
    "load_entities it (reserve E w) f (q_entities E w) snaps = Inr (snaps1, em, cs)"
    "apply_commands E cs (w, o1) = (w', o1)" "loaded_as E w snapshot N w'"
    "no_reuse E w snapshot \<longrightarrow> maps_as E w snapshot N em"
    "\<forall>e r. N e = Some r \<longrightarrow> e \<in> range (reserve E w)" "hm_ok (entity_map_of em)"
proof -
  let ?ms = "load_rows it snapshot (q_entities E w)"
  let ?N = "spawned_ids (reserve E w) 0 ?ms" and ?K = "despawned_below E w ?ms"
  note rows = load_rows_iff [OF assms(1-3,6)]
  from load_entities_eq [OF assms(1-6), of "reserve E w"]
  obtain snaps1 where load: "rollback f snaps = Inr snaps1" "queue_ok snaps1"
    "load_entities it (reserve E w) f (q_entities E w) snaps =
      Inr (snaps1, RollbackEntityMap (hm_collect (entity_map_order it (hm_collect (row_pairs (reserve E w) 0 ?ms)))),
           row_commands (reserve E w) 0 ?ms :: 'v command list)"
    by blast
  from load_entities_reconciled [OF assms(1-3,6) refl, of o1]
  obtain w' where w': "apply_commands E (row_commands (reserve E w) 0 ?ms) (w, o1) = (w', o1)"
    "reconciled E w ?K ?N w'" by blast
  note carr = load_entities_carries [OF assms(1-3,6,7) refl w'(2)]
  have N: "(\<exists>e. ?N e = Some r) \<longleftrightarrow> (\<forall>e'. \<not> carries E w e' r) \<and> hm_get snapshot r \<noteq> None" for r
    using row_spawns_ids [of r "reserve E w" 0 ?ms]
    by (force simp: spawned_ids_iff [OF reserve_inj [OF assms(2)] rows(3)] rows)
  have Nnew: "e \<notin> set (ents E w) \<and> cget E w' k e = spawned_value r k" if "?N e = Some r" for e r k
    using that w'(2) by (auto simp: reconciled_def)
  have kept: "cget E w' k e = cget E w k e" if "carries E w e r" "hm_get snapshot r \<noteq> None" for e r k
  proof -
    have "e \<notin> ?K" using that assms(7) by (auto simp: despawned_below_def rows reconcilable_def)
    moreover have "?N e = None"
      using Nnew [of e] carries_live [OF assms(2) that(1)] by (cases "?N e") auto
    ultimately show ?thesis using w'(2) by (simp add: reconciled_def)
  qed
  have map: "get_map (RollbackEntityMap (hm_collect (entity_map_order it
        (hm_collect (row_pairs (reserve E w) 0 ?ms))))) a = Some b \<longleftrightarrow>
       (\<exists>r. carries E w a r \<and> hm_get snapshot r = Some b) \<or>
       (\<exists>r. hm_get snapshot r = Some a \<and> (\<forall>e. \<not> carries E w e r) \<and> ?N b = Some r)"
    if "no_reuse E w snapshot" for a b
    using get_recollected [of "entity_map_order it" a "row_pairs (reserve E w) 0 ?ms" b]
      load_pairs_distinct [OF assms(1-3,6) that refl] load_pairs_iff [OF assms(1-3,6) refl]
      assms(1) by (simp add: get_map_def orders_ok_def)
  have others: "(\<forall>k. cget E w' k e = None) \<or> (\<forall>k. cget E w' k e = cget E w k e)" if "?N e = None" for e
    using that w'(2) by (simp add: reconciled_def)
  have "loaded_as E w snapshot ?N w'"
    unfolding loaded_as_def
    by (intro conjI allI impI) (fact carr(2), fact carr(1), fact N, (rule Nnew [THEN conjunct1]; assumption),
      (rule Nnew [THEN conjunct2]; assumption), (elim conjE, rule kept; assumption), (rule others; assumption))
  moreover have "no_reuse E w snapshot \<longrightarrow> maps_as E w snapshot ?N (RollbackEntityMap
      (hm_collect (entity_map_order it (hm_collect (row_pairs (reserve E w) 0 ?ms)))))"
    unfolding maps_as_def by (intro impI allI) (rule map)
  moreover have "\<forall>e r. ?N e = Some r \<longrightarrow> e \<in> range (reserve E w)"
    by (auto simp: spawned_ids_iff [OF reserve_inj [OF assms(2)] rows(3)] dest!: row_spawns_range)
  moreover have "hm_ok (entity_map_of (RollbackEntityMap
      (hm_collect (entity_map_order it (hm_collect (row_pairs (reserve E w) 0 ?ms))))))"
    by simp
  ultimately show ?thesis by (rule that [OF load(1,3) w'(1)])
qed

text \<open>Two entities, the second a respawned one; two snapshots of a world with two others.\<close>

definition demo_world :: "int table" where
  "demo_world = \<lparr>table_rows = [(2, [(RollbackIdKey, IdVal (RollbackId 2))]),
     (8, [(RollbackIdKey, IdVal (RollbackId 7))])], next_id = 10\<rparr>"

definition lost_snapshot :: "entity component_snapshot" where
  "lost_snapshot = [(RollbackId 2, 2), (RollbackId 9, 9)]"

definition stale_snapshot :: "entity component_snapshot" where
  "stale_snapshot = [(RollbackId 2, 2), (RollbackId 7, 7)]"

definition holding :: "'a \<Rightarrow> 'a ggrs_snapshots" where
  "holding s = \<lparr>snapshots = [s], frames = [1], depth = 8\<rparr>"

definition in_memory_order :: load_orders where
  "in_memory_order = \<lparr>snapshot_order = \<lambda>xs. xs, mapping_order = rev, entity_map_order = \<lambda>xs. xs\<rparr>"

lemma in_memory_order_ok [simp]: "orders_ok in_memory_order"
  by (simp add: orders_ok_def in_memory_order_def)

lemma holding_ok [simp]: "queue_ok (holding s)" "peek (holding s) 1 = Some s"
  by (simp_all add: holding_def queue_ok_def in_sync_def entries_def peek_def word_sle_eq)

lemma demo_get: "t_get demo_world k e =
    (if k = RollbackIdKey then (if e = 2 then Some (IdVal (RollbackId 2))
       else if e = 8 then Some (IdVal (RollbackId 7)) else None) else None)"
  by (simp add: t_get_def demo_world_def)

lemma demo_rid: "rid_of table_ecs demo_world e =
    (if e = 2 then Some (RollbackId 2) else if e = 8 then Some (RollbackId 7) else None)"
  by (simp add: rid_of_def demo_get)

lemma demo_enabled [simp]: "enabled table_ecs demo_world e"
  by (simp add: enabled_def demo_get)

lemma demo_carries: "carries table_ecs demo_world e r \<longleftrightarrow> e = 2 \<and> r = RollbackId 2 \<or> e = 8 \<and> r = RollbackId 7"
  by (auto simp: carries_def demo_rid)

lemma demo_unique [simp]: "unique_ids table_ecs demo_world"
  by (auto simp: unique_ids_def demo_rid)

lemma demo_below: "below table_ecs demo_world p e \<longleftrightarrow> e = p"
  by (auto simp: demo_get intro: below.self elim: below.cases)

lemma demo_reconcilable [simp]: "reconcilable table_ecs demo_world s"
  by (auto simp: reconcilable_def demo_below carries_def)

lemma lost_snapshot_ok [simp]: "hm_ok lost_snapshot" "no_reuse table_ecs demo_world lost_snapshot"
  by (auto simp: hm_ok_def lost_snapshot_def no_reuse_def hm_get_def demo_rid split: if_splits)

lemma stale_snapshot_ok [simp]: "hm_ok stale_snapshot" "no_reuse table_ecs demo_world stale_snapshot"
  by (auto simp: hm_ok_def stale_snapshot_def no_reuse_def hm_get_def demo_rid split: if_splits)

text \<open>
  C11: Loading a frame rebuilds the entity set of its snapshot: the load does not panic, afterwards
  exactly the identities of the snapshot are carried, each by one entity; an entity that already
  carried one keeps all its components, and every other carrier is a new entity that has its
  identity and the \<open>Rollback\<close> marker only. No identity is registered again.
\<close>

theorem load_rebuilds_entities:
  fixes E :: "('w, 'v) ecs"
  assumes "orders_ok it" and "ecs_laws E" and "unique_ids E w"
    and "queue_ok snaps" and "peek snaps f = Some snapshot" and "hm_ok snapshot"
    and "reconcilable E w snapshot"
  shows "\<exists>snaps1 em w' (cs :: 'v command list).
    load_entities it (reserve E w) f (q_entities E w) snaps = Inr (snaps1, em, cs) \<and>
    apply_commands E cs (w, o1) = (w', o1) \<and> unique_ids E w' \<and>
    (\<forall>r. (\<exists>e. carries E w' e r) \<longleftrightarrow> get_component snapshot r \<noteq> None) \<and>
    (\<forall>e r. carries E w e r \<and> get_component snapshot r \<noteq> None \<longrightarrow>
       carries E w' e r \<and> (\<forall>k. cget E w' k e = cget E w k e)) \<and>
    (\<forall>e r. carries E w' e r \<and> \<not> carries E w e r \<longrightarrow>
       e \<notin> set (ents E w) \<and>
       (\<forall>k. cget E w' k e = (if k = RollbackIdKey then Some (IdVal r)
          else if k = RollbackKey then Some Marker else None)))"
proof -
  obtain snaps1 em w' and cs :: "'v command list" and N where l:
    "rollback f snaps = Inr snaps1"
    "load_entities it (reserve E w) f (q_entities E w) snaps = Inr (snaps1, em, cs)"
    "apply_commands E cs (w, o1) = (w', o1)" "loaded_as E w snapshot N w'"
    "no_reuse E w snapshot \<longrightarrow> maps_as E w snapshot N em"
    "\<forall>e r. N e = Some r \<longrightarrow> e \<in> range (reserve E w)" "hm_ok (entity_map_of em)"
    by (rule load_entities_effect [OF assms])
  note c = loaded_carries [OF l(4)]
  have exact: "(\<exists>e. carries E w' e r) \<longleftrightarrow> get_component snapshot r \<noteq> None" for r
    using loaded_lost [OF l(4), of r] c [of _ r] by (auto simp: get_component_def)
  have kept: "carries E w' e r \<and> (\<forall>k. cget E w' k e = cget E w k e)"
    if "carries E w e r \<and> get_component snapshot r \<noteq> None" for e r
    using that c [of e r] loaded_kept [OF l(4), of e r] by (auto simp: get_component_def)
  have new: "e \<notin> set (ents E w) \<and> (\<forall>k. cget E w' k e = spawned_value r k)"
    if "carries E w' e r \<and> \<not> carries E w e r" for e r
    by (use that c [of e r] loaded_new [OF l(4), of e r] loaded_new_value [OF l(4), of e r] in \<open>auto simp del: not_None_eq\<close>)
  show ?thesis
    unfolding spawned_value_def [symmetric]
  proof (intro exI conjI)
    show "load_entities it (reserve E w) f (q_entities E w) snaps = Inr (snaps1, em, cs)" by (rule l(2))
    show "apply_commands E cs (w, o1) = (w', o1)" by (rule l(3))
    show "unique_ids E w'" by (rule loaded_unique [OF l(4)])
  qed (intro allI impI, rule exact, intro allI impI, rule kept, assumption,
      intro allI impI, rule new, assumption)
qed

theorem load_rebuilds_entities_witness:
  "\<exists>snaps1 em w' cs. load_entities in_memory_order (reserve table_ecs demo_world) 1
      (q_entities table_ecs demo_world) (holding lost_snapshot) = Inr (snaps1, em, cs)
    \<and> apply_commands table_ecs cs (demo_world, default_ordered) = (w', default_ordered)
    \<and> carries table_ecs w' 2 (RollbackId 2) \<and> (\<exists>e. carries table_ecs w' e (RollbackId 9))
    \<and> \<not> carries table_ecs w' 8 (RollbackId 7)"
proof -
  have s: "get_component lost_snapshot (RollbackId 7) = None" "get_component lost_snapshot (RollbackId 9) \<noteq> None"
    "get_component lost_snapshot (RollbackId 2) \<noteq> None" "carries table_ecs demo_world 2 (RollbackId 2)"
    by (auto simp: get_component_def lost_snapshot_def hm_get_def demo_carries)
  have "\<exists>snaps1 em w' cs. load_entities in_memory_order (reserve table_ecs demo_world) 1
      (q_entities table_ecs demo_world) (holding lost_snapshot) = Inr (snaps1, em, cs)
    \<and> apply_commands table_ecs cs (demo_world, default_ordered) = (w', default_ordered)
    \<and> (\<forall>r. (\<exists>e. carries table_ecs w' e r) \<longleftrightarrow> get_component lost_snapshot r \<noteq> None)
    \<and> (\<forall>e r. carries table_ecs demo_world e r \<and> get_component lost_snapshot r \<noteq> None \<longrightarrow>
        carries table_ecs w' e r)"
    using load_rebuilds_entities [of in_memory_order table_ecs demo_world "holding lost_snapshot" 1
      lost_snapshot default_ordered] by fastforce
  then show ?thesis using s by meson
qed



text \<open>
  C28: An entity respawned by an earlier load is mapped the wrong way round by a later load of the
  same frame: its present entity is mapped to the dead one of the snapshot, and a reference of the
  snapshot to the dead entity is left as it is although its identity is alive.
\<close>

theorem respawned_reference_stays_stale:
  fixes E :: "('w, 'v) ecs"
  assumes "orders_ok it" and "ecs_laws E" and "unique_ids E w"
    and "queue_ok snaps" and "peek snaps f = Some snapshot" and "hm_ok snapshot"
    and "reconcilable E w snapshot" and "no_reuse E w snapshot"
    and "get_component snapshot r = Some old" and "carries E w current r" and "current \<noteq> old"
  shows "\<exists>snaps1 em w' (cs :: 'v command list).
    load_entities it (reserve E w) f (q_entities E w) snaps = Inr (snaps1, em, cs) \<and>
    apply_commands E cs (w, o1) = (w', o1) \<and>
    carries E w' current r \<and> get_mapped em current = old \<and> get_mapped em old = old"
proof -
  obtain snaps1 em w' and cs :: "'v command list" and N where l:
    "rollback f snaps = Inr snaps1"
    "load_entities it (reserve E w) f (q_entities E w) snaps = Inr (snaps1, em, cs)"
    "apply_commands E cs (w, o1) = (w', o1)" "loaded_as E w snapshot N w'"
    "no_reuse E w snapshot \<longrightarrow> maps_as E w snapshot N em"
    "\<forall>e r. N e = Some r \<longrightarrow> e \<in> range (reserve E w)" "hm_ok (entity_map_of em)"
    by (rule load_entities_effect [OF assms(1-7)])
  note map = l(5) [unfolded maps_as_def, rule_format, OF assms(8)]
  have old: "hm_get snapshot r = Some old" using assms(9) by (simp add: get_component_def)
  have "carries E w' current r" using loaded_carries [OF l(4)] assms(10) old by simp
  moreover have "get_mapped em current = old"
    using map [of current old] assms(10) old by (auto simp: get_mapped_def)
  moreover have "get_map em old \<noteq> Some b" for b
    using old assms(3,8,10,11)
    by (auto simp: map no_reuse_def carries_def unique_ids_def) metis+
  then have "get_mapped em old = old"
    by (auto simp: get_mapped_def split: option.split)
  ultimately show ?thesis using l(2,3) by blast
qed

theorem respawned_reference_stays_stale_witness:
  "\<exists>snaps1 em w' cs. load_entities in_memory_order (reserve table_ecs demo_world) 1
      (q_entities table_ecs demo_world) (holding stale_snapshot) = Inr (snaps1, em, cs)
    \<and> apply_commands table_ecs cs (demo_world, default_ordered) = (w', default_ordered)
    \<and> carries table_ecs w' 8 (RollbackId 7) \<and> get_mapped em 8 = 7 \<and> get_mapped em 7 = 7"
proof -
  have "get_component stale_snapshot (RollbackId 7) = Some 7" "carries table_ecs demo_world 8 (RollbackId 7)"
    by (auto simp: get_component_def stale_snapshot_def hm_get_def demo_carries)
  then show ?thesis by (intro respawned_reference_stays_stale) auto
qed

text \<open>
  C29: Despawning an entity the snapshot does not know takes everything below it along: an entity
  the snapshot keeps, but that has since become a descendant of such an entity, is lost by the load.
\<close>

theorem kept_entity_below_despawned_is_lost:
  fixes E :: "('w, 'v) ecs"
  assumes "orders_ok it" and "ecs_laws E" and "unique_ids E w"
    and "queue_ok snaps" and "peek snaps f = Some snapshot" and "hm_ok snapshot"
    and "carries E w p q" and "get_component snapshot q = None"
    and "below E w p e" and "carries E w e r"
  shows "\<exists>snaps1 em w' (cs :: 'v command list).
    load_entities it (reserve E w) f (q_entities E w) snaps = Inr (snaps1, em, cs) \<and>
    apply_commands E cs (w, o1) = (w', o1) \<and> (\<forall>e'. \<not> carries E w' e' r)"
proof -
  let ?ms = "load_rows it snapshot (q_entities E w)"
  note rows = load_rows_iff [OF assms(1-3,6)]
  from load_entities_eq [OF assms(1-6)] obtain snaps1 em where l:
    "load_entities it (reserve E w) f (q_entities E w) snaps =
      Inr (snaps1, em, row_commands (reserve E w) 0 ?ms :: 'v command list)"
    by blast
  from load_entities_reconciled [OF assms(1-3,6) refl, of o1]
  obtain w' where w': "apply_commands E (row_commands (reserve E w) 0 ?ms) (w, o1) = (w', o1)"
    "reconciled E w (despawned_below E w ?ms) (spawned_ids (reserve E w) 0 ?ms) w'" by blast
  have K: "e \<in> despawned_below E w ?ms"
    using assms(7-9) by (auto simp: despawned_below_def rows get_component_def)
  have N: "spawned_ids (reserve E w) 0 ?ms e' \<noteq> Some r" for e'
    using row_spawns_ids [of r "reserve E w" 0 ?ms] assms(10)
    by (force simp: spawned_ids_iff [OF reserve_inj [OF assms(2)] rows(3)] rows)
  have "rid_of E w' e' \<noteq> Some r" for e'
    using N [of e'] K assms(3,10) rid_of_reconciled [OF w'(2), of e']
    by (auto simp: unique_ids_def carries_def split: option.splits if_splits)
  then show ?thesis using l w'(1) by (auto simp: carries_def)
qed

definition nested_world :: "int table" where
  "nested_world = \<lparr>table_rows = [(2, [(RollbackIdKey, IdVal (RollbackId 2)), (ChildOfKey, ParentVal 8)]),
     (8, [(RollbackIdKey, IdVal (RollbackId 8))])], next_id = 10\<rparr>"

theorem kept_entity_below_despawned_is_lost_witness:
  "\<exists>snaps1 em w' cs. load_entities in_memory_order (reserve table_ecs nested_world) 1
      (q_entities table_ecs nested_world) (holding lost_snapshot) = Inr (snaps1, em, cs)
    \<and> apply_commands table_ecs cs (nested_world, default_ordered) = (w', default_ordered)
    \<and> (\<forall>e'. \<not> carries table_ecs w' e' (RollbackId 2))"
proof -
  have get: "t_get nested_world k e =
    (if e = 2 then (if k = RollbackIdKey then Some (IdVal (RollbackId 2))
       else if k = ChildOfKey then Some (ParentVal 8) else None)
     else if e = 8 \<and> k = RollbackIdKey then Some (IdVal (RollbackId 8)) else None)" for k e
    by (simp add: t_get_def nested_world_def)
  have "below table_ecs nested_world 8 2"
    by (rule below.child [OF below.self]) (simp add: get)
  moreover have "unique_ids table_ecs nested_world" "carries table_ecs nested_world 8 (RollbackId 8)"
    "carries table_ecs nested_world 2 (RollbackId 2)" "get_component lost_snapshot (RollbackId 8) = None"
    by (auto simp: unique_ids_def rid_of_def carries_def enabled_def get get_component_def hm_get_def
        lost_snapshot_def split: if_splits)
  ultimately show ?thesis
    by (intro kept_entity_below_despawned_is_lost [of _ _ _ _ _ lost_snapshot 8 "RollbackId 8" 2]) auto
qed

end
