(* ===== verification/Strategy.thy ===== *)
theory Strategy
  imports Prelude
begin

text \<open>
  \<open>src/snapshot/strategy.rs\<close>: how a value is stored in a snapshot and restored from it. The trait
  is a record of its three methods, the three implementations are values of it, and the contract
  its documentation states is the locale \<open>strategy_laws\<close>.
\<close>

section \<open>The trait and its implementations\<close>

record ('t, 's) strategy =
  store :: "'t \<Rightarrow> 's"
  load :: "'s \<Rightarrow> 't"
  update :: "'t \<Rightarrow> 's \<Rightarrow> 't"

text \<open>The provided method of the trait: \<open>*target = Self::load(stored)\<close>.\<close>

definition default_update :: "('s \<Rightarrow> 't) \<Rightarrow> 't \<Rightarrow> 's \<Rightarrow> 't" where
  "default_update ld target stored = ld stored"

definition copy_strategy :: "('t, 't) strategy" where
  "copy_strategy =
     \<lparr>store = (\<lambda>target. target), load = (\<lambda>stored. stored),
      update = default_update (\<lambda>stored. stored)\<rparr>"

text \<open>\<open>clone\<close> and \<open>clone_from\<close> are the target type's own.\<close>

definition clone_strategy :: "('t \<Rightarrow> 't) \<Rightarrow> ('t \<Rightarrow> 't \<Rightarrow> 't) \<Rightarrow> ('t, 't) strategy" where
  "clone_strategy clone clone_from =
     \<lparr>store = (\<lambda>target. clone target), load = (\<lambda>stored. clone stored),
      update = (\<lambda>target stored. clone_from target stored)\<rparr>"

text \<open>
  \<open>to_dynamic\<close>, \<open>apply\<close> and \<open>from_world\<close> are the reflection of the target type; \<open>load\<close> applies the
  stored value to the value a fresh world gives.
\<close>

definition reflect_strategy ::
  "('t \<Rightarrow> 'd) \<Rightarrow> ('t \<Rightarrow> 'd \<Rightarrow> 't) \<Rightarrow> 't \<Rightarrow> ('t, 'd) strategy" where
  "reflect_strategy to_dynamic reflect_apply from_world =
     \<lparr>store = (\<lambda>target. to_dynamic target),
      load = (\<lambda>stored. reflect_apply from_world stored),
      update = (\<lambda>target stored. reflect_apply target stored)\<rparr>"

section \<open>The contract\<close>

locale strategy_laws =
  fixes st :: "'t \<Rightarrow> 's" and ld :: "'s \<Rightarrow> 't" and upd :: "'t \<Rightarrow> 's \<Rightarrow> 't"
  assumes load_store: "ld (st x) = x"
    and update_store: "upd y (st x) = x"
begin

lemma store_inj: "st x = st y \<Longrightarrow> x = y"
  by (metis load_store)

text \<open>Restoring over a present value or afresh gives the same value.\<close>

lemma restore: "(case cur of None \<Rightarrow> ld (st x) | Some y \<Rightarrow> upd y (st x)) = x"
  by (simp add: load_store update_store split: option.split)

lemma restore_option:
  "(case cur of None \<Rightarrow> map_option ld (map_option st v)
    | Some y \<Rightarrow> map_option (upd y) (map_option st v)) = v"
  by (cases v) (simp_all add: load_store update_store split: option.split)

end

definition strategy_ok :: "('t, 's) strategy \<Rightarrow> bool" where
  "strategy_ok S \<longleftrightarrow> strategy_laws (store S) (load S) (update S)"

interpretation copy_laws: strategy_laws "store copy_strategy" "load copy_strategy"
  "update copy_strategy"
  by unfold_locales (simp_all add: copy_strategy_def default_update_def)

lemma strategy_okD:
  "strategy_ok S \<Longrightarrow> load S (store S x) = x"
  "strategy_ok S \<Longrightarrow> update S y (store S x) = x"
  by (simp_all add: strategy_ok_def strategy_laws_def)

lemma strategy_ok_copy: "strategy_ok copy_strategy"
  unfolding strategy_ok_def by (rule copy_laws.strategy_laws_axioms)

text \<open>
  The clone strategy keeps the contract of a strategy as soon as cloning gives an equal value,
  and the reflection strategy as soon as applying a value's reflection to any value gives that value.
\<close>

theorem clone_reflect_strategies_ok:
  assumes "\<And>x. clone x = x" and "\<And>y x. clone_from y x = x"
    and "\<And>y x. reflect_apply y (to_dynamic x) = x"
  shows "strategy_ok (clone_strategy clone clone_from)
    \<and> strategy_ok (reflect_strategy to_dynamic reflect_apply from_world)"
  using assms
  by (simp add: strategy_ok_def strategy_laws_def clone_strategy_def reflect_strategy_def)

lemma clone_reflect_strategies_ok_witness:
  "strategy_ok (clone_strategy (\<lambda>x :: nat. x) (\<lambda>_ x. x))
   \<and> strategy_ok (reflect_strategy (\<lambda>x :: nat. (x, x)) (\<lambda>_ d. fst d) 0)"
  by (rule clone_reflect_strategies_ok) simp_all

end
