(* ===== verification/ComponentSnapshot.thy ===== *)
theory ComponentSnapshot
  imports EntitySnapshot Strategy
begin

text \<open>
  \<open>src/snapshot/component_snapshot.rs\<close>: saving a component of every rollback entity and restoring
  it, for mutable components (written in place) and immutable ones (inserted again). A load system
  writes through the query at once and queues its insertions and removals.
\<close>

section \<open>The systems\<close>

definition save_components ::
  "('v, 's) strategy \<Rightarrow> i32 \<Rightarrow> (rollback_id \<times> 'v) list \<Rightarrow> 's component_snapshot ggrs_snapshots \<Rightarrow>
     's component_snapshot ggrs_snapshots res" where
  "save_components S frame query snaps =
     (let components = map (\<lambda>(rollback, component). (rollback, store S component)) query;
          snapshot = new_snapshot components
      in push frame snapshot snaps)"

definition load_component_row ::
  "('w, 'v) ecs \<Rightarrow> nat \<Rightarrow> ('v, 's) strategy \<Rightarrow> 's component_snapshot \<Rightarrow> 'w \<times> 'v command list \<Rightarrow>
     entity \<times> rollback_id \<times> 'v option \<Rightarrow> 'w \<times> 'v command list" where
  "load_component_row E t S snapshot = (\<lambda>(w, commands) (entity, rollback, component).
     case (component, get_component snapshot rollback) of
       (Some c, Some s) \<Rightarrow> (cset E (UserKey t) entity (UserVal (update S c s)) w, commands)
     | (Some c, None) \<Rightarrow> (w, commands @ [Remove (UserKey t) entity])
     | (None, Some s) \<Rightarrow> (w, commands @ [Insert (UserKey t) entity (UserVal (load S s))])
     | (None, None) \<Rightarrow> (w, commands))"

definition load_components ::
  "('w, 'v) ecs \<Rightarrow> nat \<Rightarrow> ('v, 's) strategy \<Rightarrow> i32 \<Rightarrow> 'w \<Rightarrow> 's component_snapshot ggrs_snapshots \<Rightarrow>
     ('s component_snapshot ggrs_snapshots \<times> 'w \<times> 'v command list) res" where
  "load_components E t S frame w snaps =
     rbind (rollback frame snaps) (\<lambda>snaps1.
     rbind (get_snapshot snaps1) (\<lambda>snapshot.
       Inr (snaps1, foldl (load_component_row E t S snapshot) (w, [])
         (q_optional E w (comp_of E w t)))))"

definition load_immutable_row ::
  "nat \<Rightarrow> ('v, 's) strategy \<Rightarrow> 's component_snapshot \<Rightarrow> 'v command list \<Rightarrow>
     entity \<times> rollback_id \<times> bool \<Rightarrow> 'v command list" where
  "load_immutable_row t S snapshot = (\<lambda>commands (entity, rollback, has_component).
     case (has_component, get_component snapshot rollback) of
       (True, None) \<Rightarrow> commands @ [Remove (UserKey t) entity]
     | (_, Some s) \<Rightarrow> commands @ [Insert (UserKey t) entity (UserVal (load S s))]
     | (False, None) \<Rightarrow> commands)"

definition load_immutable ::
  "('w, 'v) ecs \<Rightarrow> nat \<Rightarrow> ('v, 's) strategy \<Rightarrow> i32 \<Rightarrow> 'w \<Rightarrow> 's component_snapshot ggrs_snapshots \<Rightarrow>
     ('s component_snapshot ggrs_snapshots \<times> 'v command list) res" where
  "load_immutable E t S frame w snaps =
     rbind (rollback frame snaps) (\<lambda>snaps1.
     rbind (get_snapshot snaps1) (\<lambda>snapshot.
       Inr (snaps1, foldl (load_immutable_row t S snapshot) []
         (rollback_rows E w (\<lambda>e. Some (comp_of E w t e \<noteq> None))))))"

section \<open>What a load leaves in the component\<close>

text \<open>The value the load gives to the component of an entity that has identity \<open>r\<close>.\<close>

definition restored ::
  "('v, 's) strategy \<Rightarrow> 's component_snapshot \<Rightarrow> rollback_id \<Rightarrow> 'v option \<Rightarrow> 'v option" where
  "restored S snapshot r c =
     (case get_component snapshot r of
        None \<Rightarrow> None
      | Some s \<Rightarrow> Some (case c of None \<Rightarrow> load S s | Some v \<Rightarrow> update S v s))"

definition user_val :: "'v cval option \<Rightarrow> 'v option" where
  "user_val x = (case x of Some (UserVal v) \<Rightarrow> Some v | _ \<Rightarrow> None)"

lemma user_val_simps [simp]: "user_val None = None" "user_val (Some (UserVal v)) = Some v"
  by (simp_all add: user_val_def)

lemma comp_of_user_val: "comp_of E w t e = user_val (cget E w (UserKey t) e)"
  by (simp add: comp_of_def user_val_def)

lemma comp_of_cong: "cget E w' (UserKey t) e = cget E w (UserKey t) e \<Longrightarrow> comp_of E w' t e = comp_of E w t e"
  by (simp add: comp_of_def)

lemma comp_of_live: "ecs_laws E \<Longrightarrow> comp_of E w t e = Some c \<Longrightarrow> cget E w (UserKey t) e = Some (UserVal c)"
  by (auto simp: comp_of_def split: option.splits cval.splits)

lemma load_component_rows:
  assumes "ecs_laws E" "distinct (map fst rows)"
    and "\<forall>(e, r, c) \<in> set rows. comp_of E w t e = c \<and> e \<in> set (ents E w)"
  shows "\<exists>w1 ds. foldl (load_component_row E t S snapshot) (w, cs) rows = (w1, cs @ ds)
    \<and> set (ents E w1) = set (ents E w)
    \<and> (\<forall>k e. (k, e) \<notin> {UserKey t} \<times> fst ` set rows \<longrightarrow> cget E w1 k e = cget E w k e)
    \<and> (\<forall>c \<in> set ds. applicable (set (ents E w)) c \<and> touches c \<in> {UserKey t} \<times> fst ` set rows)
    \<and> (\<forall>(e, r, c) \<in> set rows. 
         user_val (effects_on (UserKey t) e ds (cget E w1 (UserKey t) e)) = restored S snapshot r c)"
  using assms(2,3)
proof (induction rows arbitrary: w cs)
  case Nil
  then show ?case by simp
next
  case (Cons row rows)
  obtain e r c where row: "row = (e, r, c)" by (cases row)
  have c: "comp_of E w t e = c" "e \<in> set (ents E w)" "e \<notin> fst ` set rows" "distinct (map fst rows)"
    using Cons.prems by (auto simp: row)
  show ?case
  proof (cases "\<exists>v s. c = Some v \<and> get_component snapshot r = Some s")
    case True
    then obtain v s where v: "c = Some v" "get_component snapshot r = Some s" by blast
    let ?w = "cset E (UserKey t) e (UserVal (update S v s)) w"
    have "cget E w (UserKey t) e = Some (UserVal v)" using c(1) v(1) comp_of_live [OF assms(1)] by blast
    note set = ecs_cset [OF assms(1) this, of "UserVal (update S v s)"]
    have pre: "\<forall>(e', r, c) \<in> set rows. comp_of E ?w t e' = c \<and> e' \<in> set (ents E ?w)"
      using Cons.prems(2) c(3) by (force simp: set(1) comp_of_def set(2))
    from Cons.IH [OF c(4) this, of cs] obtain w1 ds where ih:
      "foldl (load_component_row E t S snapshot) (?w, cs) rows = (w1, cs @ ds)"
      "set (ents E w1) = set (ents E ?w)"
      "\<forall>k e. (k, e) \<notin> {UserKey t} \<times> fst ` set rows \<longrightarrow> cget E w1 k e = cget E ?w k e"
      "\<forall>c \<in> set ds. applicable (set (ents E ?w)) c \<and> touches c \<in> {UserKey t} \<times> fst ` set rows"
      "\<forall>(e, r, c) \<in> set rows. 
         user_val (effects_on (UserKey t) e ds (cget E w1 (UserKey t) e)) = restored S snapshot r c"
      by blast
    have "(UserKey t, e) \<notin> touches ` set ds"
      using ih(4) c(3) by force
    then have "effects_on (UserKey t) e ds (cget E w1 (UserKey t) e) = Some (UserVal (update S v s))"
      using ih(3) c(3) by (simp add: effects_on_untouched set)
    then show ?thesis
      using ih v by (intro exI [of _ w1] exI [of _ ds])
        (auto simp: row load_component_row_def set restored_def)
  next
    case False
    define d where "d = (case (c, get_component snapshot r) of
        (Some c, None) \<Rightarrow> [Remove (UserKey t) e]
      | (None, Some s) \<Rightarrow> [Insert (UserKey t) e (UserVal (load S s))] | _ \<Rightarrow> [])"
    have step: "load_component_row E t S snapshot (w, cs) row = (w, cs @ d)"
      using False by (auto simp: row load_component_row_def d_def split: option.splits)
    have pre: "\<forall>(e', r, c) \<in> set rows. comp_of E w t e' = c \<and> e' \<in> set (ents E w)"
      using Cons.prems(2) by auto
    from Cons.IH [OF c(4) this, of "cs @ d"] obtain w1 ds where ih:
      "foldl (load_component_row E t S snapshot) (w, cs @ d) rows = (w1, (cs @ d) @ ds)"
      "set (ents E w1) = set (ents E w)"
      "\<forall>k e. (k, e) \<notin> {UserKey t} \<times> fst ` set rows \<longrightarrow> cget E w1 k e = cget E w k e"
      "\<forall>c \<in> set ds. applicable (set (ents E w)) c \<and> touches c \<in> {UserKey t} \<times> fst ` set rows"
      "\<forall>(e, r, c) \<in> set rows. 
         user_val (effects_on (UserKey t) e ds (cget E w1 (UserKey t) e)) = restored S snapshot r c"
      by blast
    have d: "\<forall>c \<in> set d. applicable (set (ents E w)) c \<and> touches c = (UserKey t, e)"
      using c(2) by (auto simp: d_def split: option.splits)
    have other: "effects_on (UserKey t) e' d x = x" if "e' \<noteq> e" for e' x
      using d that by (intro effects_on_untouched) auto
    have here: "user_val (effects_on (UserKey t) e (d @ ds) (cget E w1 (UserKey t) e)) = restored S snapshot r c"
    proof -
      have "cget E w1 (UserKey t) e = cget E w (UserKey t) e"
        using ih(3) c(3) by simp
      moreover have "(UserKey t, e) \<notin> touches ` set ds"
        using ih(4) c(3) by force
      ultimately show ?thesis
        using False c(1) by (auto simp: effects_on_untouched d_def restored_def comp_of_user_val
            split: option.splits)
    qed
    have there: "effects_on (UserKey t) e' (d @ ds) x = effects_on (UserKey t) e' ds x"
      if "(e', r', c') \<in> set rows" for e' r' c' x
      using other [of e'] that c(3) by (cases "e' = e") force+
    show ?thesis
    proof (intro exI conjI)
      show "foldl (load_component_row E t S snapshot) (w, cs) (row # rows) = (w1, cs @ (d @ ds))"
        using ih(1) by (simp add: step)
      show "\<forall>c \<in> set (d @ ds). applicable (set (ents E w)) c
          \<and> touches c \<in> {UserKey t} \<times> fst ` set (row # rows)"
        using ih(4) d by (auto simp: row)
      show "\<forall>(e, r, c) \<in> set (row # rows). user_val (effects_on (UserKey t) e (d @ ds) (cget E w1 (UserKey t) e)) = restored S snapshot r c"
        using here ih(5) by (auto simp: row there simp del: effects_on_simps)
    qed (use ih(2,3) in \<open>auto simp: row\<close>)
  qed
qed

text \<open>
  A load system of the \<open>Data\<close> set that is responsible for one component type \<open>k\<close>: what it writes at
  once and what its commands will write are on that component of live entities only. The value it
  leaves is the one after its commands.
\<close>

definition data_system ::
  "('w, 'v) ecs \<Rightarrow> 'w \<Rightarrow> ckey \<Rightarrow> 'w \<Rightarrow> 'v command list \<Rightarrow> bool" where
  "data_system E w k w1 cs \<longleftrightarrow> set (ents E w1) = set (ents E w) \<and>
     (\<forall>k' e. k' \<noteq> k \<longrightarrow> cget E w1 k' e = cget E w k' e) \<and>
     (\<forall>c \<in> set cs. applicable (set (ents E w)) c \<and> fst (touches c) = k)"

definition final_value :: "('w, 'v) ecs \<Rightarrow> 'w \<Rightarrow> 'v command list \<Rightarrow> ckey \<Rightarrow> entity \<Rightarrow> 'v cval option" where
  "final_value E w1 cs k e = effects_on k e cs (cget E w1 k e)"

lemma data_system_apply:
  assumes "ecs_laws E" "data_system E w k w1 cs"
  obtains w2 where "apply_commands E cs (w1, o1) = (w2, o1)" "set (ents E w2) = set (ents E w)"
    "\<forall>k' e. cget E w2 k' e = (if k' = k then final_value E w1 cs k e else cget E w k' e)"
proof -
  have "\<forall>c \<in> set cs. applicable (set (ents E w1)) c"
    using assms(2) by (simp add: data_system_def)
  from apply_data_commands [OF assms(1) this, of o1] obtain w2 where w2:
    "apply_commands E cs (w1, o1) = (w2, o1)" "set (ents E w2) = set (ents E w1)"
    "\<forall>k e. cget E w2 k e = effects_on k e cs (cget E w1 k e)" by blast
  have other: "effects_on k' e cs x = x" if "k' \<noteq> k" for k' e x
  proof (rule effects_on_untouched)
    have "\<forall>c \<in> set cs. fst (touches c) = k"
      using assms(2) by (simp add: data_system_def)
    then show "(k', e) \<notin> touches ` set cs"
      using that by (metis fst_conv imageE)
  qed
  show ?thesis
  proof (rule that)
    show "set (ents E w2) = set (ents E w)" using w2(2) assms(2) by (simp add: data_system_def)
    show "\<forall>k' e. cget E w2 k' e = (if k' = k then final_value E w1 cs k e else cget E w k' e)"
      using w2(3) other assms(2) by (simp add: final_value_def data_system_def)
  qed (rule w2(1))
qed

lemma q_optional_rows:
  assumes "ecs_laws E"
  shows "distinct (map fst (q_optional E w f))"
    "(e, r, c) \<in> set (q_optional E w f) \<longleftrightarrow> carries E w e r \<and> c = f e"
  using assms by (auto simp: q_optional_def distinct_rollback_rows set_rollback_rows carries_def)

lemma load_components_effect:
  assumes "ecs_laws E" "queue_ok snaps" "peek snaps f = Some snapshot"
  obtains snaps1 w1 cs where "load_components E t S f w snaps = Inr (snaps1, w1, cs)"
    "rollback f snaps = Inr snaps1" "data_system E w (UserKey t) w1 cs"
    "\<forall>e r. carries E w e r \<longrightarrow>
       user_val (final_value E w1 cs (UserKey t) e) = restored S snapshot r (comp_of E w t e)"
    "\<forall>e. (\<forall>r. \<not> carries E w e r) \<longrightarrow> final_value E w1 cs (UserKey t) e = cget E w (UserKey t) e"
proof -
  from gs.rollback_found [OF assms(2,3)] obtain snaps1 where s:
    "rollback f snaps = Inr snaps1" "get_snapshot snaps1 = Inr snapshot" by blast
  let ?rows = "q_optional E w (comp_of E w t)"
  note rows = q_optional_rows [OF assms(1)]
  have "\<forall>(e, r, c) \<in> set ?rows. comp_of E w t e = c \<and> e \<in> set (ents E w)"
    using carries_live [OF assms(1)] by (auto simp: rows)
  from load_component_rows [OF assms(1) rows(1) this, of S snapshot "[]"]
  obtain w1 ds where l: "foldl (load_component_row E t S snapshot) (w, []) ?rows = (w1, ds)"
    "set (ents E w1) = set (ents E w)"
    "\<forall>k e. (k, e) \<notin> {UserKey t} \<times> fst ` set ?rows \<longrightarrow> cget E w1 k e = cget E w k e"
    "\<forall>c \<in> set ds. applicable (set (ents E w)) c \<and> touches c \<in> {UserKey t} \<times> fst ` set ?rows"
    "\<forall>(e, r, c) \<in> set ?rows.
         user_val (effects_on (UserKey t) e ds (cget E w1 (UserKey t) e)) = restored S snapshot r c"
    by auto
  have "final_value E w1 ds (UserKey t) e = cget E w (UserKey t) e" if "\<forall>r. \<not> carries E w e r" for e
  proof -
    have "e \<notin> fst ` set ?rows" using that by (auto simp: rows)
    then show ?thesis
      using l(3,4) by (subst final_value_def, subst effects_on_untouched) force+
  qed
  moreover have "user_val (final_value E w1 ds (UserKey t) e) = restored S snapshot r (comp_of E w t e)"
    if "carries E w e r" for e r
    using l(5) that rows(2) [of e r "comp_of E w t e" w "comp_of E w t"] by (auto simp: final_value_def)
  moreover have "data_system E w (UserKey t) w1 ds"
    using l(2-4) by (auto simp: data_system_def)
  ultimately show ?thesis
    using l(1) s by (intro that) (auto simp: load_components_def)
qed

text \<open>The immutable load gives the same values, by insertion only.\<close>

lemma load_immutable_rows:
  assumes "distinct (map fst rows)"
  shows "\<exists>ds. foldl (load_immutable_row t S snapshot) cs rows = cs @ ds
    \<and> (\<forall>c \<in> set ds. touches c \<in> {UserKey t} \<times> fst ` set rows
        \<and> (fst ` set rows \<subseteq> A \<longrightarrow> applicable A c))
    \<and> (\<forall>(e, r, has) \<in> set rows. \<forall>x. effects_on (UserKey t) e ds x =
         (case get_component snapshot r of
            None \<Rightarrow> if has then None else x | Some s \<Rightarrow> Some (UserVal (load S s))))"
  using assms
proof (induction rows arbitrary: cs)
  case Nil
  then show ?case by simp
next
  case (Cons row rows)
  obtain e r has where row: "row = (e, r, has)" by (cases row)
  define d where "d = (case get_component snapshot r of
      None \<Rightarrow> if has then [Remove (UserKey t) e] else []
    | Some s \<Rightarrow> [Insert (UserKey t) e (UserVal (load S s))])"
  have step: "load_immutable_row t S snapshot cs row = cs @ d"
    by (cases has) (auto simp: row load_immutable_row_def d_def split: option.splits)
  obtain ds where ih: "foldl (load_immutable_row t S snapshot) (cs @ d) rows = (cs @ d) @ ds"
    "\<forall>c \<in> set ds. touches c \<in> {UserKey t} \<times> fst ` set rows \<and> (fst ` set rows \<subseteq> A \<longrightarrow> applicable A c)"
    "\<forall>(e, r, has) \<in> set rows. \<forall>x. effects_on (UserKey t) e ds x =
         (case get_component snapshot r of
            None \<Rightarrow> if has then None else x | Some s \<Rightarrow> Some (UserVal (load S s)))"
    using Cons.IH [of "cs @ d"] Cons.prems by auto
  have d: "\<forall>c \<in> set d. touches c = (UserKey t, e) \<and> (e \<in> A \<longrightarrow> applicable A c)"
    by (auto simp: d_def split: option.splits)
  have here: "effects_on (UserKey t) e (d @ ds) x = (case get_component snapshot r of
            None \<Rightarrow> if has then None else x | Some s \<Rightarrow> Some (UserVal (load S s)))" for x
  proof -
    have "(UserKey t, e) \<notin> touches ` set ds" using ih(2) Cons.prems by (force simp: row)
    then show ?thesis
      by (simp add: effects_on_untouched) (simp add: d_def split: option.split)
  qed
  have there: "effects_on (UserKey t) e' (d @ ds) x = effects_on (UserKey t) e' ds x"
    if "(e', r', h') \<in> set rows" for e' r' h' x
  proof -
    have "(UserKey t, e') \<notin> touches ` set d" using d that Cons.prems by (force simp: row)
    then show ?thesis by (simp add: effects_on_untouched)
  qed
  show ?case
  proof (intro exI conjI)
    show "foldl (load_immutable_row t S snapshot) cs (row # rows) = cs @ (d @ ds)"
      using ih(1) by (simp add: step)
    show "\<forall>c \<in> set (d @ ds). touches c \<in> {UserKey t} \<times> fst ` set (row # rows)
        \<and> (fst ` set (row # rows) \<subseteq> A \<longrightarrow> applicable A c)"
      using ih(2) d by (auto simp: row)
    show "\<forall>(e, r, has) \<in> set (row # rows). \<forall>x. effects_on (UserKey t) e (d @ ds) x =
         (case get_component snapshot r of
            None \<Rightarrow> if has then None else x | Some s \<Rightarrow> Some (UserVal (load S s)))"
      using here ih(3) by (auto simp: row there simp del: effects_on_simps)
  qed
qed

lemma load_immutable_effect:
  assumes "ecs_laws E" "queue_ok snaps" "peek snaps f = Some snapshot"
  obtains snaps1 cs where "load_immutable E t S f w snaps = Inr (snaps1, cs)"
    "rollback f snaps = Inr snaps1" "data_system E w (UserKey t) w cs"
    "\<forall>e r. carries E w e r \<longrightarrow>
       user_val (final_value E w cs (UserKey t) e) = restored S snapshot r None"
    "\<forall>e. (\<forall>r. \<not> carries E w e r) \<longrightarrow> final_value E w cs (UserKey t) e = cget E w (UserKey t) e"
proof -
  from gs.rollback_found [OF assms(2,3)] obtain snaps1 where s:
    "rollback f snaps = Inr snaps1" "get_snapshot snaps1 = Inr snapshot" by blast
  let ?rows = "rollback_rows E w (\<lambda>e. Some (comp_of E w t e \<noteq> None))"
  have rows: "(e, r, h) \<in> set ?rows \<longleftrightarrow> carries E w e r \<and> h = (comp_of E w t e \<noteq> None)" for e r h
    using assms(1) by (auto simp: set_rollback_rows carries_def)
  from load_immutable_rows [OF distinct_rollback_rows [OF assms(1)], of t S snapshot "[]" w
      "\<lambda>e. Some (comp_of E w t e \<noteq> None)" "set (ents E w)"]
  obtain ds where l: "foldl (load_immutable_row t S snapshot) [] ?rows = ds"
    "\<forall>c \<in> set ds. touches c \<in> {UserKey t} \<times> fst ` set ?rows
      \<and> (fst ` set ?rows \<subseteq> set (ents E w) \<longrightarrow> applicable (set (ents E w)) c)"
    "\<forall>(e, r, has) \<in> set ?rows. \<forall>x. effects_on (UserKey t) e ds x =
         (case get_component snapshot r of
            None \<Rightarrow> if has then None else x | Some s \<Rightarrow> Some (UserVal (load S s)))"
    by auto
  have "fst ` set ?rows \<subseteq> set (ents E w)"
    using carries_live [OF assms(1)] by (auto simp: rows simp del: not_None_eq)
  then have "data_system E w (UserKey t) w ds"
    using l(2) by (auto simp: data_system_def)
  moreover have "final_value E w ds (UserKey t) e = cget E w (UserKey t) e" if "\<forall>r. \<not> carries E w e r" for e
  proof -
    have "e \<notin> fst ` set ?rows" using that by (auto simp: rows simp del: not_None_eq)
    then show ?thesis
      using l(2) by (subst final_value_def, subst effects_on_untouched) force+
  qed
  moreover have "user_val (final_value E w ds (UserKey t) e) = restored S snapshot r None"
    if "carries E w e r" for e r
    using l(3) that rows [of e r "comp_of E w t e \<noteq> None"]
    by (auto simp: final_value_def restored_def comp_of_user_val split: option.splits)
  ultimately show ?thesis
    using l(1) s by (intro that) (auto simp: load_immutable_def)
qed

section \<open>Round trips\<close>

text \<open>What a save stores for an identity, and what a load makes of it under the contract of a strategy.\<close>

lemma q_components_get:
  assumes "ecs_laws E" "unique_ids E w"
  shows "map_of (q_components E w t) r = Some v \<longleftrightarrow> (\<exists>e. carries E w e r \<and> comp_of E w t e = Some v)"
    and "distinct (map fst (q_components E w t))"
  using rows_by_id [OF assms, where f = "comp_of E w t" and g = "\<lambda>e q. q"]
  by (auto simp: q_components_def)

lemma restored_saved:
  assumes "strategy_ok S" "distinct (map fst query)"
  shows "restored S (new_snapshot (map (\<lambda>(r, c). (r, store S c)) query)) r x = map_of query r"
proof -
  have "get_component (new_snapshot (map (\<lambda>(r, c). (r, store S c)) query)) r
      = map_option (store S) (map_of query r)"
    using assms(2) hm_get_collect_distinct [of "map (\<lambda>(r, c). (r, store S c)) query" r]
    by (simp add: get_component_def new_snapshot_def map_of_map_key_inj o_def)
      (simp add: case_prod_unfold)
  then show ?thesis
    using strategy_okD [OF assms(1)] by (simp add: restored_def split: option.split)
qed

text \<open>A world when frame 1 is saved and what it became later; both queues of the example.\<close>

definition hero_world :: "int table" where
  "hero_world = \<lparr>table_rows = [(2, [(RollbackIdKey, IdVal (RollbackId 2)), (UserKey 0, UserVal 5)]),
     (3, [(RollbackIdKey, IdVal (RollbackId 3))])], next_id = 4\<rparr>"

definition later_world :: "int table" where
  "later_world = \<lparr>table_rows = [(2, [(RollbackIdKey, IdVal (RollbackId 2)), (UserKey 0, UserVal 9)]),
     (3, [(RollbackIdKey, IdVal (RollbackId 3)), (UserKey 0, UserVal 1)])], next_id = 4\<rparr>"

definition fresh_queue :: "'a ggrs_snapshots" where
  "fresh_queue = \<lparr>snapshots = [], frames = [], depth = 8\<rparr>"

definition hero_saved :: "int component_snapshot ggrs_snapshots" where
  "hero_saved = \<lparr>snapshots = [[], [(RollbackId 2, 5)]], frames = [2, 1], depth = 8\<rparr>"

lemma fresh_queue_ok [simp]: "queue_ok fresh_queue" "0 < depth fresh_queue"
  by (simp_all add: fresh_queue_def queue_ok_def in_sync_def)

lemma hero_unique [simp]: "unique_ids table_ecs hero_world" "unique_ids table_ecs later_world"
  by (auto simp: unique_ids_def rid_of_def t_get_def hero_world_def later_world_def split: if_splits option.splits)

lemma hero_carries [simp]: "carries table_ecs later_world 2 (RollbackId 2)" "carries table_ecs later_world 3 (RollbackId 3)"
  by (simp_all add: carries_def rid_of_def enabled_def t_get_def later_world_def)

lemma hero_components [simp]: "q_components table_ecs hero_world 0 = [(RollbackId 2, 5)]"
  by code_simp

lemma hero_saves:
  "save_components copy_strategy 1 (q_components table_ecs hero_world 0) fresh_queue
     = Inr \<lparr>snapshots = [[(RollbackId 2, 5)]], frames = [1], depth = 8\<rparr>"
  "run_saves 8 [(0, 2, [])] \<lparr>snapshots = [[(RollbackId 2, 5)]], frames = [1], depth = 8\<rparr> = Inr hero_saved"
  "later_saves 8 1 [(0, 2, [] :: int component_snapshot)]" "(0 :: i32) <=s 1"
  by code_simp+

text \<open>
  C19: Saving a component at frame \<open>f\<close> and loading it back, after any run of saves of later frames
  shorter than the depth and whatever the world became in between, gives every identity that is
  alive the value it had at \<open>f\<close>, and removes the component from those that had none. No other
  component and no entity without identity changes, and the load does not panic.
\<close>

theorem component_save_load:
  fixes E :: "('w, 'v) ecs"
  assumes "ecs_laws E" and "strategy_ok S" and "unique_ids E w0" and "unique_ids E w"
    and "queue_ok s0" and "0 <=s f" and "0 < depth s0"
    and "save_components S f (q_components E w0 t) s0 = Inr s1"
    and "run_saves d saves s1 = Inr s2" and "later_saves d f saves"
  shows "\<exists>s3 w1 w2 cs. load_components E t S f w s2 = Inr (s3, w1, cs) \<and>
    apply_commands E cs (w1, o1) = (w2, o1) \<and>
    (\<forall>e r. carries E w e r \<longrightarrow> comp_of E w2 t e = map_of (q_components E w0 t) r) \<and>
    (\<forall>k e. k \<noteq> UserKey t \<or> (\<forall>r. \<not> carries E w e r) \<longrightarrow> cget E w2 k e = cget E w k e)"
proof -
  let ?snap = "new_snapshot (map (\<lambda>(r, c). (r, store S c)) (q_components E w0 t))"
  have "push f ?snap s0 = Inr s1" using assms(8) by (simp add: save_components_def)
  from saved_stays [OF assms(5-7) this assms(9,10)]
  have p: "peek s2 f = Some ?snap" "queue_ok s2" by auto
  obtain s3 w1 cs where l: "load_components E t S f w s2 = Inr (s3, w1, cs)"
    "rollback f s2 = Inr s3" "data_system E w (UserKey t) w1 cs"
    "\<forall>e r. carries E w e r \<longrightarrow>
       user_val (final_value E w1 cs (UserKey t) e) = restored S ?snap r (comp_of E w t e)"
    "\<forall>e. (\<forall>r. \<not> carries E w e r) \<longrightarrow> final_value E w1 cs (UserKey t) e = cget E w (UserKey t) e"
    by (rule load_components_effect [OF assms(1) p(2,1), where S = S and t = t and w = w])
  obtain w2 where w2: "apply_commands E cs (w1, o1) = (w2, o1)"
    "set (ents E w2) = set (ents E w)"
    "\<forall>k' e. cget E w2 k' e = (if k' = UserKey t then final_value E w1 cs (UserKey t) e else cget E w k' e)"
    by (rule data_system_apply [OF assms(1) l(3), of o1])
  have "comp_of E w2 t e = map_of (q_components E w0 t) r" if "carries E w e r" for e r
    using l(4) that restored_saved [OF assms(2) q_components_get(2) [OF assms(1,3)]]
    by (simp add: comp_of_user_val w2(3))
  moreover have "cget E w2 k e = cget E w k e" if "k \<noteq> UserKey t \<or> (\<forall>r. \<not> carries E w e r)" for k e
    using that l(5) by (auto simp: w2(3))
  ultimately show ?thesis using l(1) w2(1) by blast
qed

theorem component_save_load_witness:
  "\<exists>s3 w1 w2 cs. load_components table_ecs 0 copy_strategy 1 later_world hero_saved = Inr (s3, w1, cs) \<and>
    apply_commands table_ecs cs (w1, default_ordered) = (w2, default_ordered) \<and>
    comp_of table_ecs w2 0 2 = Some 5 \<and> comp_of table_ecs w2 0 3 = None"
proof -
  obtain s3 w1 w2 cs where l: "load_components table_ecs 0 copy_strategy 1 later_world hero_saved = Inr (s3, w1, cs)"
    "apply_commands table_ecs cs (w1, default_ordered) = (w2, default_ordered)"
    "\<forall>e r. carries table_ecs later_world e r \<longrightarrow>
       comp_of table_ecs w2 0 e = map_of (q_components table_ecs hero_world 0) r"
    using component_save_load [OF table_ecs_laws strategy_ok_copy hero_unique fresh_queue_ok(1) hero_saves(4)
      fresh_queue_ok(2) hero_saves(1-3), of default_ordered]
    by (elim exE conjE)
  have "comp_of table_ecs w2 0 2 = Some 5" "comp_of table_ecs w2 0 3 = None"
    using l(3) [rule_format, OF hero_carries(1)] l(3) [rule_format, OF hero_carries(2)] by simp_all
  with l(1,2) show ?thesis by blast
qed

text \<open>
  C35: The same round trip for an immutable component, which is restored by insertion and removal
  only: the load itself writes nothing.
\<close>

theorem immutable_save_load:
  fixes E :: "('w, 'v) ecs"
  assumes "ecs_laws E" and "strategy_ok S" and "unique_ids E w0" and "unique_ids E w"
    and "queue_ok s0" and "0 <=s f" and "0 < depth s0"
    and "save_components S f (q_components E w0 t) s0 = Inr s1"
    and "run_saves d saves s1 = Inr s2" and "later_saves d f saves"
  shows "\<exists>s3 w2 cs. load_immutable E t S f w s2 = Inr (s3, cs) \<and>
    apply_commands E cs (w, o1) = (w2, o1) \<and>
    (\<forall>e r. carries E w e r \<longrightarrow> comp_of E w2 t e = map_of (q_components E w0 t) r) \<and>
    (\<forall>k e. k \<noteq> UserKey t \<or> (\<forall>r. \<not> carries E w e r) \<longrightarrow> cget E w2 k e = cget E w k e)"
proof -
  let ?snap = "new_snapshot (map (\<lambda>(r, c). (r, store S c)) (q_components E w0 t))"
  have "push f ?snap s0 = Inr s1" using assms(8) by (simp add: save_components_def)
  from saved_stays [OF assms(5-7) this assms(9,10)]
  have p: "peek s2 f = Some ?snap" "queue_ok s2" by auto
  obtain s3 cs where l: "load_immutable E t S f w s2 = Inr (s3, cs)"
    "rollback f s2 = Inr s3" "data_system E w (UserKey t) w cs"
    "\<forall>e r. carries E w e r \<longrightarrow>
       user_val (final_value E w cs (UserKey t) e) = restored S ?snap r None"
    "\<forall>e. (\<forall>r. \<not> carries E w e r) \<longrightarrow> final_value E w cs (UserKey t) e = cget E w (UserKey t) e"
    by (rule load_immutable_effect [OF assms(1) p(2,1), where S = S and t = t and w = w])
  obtain w2 where w2: "apply_commands E cs (w, o1) = (w2, o1)"
    "set (ents E w2) = set (ents E w)"
    "\<forall>k' e. cget E w2 k' e = (if k' = UserKey t then final_value E w cs (UserKey t) e else cget E w k' e)"
    by (rule data_system_apply [OF assms(1) l(3), of o1])
  have "comp_of E w2 t e = map_of (q_components E w0 t) r" if "carries E w e r" for e r
    using l(4) that restored_saved [OF assms(2) q_components_get(2) [OF assms(1,3)]]
    by (simp add: comp_of_user_val w2(3))
  moreover have "cget E w2 k e = cget E w k e" if "k \<noteq> UserKey t \<or> (\<forall>r. \<not> carries E w e r)" for k e
    using that l(5) by (auto simp: w2(3))
  ultimately show ?thesis using l(1) w2(1) by blast
qed

theorem immutable_save_load_witness:
  "\<exists>s3 w2 cs. load_immutable table_ecs 0 copy_strategy 1 later_world hero_saved = Inr (s3, cs) \<and>
    apply_commands table_ecs cs (later_world, default_ordered) = (w2, default_ordered) \<and>
    comp_of table_ecs w2 0 2 = Some 5 \<and> comp_of table_ecs w2 0 3 = None"
proof -
  obtain s3 w2 cs where l: "load_immutable table_ecs 0 copy_strategy 1 later_world hero_saved = Inr (s3, cs)"
    "apply_commands table_ecs cs (later_world, default_ordered) = (w2, default_ordered)"
    "\<forall>e r. carries table_ecs later_world e r \<longrightarrow>
       comp_of table_ecs w2 0 e = map_of (q_components table_ecs hero_world 0) r"
    using immutable_save_load [OF table_ecs_laws strategy_ok_copy hero_unique fresh_queue_ok(1) hero_saves(4)
      fresh_queue_ok(2) hero_saves(1-3), of default_ordered]
    by (elim exE conjE)
  have "comp_of table_ecs w2 0 2 = Some 5" "comp_of table_ecs w2 0 3 = None"
    using l(3) [rule_format, OF hero_carries(1)] l(3) [rule_format, OF hero_carries(2)] by simp_all
  with l(1,2) show ?thesis by blast
qed

end
