(* ===== verification/ChildOfSnapshot.thy ===== *)
theory ChildOfSnapshot
  imports ComponentSnapshot
begin

text \<open>
  \<open>src/snapshot/childof_snapshot.rs\<close>: saving the parent of every rollback entity and restoring it,
  translated through the entity map that the load of the entities produced.
\<close>

section \<open>The systems\<close>

definition save_childof ::
  "i32 \<Rightarrow> (rollback_id \<times> entity) list \<Rightarrow> entity component_snapshot ggrs_snapshots \<Rightarrow>
     entity component_snapshot ggrs_snapshots res" where
  "save_childof frame query snaps =
     (let components = map (\<lambda>(rollback, component). (rollback, component)) query;
          snapshot = new_snapshot components
      in push frame snapshot snaps)"

definition load_childof_row ::
  "entity component_snapshot \<Rightarrow> rollback_entity_map \<Rightarrow> 'v command list \<Rightarrow>
     entity \<times> rollback_id \<times> entity option \<Rightarrow> 'v command list" where
  "load_childof_row snapshot em = (\<lambda>commands (entity, rollback, component).
     case (component, get_component snapshot rollback) of
       (Some c, None) \<Rightarrow> commands @ [Remove ChildOfKey entity]
     | (_, Some s) \<Rightarrow>
         (case get_map em s of
            Some parent \<Rightarrow> commands @ [Insert ChildOfKey entity (ParentVal parent)]
          | None \<Rightarrow> commands)
     | (None, None) \<Rightarrow> commands)"

definition load_childof ::
  "('w, 'v) ecs \<Rightarrow> i32 \<Rightarrow> 'w \<Rightarrow> rollback_entity_map \<Rightarrow> entity component_snapshot ggrs_snapshots \<Rightarrow>
     (entity component_snapshot ggrs_snapshots \<times> 'v command list) res" where
  "load_childof E frame w em snaps =
     rbind (rollback frame snaps) (\<lambda>snaps1.
     rbind (get_snapshot snaps1) (\<lambda>snapshot.
       Inr (snaps1, foldl (load_childof_row snapshot em) [] (q_optional E w (parent_of E w)))))"

section \<open>What a load leaves as the parent\<close>

definition parent_val :: "'v cval option \<Rightarrow> entity option" where
  "parent_val x = (case x of Some (ParentVal p) \<Rightarrow> Some p | _ \<Rightarrow> None)"

lemma parent_val_simps [simp]: "parent_val None = None" "parent_val (Some (ParentVal p)) = Some p"
  by (simp_all add: parent_val_def)

lemma parent_of_val: "parent_of E w e = parent_val (cget E w ChildOfKey e)"
  by (simp add: parent_of_def parent_val_def)

definition restored_parent ::
  "entity component_snapshot \<Rightarrow> rollback_entity_map \<Rightarrow> rollback_id \<Rightarrow> entity option \<Rightarrow> entity option" where
  "restored_parent snapshot em r current =
     (case get_component snapshot r of
        None \<Rightarrow> None
      | Some s \<Rightarrow> (case get_map em s of Some p \<Rightarrow> Some p | None \<Rightarrow> current))"

text \<open>Every parent that the load will insert is alive and not the child itself.\<close>

definition parents_live ::
  "('w, 'v) ecs \<Rightarrow> 'w \<Rightarrow> rollback_entity_map \<Rightarrow> entity component_snapshot \<Rightarrow> bool" where
  "parents_live E w em snapshot \<longleftrightarrow> (\<forall>e r s p. carries E w e r \<and> get_component snapshot r = Some s \<and>
     get_map em s = Some p \<longrightarrow> p \<in> set (ents E w) \<and> p \<noteq> e)"

lemma load_childof_rows:
  fixes cs :: "'v command list"
  assumes "distinct (map fst rows)"
    and "\<forall>(e, r, c) \<in> set rows. e \<in> A \<and> c = parent_val (x e) \<and>
      (\<forall>s p. get_component snapshot r = Some s \<and> get_map em s = Some p \<longrightarrow> p \<in> A \<and> p \<noteq> e)"
  shows "\<exists>ds. foldl (load_childof_row snapshot em) cs rows = cs @ ds
    \<and> (\<forall>c \<in> set ds. touches c \<in> {ChildOfKey} \<times> fst ` set rows \<and> applicable A c)
    \<and> (\<forall>(e, r, c) \<in> set rows.
         parent_val (effects_on ChildOfKey e ds (x e)) = restored_parent snapshot em r c)"
  using assms
proof (induction rows arbitrary: cs)
  case Nil
  then show ?case by simp
next
  case (Cons row rows)
  obtain e r c where row: "row = (e, r, c)" by (cases row)
  define d :: "'v command list" where "d = (case get_component snapshot r of
      None \<Rightarrow> if c = None then [] else [Remove ChildOfKey e]
    | Some s \<Rightarrow> (case get_map em s of Some p \<Rightarrow> [Insert ChildOfKey e (ParentVal p)] | None \<Rightarrow> []))"
  have step: "load_childof_row snapshot em cs row = cs @ d"
    by (cases c) (auto simp: row load_childof_row_def d_def split: option.splits)
  obtain ds where ih: "foldl (load_childof_row snapshot em) (cs @ d) rows = (cs @ d) @ ds"
    "\<forall>c \<in> set ds. touches c \<in> {ChildOfKey} \<times> fst ` set rows \<and> applicable A c"
    "\<forall>(e, r, c) \<in> set rows.
         parent_val (effects_on ChildOfKey e ds (x e)) = restored_parent snapshot em r c"
    using Cons.IH [of "cs @ d"] Cons.prems by auto
  have d: "\<forall>c \<in> set d. touches c = (ChildOfKey, e) \<and> applicable A c"
    using Cons.prems(2) by (auto simp: d_def row split: option.splits)
  have here: "parent_val (effects_on ChildOfKey e (d @ ds) (x e)) = restored_parent snapshot em r c"
  proof -
    have "(ChildOfKey, e) \<notin> touches ` set ds" using ih(2) Cons.prems(1) by (force simp: row)
    then show ?thesis
      using Cons.prems(2)
      by (simp add: effects_on_untouched row) (auto simp: d_def restored_parent_def split: option.split)
  qed
  have there: "effects_on ChildOfKey e' (d @ ds) y = effects_on ChildOfKey e' ds y"
    if "(e', r', c') \<in> set rows" for e' r' c' y
  proof -
    have "(ChildOfKey, e') \<notin> touches ` set d" using d that Cons.prems(1) by (force simp: row)
    then show ?thesis by (simp add: effects_on_untouched)
  qed
  show ?case
  proof (intro exI conjI)
    show "foldl (load_childof_row snapshot em) cs (row # rows) = cs @ (d @ ds)"
      using ih(1) by (simp add: step)
    show "\<forall>c \<in> set (d @ ds). touches c \<in> {ChildOfKey} \<times> fst ` set (row # rows) \<and> applicable A c"
      using ih(2) d by (auto simp: row)
    show "\<forall>(e, r, c) \<in> set (row # rows).
         parent_val (effects_on ChildOfKey e (d @ ds) (x e)) = restored_parent snapshot em r c"
      using here ih(3) by (auto simp: row there simp del: effects_on_simps)
  qed
qed

lemma load_childof_effect:
  assumes "ecs_laws E" "queue_ok snaps" "peek snaps f = Some snapshot" "parents_live E w em snapshot"
  obtains snaps1 cs where "load_childof E f w em snaps = Inr (snaps1, cs)"
    "rollback f snaps = Inr snaps1" "data_system E w ChildOfKey w cs"
    "\<forall>e r. carries E w e r \<longrightarrow> parent_val (final_value E w cs ChildOfKey e)
       = restored_parent snapshot em r (parent_of E w e)"
    "\<forall>e. (\<forall>r. \<not> carries E w e r) \<longrightarrow> final_value E w cs ChildOfKey e = cget E w ChildOfKey e"
proof -
  from gs.rollback_found [OF assms(2,3)] obtain snaps1 where s:
    "rollback f snaps = Inr snaps1" "get_snapshot snaps1 = Inr snapshot" by blast
  let ?rows = "q_optional E w (parent_of E w)"
  note rows = q_optional_rows [OF assms(1)]
  have "\<forall>(e, r, c) \<in> set ?rows. e \<in> set (ents E w) \<and> c = parent_val (cget E w ChildOfKey e) \<and>
      (\<forall>s p. get_component snapshot r = Some s \<and> get_map em s = Some p \<longrightarrow>
        p \<in> set (ents E w) \<and> p \<noteq> e)"
    using carries_live [OF assms(1)] assms(4) by (fastforce simp: rows parents_live_def parent_of_val)
  from load_childof_rows [OF rows(1) this, of "[]"]
  obtain ds where l: "foldl (load_childof_row snapshot em) [] ?rows = ds"
    "\<forall>c \<in> set ds. touches c \<in> {ChildOfKey} \<times> fst ` set ?rows \<and> applicable (set (ents E w)) c"
    "\<forall>(e, r, c) \<in> set ?rows. parent_val (effects_on ChildOfKey e ds (cget E w ChildOfKey e))
       = restored_parent snapshot em r c"
    by auto
  have "data_system E w ChildOfKey w ds"
    using l(2) by (auto simp: data_system_def)
  moreover have "final_value E w ds ChildOfKey e = cget E w ChildOfKey e" if "\<forall>r. \<not> carries E w e r" for e
  proof -
    have "e \<notin> fst ` set ?rows" using that by (auto simp: rows)
    then show ?thesis
      using l(2) by (subst final_value_def, subst effects_on_untouched) force+
  qed
  moreover have "parent_val (final_value E w ds ChildOfKey e) = restored_parent snapshot em r (parent_of E w e)"
    if "carries E w e r" for e r
    using l(3) that rows(2) [of e r "parent_of E w e" w "parent_of E w"] by (auto simp: final_value_def)
  ultimately show ?thesis
    using l(1) s by (intro that) (auto simp: load_childof_def)
qed

section \<open>Round trip\<close>

lemma q_parents_get:
  assumes "ecs_laws E" "unique_ids E w"
  shows "map_of (q_parents E w) r = Some v \<longleftrightarrow> (\<exists>e. carries E w e r \<and> parent_of E w e = Some v)"
    and "distinct (map fst (q_parents E w))"
  using rows_by_id [OF assms, where f = "parent_of E w" and g = "\<lambda>e q. q"]
  by (auto simp: q_parents_def)

lemma q_parents_at:
  assumes "ecs_laws E" "unique_ids E w" "carries E w e r"
  shows "map_of (q_parents E w) r = parent_of E w e"
proof (rule option_eqI)
  show "map_of (q_parents E w) r = Some v \<longleftrightarrow> parent_of E w e = Some v" for v
    using q_parents_get(1) [OF assms(1,2)] carries_unique [OF assms(2,3)] assms(3) by blast
qed

lemma saved_parents:
  assumes "ecs_laws E" "unique_ids E w"
  shows "get_component (new_snapshot (map (\<lambda>(r, c). (r, c)) (q_parents E w))) r = map_of (q_parents E w) r"
  using hm_get_collect_distinct [OF q_parents_get(2) [OF assms]]
  by (simp add: get_component_def new_snapshot_def)

text \<open>
  The entity map translates the world that was saved into the present one: every rollback parent of
  the saved world is mapped to the entity that carries its identity now.
\<close>

definition translates :: "('w, 'v) ecs \<Rightarrow> 'w \<Rightarrow> 'w \<Rightarrow> rollback_entity_map \<Rightarrow> bool" where
  "translates E w0 w em \<longleftrightarrow> (\<forall>e0 r p0. carries E w0 e0 r \<and> parent_of E w0 e0 = Some p0 \<longrightarrow>
     (\<exists>q p. carries E w0 p0 q \<and> q \<noteq> r \<and> get_map em p0 = Some p \<and> carries E w p q))"

text \<open>What the load inserts, when the map translates the saved world.\<close>

lemma saved_parent_at:
  assumes "ecs_laws E" "unique_ids E w0" "carries E w0 e0 r"
  shows "get_component (new_snapshot (map (\<lambda>(r, c). (r, c)) (q_parents E w0))) r = parent_of E w0 e0"
  by (simp only: saved_parents [OF assms(1,2)] q_parents_at [OF assms])

lemma translates_parents_live:
  assumes "ecs_laws E" "unique_ids E w0" "translates E w0 w em"
  shows "parents_live E w em (new_snapshot (map (\<lambda>(r, c). (r, c)) (q_parents E w0)))"
  unfolding parents_live_def
proof (intro allI impI)
  fix e r s p
  assume a: "carries E w e r \<and>
    get_component (new_snapshot (map (\<lambda>(r, c). (r, c)) (q_parents E w0))) r = Some s \<and> get_map em s = Some p"
  then obtain e0 where "carries E w0 e0 r" "parent_of E w0 e0 = Some s"
    unfolding saved_parents [OF assms(1,2)] q_parents_get(1) [OF assms(1,2)] by blast
  then obtain q where "carries E w p q" "q \<noteq> r"
    using assms(3) a by (fastforce simp: translates_def)
  then show "p \<in> set (ents E w) \<and> p \<noteq> e"
    using a carries_live [OF assms(1)] by (auto simp: carries_def)
qed

text \<open>A parent that is the right one by identity.\<close>

definition parent_target :: "('w, 'v) ecs \<Rightarrow> 'w \<Rightarrow> 'w \<Rightarrow> entity \<Rightarrow> entity option \<Rightarrow> bool" where
  "parent_target E w0 w e0 parent \<longleftrightarrow>
     (case parent_of E w0 e0 of
        None \<Rightarrow> parent = None
      | Some p0 \<Rightarrow> \<exists>q p. carries E w0 p0 q \<and> parent = Some p \<and> carries E w p q)"

lemma parent_target_cong:
  "(\<And>p q. carries E w' p q = carries E w p q) \<Longrightarrow> parent_target E w0 w' e0 x = parent_target E w0 w e0 x"
  by (cases "parent_of E w0 e0") (simp_all add: parent_target_def)

lemma restored_parent_target:
  assumes "ecs_laws E" "unique_ids E w0" "translates E w0 w em" "carries E w0 e0 r"
    and snap: "snap = new_snapshot (map (\<lambda>(r, c). (r, c)) (q_parents E w0))"
  shows "parent_target E w0 w e0 (restored_parent snap em r x)"
proof (cases "parent_of E w0 e0")
  case None
  then show ?thesis
    by (simp only: parent_target_def restored_parent_def snap saved_parent_at [OF assms(1,2,4)] option.case)
next
  case (Some p0)
  then obtain q p where "carries E w0 p0 q" "get_map em p0 = Some p" "carries E w p q"
    using assms(3,4) unfolding translates_def by blast
  then show ?thesis
    using Some
    by (simp only: parent_target_def restored_parent_def snap saved_parent_at [OF assms(1,2,4)] option.case) blast
qed

text \<open>
  C20: When the entity map translates the rollback parents of the saved world, loading the
  hierarchy rebuilds it by identity: the parent of each identity that is alive is the carrier of its
  parent's identity at \<open>f\<close>, and an identity without parent at \<open>f\<close> has none.
\<close>

theorem childof_save_load:
  fixes E :: "('w, 'v) ecs"
  assumes "ecs_laws E" and "unique_ids E w0" and "unique_ids E w" and "translates E w0 w em"
    and "queue_ok s0" and "0 <=s f" and "0 < depth s0"
    and "save_childof f (q_parents E w0) s0 = Inr s1"
    and "run_saves d saves s1 = Inr s2" and "later_saves d f saves"
  shows "\<exists>s3 w2 (cs :: 'v command list). load_childof E f w em s2 = Inr (s3, cs) \<and>
    apply_commands E cs (w, o1) = (w2, o1) \<and>
    (\<forall>e r e0. carries E w e r \<and> carries E w0 e0 r \<longrightarrow>
       (case parent_of E w0 e0 of
          None \<Rightarrow> parent_of E w2 e = None
        | Some p0 \<Rightarrow> \<exists>q p. carries E w0 p0 q \<and> parent_of E w2 e = Some p \<and> carries E w2 p q)) \<and>
    (\<forall>k e. k \<noteq> ChildOfKey \<or> (\<forall>r. \<not> carries E w e r) \<longrightarrow> cget E w2 k e = cget E w k e)"
proof -
  define snap where snap: "snap = new_snapshot (map (\<lambda>(r, c). (r, c)) (q_parents E w0))"
  have "push f snap s0 = Inr s1" using assms(8) by (simp only: save_childof_def Let_def snap)
  from saved_stays [OF assms(5-7) this assms(9,10)]
  have p: "peek s2 f = Some snap" "queue_ok s2" by auto
  have "parents_live E w em snap" unfolding snap by (rule translates_parents_live [OF assms(1,2,4)])
  then obtain s3 and cs :: "'v command list" where l: "load_childof E f w em s2 = Inr (s3, cs)"
    "rollback f s2 = Inr s3" "data_system E w ChildOfKey w cs"
    "\<forall>e r. carries E w e r \<longrightarrow> parent_val (final_value E w cs ChildOfKey e)
       = restored_parent snap em r (parent_of E w e)"
    "\<forall>e. (\<forall>r. \<not> carries E w e r) \<longrightarrow> final_value E w cs ChildOfKey e = cget E w ChildOfKey e"
    by (rule load_childof_effect [OF assms(1) p(2,1)])
  obtain w2 where w2: "apply_commands E cs (w, o1) = (w2, o1)" "set (ents E w2) = set (ents E w)"
    "\<forall>k' e. cget E w2 k' e = (if k' = ChildOfKey then final_value E w cs ChildOfKey e else cget E w k' e)"
    by (rule data_system_apply [OF assms(1) l(3), of o1])
  have carr: "carries E w2 e r = carries E w e r" for e r
    by (simp add: carries_def rid_of_def enabled_def w2(3))
  have parents: "parent_target E w0 w2 e0 (parent_of E w2 e)"
    if c: "carries E w e r" "carries E w0 e0 r" for e r e0
    using restored_parent_target [OF assms(1,2,4) c(2) snap, of "parent_of E w e"] l(4) c(1)
    by (simp add: parent_of_val [of E w2] w2(3) parent_target_cong [of E w2, OF carr])
  have "cget E w2 k e = cget E w k e" if "k \<noteq> ChildOfKey \<or> (\<forall>r. \<not> carries E w e r)" for k e
    using that l(5) by (auto simp: w2(3))
  note untouched = this
  show ?thesis
  proof (intro exI conjI)
    show "load_childof E f w em s2 = Inr (s3, cs)" by (rule l(1))
    show "apply_commands E cs (w, o1) = (w2, o1)" by (rule w2(1))
  qed (use parents [unfolded parent_target_def] untouched in blast)+
qed

text \<open>A child whose parent was respawned under another id.\<close>

definition family_world :: "int table" where
  "family_world = \<lparr>table_rows = [(2, [(RollbackIdKey, IdVal (RollbackId 2)), (ChildOfKey, ParentVal 3)]),
     (3, [(RollbackIdKey, IdVal (RollbackId 3))])], next_id = 4\<rparr>"

definition orphan_world :: "int table" where
  "orphan_world = \<lparr>table_rows = [(2, [(RollbackIdKey, IdVal (RollbackId 2))]),
     (5, [(RollbackIdKey, IdVal (RollbackId 3))])], next_id = 6\<rparr>"

definition family_map :: rollback_entity_map where
  "family_map = RollbackEntityMap [(2, 2), (3, 5)]"

lemma family_get:
  "t_get family_world k e = (if e = 2 then (if k = RollbackIdKey then Some (IdVal (RollbackId 2))
     else if k = ChildOfKey then Some (ParentVal 3) else None)
   else if e = 3 \<and> k = RollbackIdKey then Some (IdVal (RollbackId 3)) else None)"
  "t_get orphan_world k e = (if k = RollbackIdKey then (if e = 2 then Some (IdVal (RollbackId 2))
     else if e = 5 then Some (IdVal (RollbackId 3)) else None) else None)"
  by (simp_all add: t_get_def family_world_def orphan_world_def)

lemma family_carries:
  "carries table_ecs family_world e r \<longleftrightarrow> e = 2 \<and> r = RollbackId 2 \<or> e = 3 \<and> r = RollbackId 3"
  "carries table_ecs orphan_world e r \<longleftrightarrow> e = 2 \<and> r = RollbackId 2 \<or> e = 5 \<and> r = RollbackId 3"
  by (auto simp: carries_def rid_of_def enabled_def family_get)

lemma family_unique: "unique_ids table_ecs family_world" "unique_ids table_ecs orphan_world"
  by (auto simp: unique_ids_def rid_of_def family_get split: if_splits)

lemma family_parent: "parent_of table_ecs family_world e = (if e = 2 then Some 3 else None)"
  by (simp add: parent_of_def family_get)

lemma family_translates: "translates table_ecs family_world orphan_world family_map"
  by (auto simp: translates_def family_carries family_parent family_map_def get_map_def hm_get_def split: if_splits)

lemma family_saves:
  "save_childof 1 (q_parents table_ecs family_world) fresh_queue
     = Inr \<lparr>snapshots = [[(RollbackId 2, 3)]], frames = [1], depth = 8\<rparr>"
  "run_saves 8 [] \<lparr>snapshots = [[(RollbackId 2, 3 :: entity)]], frames = [1], depth = 8\<rparr>
     = Inr \<lparr>snapshots = [[(RollbackId 2, 3)]], frames = [1], depth = 8\<rparr>"
  "later_saves 8 1 ([] :: (i32 \<times> i32 \<times> entity component_snapshot) list)"
  by code_simp+

theorem childof_save_load_witness:
  "\<exists>s3 w2 cs. load_childof table_ecs 1 orphan_world family_map
      \<lparr>snapshots = [[(RollbackId 2, 3)]], frames = [1], depth = 8\<rparr> = Inr (s3, cs) \<and>
    apply_commands table_ecs cs (orphan_world, default_ordered) = (w2, default_ordered) \<and>
    (\<exists>p. parent_of table_ecs w2 2 = Some p \<and> carries table_ecs w2 p (RollbackId 3))"
proof -
  obtain s3 w2 cs where l: "load_childof table_ecs 1 orphan_world family_map
      \<lparr>snapshots = [[(RollbackId 2, 3)]], frames = [1], depth = 8\<rparr> = Inr (s3, cs)"
    "apply_commands table_ecs cs (orphan_world, default_ordered) = (w2, default_ordered)"
    "\<forall>e r e0. carries table_ecs orphan_world e r \<and> carries table_ecs family_world e0 r \<longrightarrow>
       (case parent_of table_ecs family_world e0 of
          None \<Rightarrow> parent_of table_ecs w2 e = None
        | Some p0 \<Rightarrow> \<exists>q p. carries table_ecs family_world p0 q
            \<and> parent_of table_ecs w2 e = Some p \<and> carries table_ecs w2 p q)"
    using childof_save_load [OF table_ecs_laws family_unique family_translates fresh_queue_ok(1) hero_saves(4)
      fresh_queue_ok(2) family_saves, of default_ordered]
    by (elim exE conjE)
  have "\<exists>q p. carries table_ecs family_world 3 q
            \<and> parent_of table_ecs w2 2 = Some p \<and> carries table_ecs w2 p q"
    using l(3) [rule_format, of 2 "RollbackId 2" 2] by (simp add: family_carries family_parent)
  then have "\<exists>p. parent_of table_ecs w2 2 = Some p \<and> carries table_ecs w2 p (RollbackId 3)"
    by (auto simp: family_carries)
  with l(1,2) show ?thesis by blast
qed

text \<open>
  A parent that the entity map does not know, such as one that is not a rollback entity, is not
  restored: the child keeps the parent it has when the load runs, none if it was respawned.
\<close>

theorem childof_unmapped_parent:
  fixes E :: "('w, 'v) ecs"
  assumes "ecs_laws E" and "queue_ok snaps" and "peek snaps f = Some snapshot"
    and "parents_live E w em snapshot" and "carries E w e r"
    and "get_component snapshot r = Some p0" and "get_map em p0 = None"
  shows "\<exists>s3 w2 (cs :: 'v command list). load_childof E f w em snaps = Inr (s3, cs) \<and>
    apply_commands E cs (w, o1) = (w2, o1) \<and> parent_of E w2 e = parent_of E w e"
proof -
  obtain s3 and cs :: "'v command list" where l: "load_childof E f w em snaps = Inr (s3, cs)"
    "rollback f snaps = Inr s3" "data_system E w ChildOfKey w cs"
    "\<forall>e r. carries E w e r \<longrightarrow> parent_val (final_value E w cs ChildOfKey e)
       = restored_parent snapshot em r (parent_of E w e)"
    "\<forall>e. (\<forall>r. \<not> carries E w e r) \<longrightarrow> final_value E w cs ChildOfKey e = cget E w ChildOfKey e"
    by (rule load_childof_effect [OF assms(1-4)])
  obtain w2 where w2: "apply_commands E cs (w, o1) = (w2, o1)" "set (ents E w2) = set (ents E w)"
    "\<forall>k' e. cget E w2 k' e = (if k' = ChildOfKey then final_value E w cs ChildOfKey e else cget E w k' e)"
    by (rule data_system_apply [OF assms(1) l(3), of o1])
  have "parent_of E w2 e = parent_of E w e"
    using l(4) assms(5-7) by (simp add: parent_of_val [of E w2] w2(3) restored_parent_def)
  then show ?thesis using l(1) w2(1) by blast
qed

theorem childof_unmapped_parent_witness:
  "\<exists>s3 w2 cs. load_childof table_ecs 1 orphan_world (RollbackEntityMap [(2, 2)])
      (holding [(RollbackId 2, 3)]) = Inr (s3, cs) \<and>
    apply_commands table_ecs cs (orphan_world, default_ordered) = (w2, default_ordered) \<and>
    parent_of table_ecs w2 2 = parent_of table_ecs orphan_world 2"
proof (rule childof_unmapped_parent)
  show "parents_live table_ecs orphan_world (RollbackEntityMap [(2, 2)]) [(RollbackId 2, 3)]"
    by (auto simp: parents_live_def get_component_def get_map_def hm_get_def split: if_splits)
  show "get_component [(RollbackId 2, 3 :: entity)] (RollbackId 2) = Some 3"
    "get_map (RollbackEntityMap [(2, 2)]) 3 = None"
    by (simp_all add: get_component_def get_map_def hm_get_def)
  show "carries table_ecs orphan_world 2 (RollbackId 2)" by (simp add: family_carries)
qed simp_all

end
