(* ===== verification/ResourceSnapshot.thy ===== *)
theory ResourceSnapshot
  imports GgrsSnapshots Strategy
begin

text \<open>
  \<open>src/snapshot/resource_snapshot.rs\<close>: saving a resource, or its absence, and restoring it. The
  resource is an argument that may be absent; a present one is written in place, and inserting or
  removing it is a deferred command.
\<close>

datatype 'v res_command = RemoveResource | InsertResource 'v

fun apply_res_command :: "'v res_command \<Rightarrow> 'v option \<Rightarrow> 'v option" where
  "apply_res_command RemoveResource r = None"
| "apply_res_command (InsertResource v) r = Some v"

definition apply_res_commands :: "'v res_command list \<Rightarrow> 'v option \<Rightarrow> 'v option" where
  "apply_res_commands cs r = foldl (\<lambda>r c. apply_res_command c r) r cs"

lemma apply_res_commands_simps [simp]:
  "apply_res_commands [] r = r" "apply_res_commands (c # cs) r = apply_res_commands cs (apply_res_command c r)"
  by (simp_all add: apply_res_commands_def)

definition save_resource ::
  "('v, 's) strategy \<Rightarrow> i32 \<Rightarrow> 'v option \<Rightarrow> 's option ggrs_snapshots \<Rightarrow> 's option ggrs_snapshots res" where
  "save_resource S frame resource snaps = push frame (map_option (\<lambda>res. store S res) resource) snaps"

definition load_resource ::
  "('v, 's) strategy \<Rightarrow> i32 \<Rightarrow> 'v option \<Rightarrow> 's option ggrs_snapshots \<Rightarrow>
     ('s option ggrs_snapshots \<times> 'v option \<times> 'v res_command list) res" where
  "load_resource S frame resource snaps =
     rbind (rollback frame snaps) (\<lambda>snaps1.
     rbind (get_snapshot snaps1) (\<lambda>snapshot.
       Inr (snaps1,
         (case (resource, snapshot) of
            (Some r, Some s) \<Rightarrow> (Some (update S r s), [])
          | (Some r, None) \<Rightarrow> (Some r, [RemoveResource])
          | (None, Some s) \<Rightarrow> (None, [InsertResource (load S s)])
          | (None, None) \<Rightarrow> (None, [])))))"

lemma load_resource_effect:
  assumes "strategy_ok S" "queue_ok snaps" "peek snaps f = Some (map_option (store S) v)"
  obtains snaps1 r1 cs where "load_resource S f r snaps = Inr (snaps1, r1, cs)"
    "rollback f snaps = Inr snaps1" "apply_res_commands cs r1 = v"
proof -
  from gs.rollback_found [OF assms(2,3)] obtain snaps1 where s:
    "rollback f snaps = Inr snaps1" "get_snapshot snaps1 = Inr (map_option (store S) v)" by blast
  show ?thesis
    using s strategy_okD [OF assms(1)]
    by (cases r; cases v) (auto simp: load_resource_def intro!: that)
qed

text \<open>
  C36: Saving a resource at frame \<open>f\<close> and loading it back, after any run of saves of later frames
  shorter than the depth, restores its value, or its absence, whatever it became in between.
\<close>

theorem resource_save_load:
  assumes "strategy_ok S" and "queue_ok s0" and "0 <=s f" and "0 < depth s0"
    and "save_resource S f v s0 = Inr s1"
    and "run_saves d saves s1 = Inr s2" and "later_saves d f saves"
  shows "\<exists>s3 r1 cs. load_resource S f r s2 = Inr (s3, r1, cs) \<and> apply_res_commands cs r1 = v"
proof -
  have "push f (map_option (store S) v) s0 = Inr s1"
    using assms(5) by (simp add: save_resource_def)
  from saved_stays [OF assms(2-4) this assms(6,7)] show ?thesis
    by (metis load_resource_effect [OF assms(1)])
qed

theorem resource_save_load_witness:
  "\<exists>s3 r1 cs. load_resource copy_strategy 1 (Some 9)
      \<lparr>snapshots = [Some (7 :: int), None], frames = [2, 1], depth = 8\<rparr> = Inr (s3, r1, cs)
    \<and> apply_res_commands cs r1 = None"
proof (rule resource_save_load)
  show "save_resource copy_strategy 1 None \<lparr>snapshots = [], frames = [], depth = 8\<rparr>
      = Inr \<lparr>snapshots = [None :: int option], frames = [1], depth = 8\<rparr>"
    by code_simp
  show "run_saves 8 [(0, 2, Some 7)] \<lparr>snapshots = [None :: int option], frames = [1], depth = 8\<rparr>
      = Inr \<lparr>snapshots = [Some 7, None], frames = [2, 1], depth = 8\<rparr>"
    by code_simp
  show "later_saves 8 1 [(0, 2, Some (7 :: int))]" "(0 :: i32) <=s 1"
    by code_simp+
qed (simp_all add: strategy_ok_copy queue_ok_def in_sync_def)

end
