(* ===== verification/MapEntities.thy ===== *)
theory MapEntities
  imports ComponentSnapshot
begin

text \<open>
  \<open>src/snapshot/component_map.rs\<close> and \<open>src/snapshot/resource_map.rs\<close>: translating the entities that
  components and resources refer to. The \<open>MapEntities\<close> implementation of the type is an argument,
  as is the order in which the map iterates.
\<close>

section \<open>The systems\<close>

definition map_component ::
  "('w, 'v) ecs \<Rightarrow> nat \<Rightarrow> ((entity \<Rightarrow> entity) \<Rightarrow> 'v \<Rightarrow> 'v) \<Rightarrow> rollback_entity_map \<Rightarrow> 'w \<Rightarrow> entity \<times> entity \<Rightarrow> 'w" where
  "map_component E t map_entities em = (\<lambda>w (original, new).
     case comp_of E w t original of
       Some component \<Rightarrow> cset E (UserKey t) original (UserVal (map_entities (get_mapped em) component)) w
     | None \<Rightarrow> w)"

definition update_component_map ::
  "('w, 'v) ecs \<Rightarrow> nat \<Rightarrow> ((entity \<Rightarrow> entity) \<Rightarrow> 'v \<Rightarrow> 'v) \<Rightarrow>
     ((entity \<times> entity) list \<Rightarrow> (entity \<times> entity) list) \<Rightarrow> rollback_entity_map \<Rightarrow> 'w \<Rightarrow> 'w" where
  "update_component_map E t map_entities it em w =
     foldl (map_component E t map_entities em) w (iter_map it em)"

definition update_resource_map ::
  "((entity \<Rightarrow> entity) \<Rightarrow> 'v \<Rightarrow> 'v) \<Rightarrow> rollback_entity_map \<Rightarrow> 'v option \<Rightarrow> 'v option" where
  "update_resource_map map_entities em resource =
     (case resource of None \<Rightarrow> None | Some r \<Rightarrow> Some (map_entities (get_mapped em) r))"

section \<open>What is translated\<close>

lemma map_component_fold:
  assumes "ecs_laws E" "distinct (map fst ps)"
  shows "comp_of E (foldl (map_component E t h em) w ps) t e =
      (if e \<in> fst ` set ps then map_option (h (get_mapped em)) (comp_of E w t e) else comp_of E w t e)
    \<and> (\<forall>k e. k \<noteq> UserKey t \<longrightarrow> cget E (foldl (map_component E t h em) w ps) k e = cget E w k e)
    \<and> set (ents E (foldl (map_component E t h em) w ps)) = set (ents E w)"
  using assms(2)
proof (induction ps arbitrary: w)
  case (Cons p ps)
  obtain a b where p: "p = (a, b)" by (cases p)
  let ?w = "map_component E t h em w p"
  have step: "comp_of E ?w t e = (if e = a then map_option (h (get_mapped em)) (comp_of E w t e) else comp_of E w t e)
      \<and> (\<forall>k e. k \<noteq> UserKey t \<longrightarrow> cget E ?w k e = cget E w k e) \<and> set (ents E ?w) = set (ents E w)" for e
  proof (cases "comp_of E w t a")
    case None
    then show ?thesis by (simp add: map_component_def p)
  next
    case (Some c)
    note set = ecs_cset [OF assms(1) comp_of_live [OF assms(1) Some]]
    show ?thesis
      using Some by (simp add: map_component_def p set comp_of_def)
  qed
  have "a \<notin> fst ` set ps" "distinct (map fst ps)" using Cons.prems by (auto simp: p)
  with Cons.IH [of ?w] step show ?case by (auto simp: p)
qed simp

lemma map_component_keeps:
  assumes "ecs_laws E"
  shows "k \<noteq> UserKey t \<Longrightarrow> cget E (foldl (map_component E t h em) w ps) k e = cget E w k e"
    and "set (ents E (foldl (map_component E t h em) w ps)) = set (ents E w)"
proof -
  have "(\<forall>k e. k \<noteq> UserKey t \<longrightarrow> cget E (foldl (map_component E t h em) w ps) k e = cget E w k e)
      \<and> set (ents E (foldl (map_component E t h em) w ps)) = set (ents E w)"
  proof (induction ps arbitrary: w)
    case (Cons p ps)
    let ?w = "map_component E t h em w p"
    have "(\<forall>k e. k \<noteq> UserKey t \<longrightarrow> cget E ?w k e = cget E w k e) \<and> set (ents E ?w) = set (ents E w)"
      by (auto simp: map_component_def ecs_cset [OF assms comp_of_live [OF assms]]
          split: prod.split option.split)
    with Cons.IH [of ?w] show ?case by simp
  qed simp
  then show "k \<noteq> UserKey t \<Longrightarrow> cget E (foldl (map_component E t h em) w ps) k e = cget E w k e"
    and "set (ents E (foldl (map_component E t h em) w ps)) = set (ents E w)"
    by blast+
qed

lemma iter_map_keys:
  "any_order it \<Longrightarrow> hm_ok (entity_map_of em) \<Longrightarrow>
     distinct (map fst (iter_map it em)) \<and> (e \<in> fst ` set (iter_map it em) \<longleftrightarrow> get_map em e \<noteq> None)"
  using set_iter_map [of it em e]
  by (force simp: iter_map_def any_order_distinct_keys hm_ok_def)

text \<open>
  C37: Mapping a component type translates the component of exactly the entities that are keys of
  the map, each once, whatever the iteration order; nothing else changes.
\<close>

theorem component_map_translates_keys:
  assumes "ecs_laws E" and "any_order it" and "hm_ok (entity_map_of em)"
  shows "let w' = update_component_map E t map_entities it em w in
    (\<forall>e. comp_of E w' t e = (if get_map em e \<noteq> None
       then map_option (map_entities (get_mapped em)) (comp_of E w t e) else comp_of E w t e)) \<and>
    (\<forall>k e. k \<noteq> UserKey t \<longrightarrow> cget E w' k e = cget E w k e) \<and> set (ents E w') = set (ents E w)"
  using map_component_fold [OF assms(1), of "iter_map it em"] iter_map_keys [OF assms(2,3)]
  by (simp add: update_component_map_def Let_def)

theorem component_map_translates_keys_witness:
  "comp_of table_ecs (update_component_map table_ecs 0 (\<lambda>f v. int (f (nat v))) rev
     (RollbackEntityMap [(2, 9), (5, 7)]) hero_world) 0 2 = Some 7"
proof -
  have "comp_of table_ecs hero_world 0 2 = Some 5"
    by (simp add: comp_of_def t_get_def hero_world_def)
  then show ?thesis
    using component_map_translates_keys [OF table_ecs_laws any_order_rev,
        of "RollbackEntityMap [(2, 9), (5, 7)]" 0 "\<lambda>f v. int (f (nat v))" hero_world]
    by (simp add: hm_ok_def Let_def get_map_def hm_get_def get_mapped_def)
qed

text \<open>
  C30: A component of a respawned entity is never translated: the keys of the map are the entities
  of the snapshot, so when ids are not reused the new carrier of a lost identity is not among them,
  and whatever its component refers to is left as it was saved.
\<close>

theorem respawned_component_not_mapped:
  fixes E :: "('w, 'v) ecs" and w2 :: 'w
  assumes "orders_ok it" and "ecs_laws E" and "unique_ids E w"
    and "queue_ok snaps" and "peek snaps f = Some snapshot" and "hm_ok snapshot"
    and "reconcilable E w snapshot" and "no_reuse E w snapshot"
    and "\<And>r e. get_component snapshot r = Some e \<Longrightarrow> e \<notin> range (reserve E w)"
    and "any_order it2"
  shows "\<exists>snaps1 em w' (cs :: 'v command list).
    load_entities it (reserve E w) f (q_entities E w) snaps = Inr (snaps1, em, cs) \<and>
    apply_commands E cs (w, o1) = (w', o1) \<and>
    (\<forall>e r. carries E w' e r \<and> \<not> carries E w e r \<longrightarrow>
       comp_of E (update_component_map E t map_entities it2 em w2) t e = comp_of E w2 t e)"
proof -
  obtain snaps1 em w' and cs :: "'v command list" and N where l:
    "rollback f snaps = Inr snaps1"
    "load_entities it (reserve E w) f (q_entities E w) snaps = Inr (snaps1, em, cs)"
    "apply_commands E cs (w, o1) = (w', o1)" "loaded_as E w snapshot N w'"
    "no_reuse E w snapshot \<longrightarrow> maps_as E w snapshot N em"
    "\<forall>e r. N e = Some r \<longrightarrow> e \<in> range (reserve E w)" "hm_ok (entity_map_of em)"
    by (rule load_entities_effect [OF assms(1-7)])
  note map = l(5) [unfolded maps_as_def, rule_format, OF assms(8)]
  have "get_map em e = None" if new: "carries E w' e r" "\<not> carries E w e r" for e r
  proof (rule ccontr)
    assume "get_map em e \<noteq> None"
    then obtain b where b: "get_map em e = Some b" by auto
    have N: "N e = Some r" using new loaded_carries [OF l(4), of e r] by simp
    then have "e \<notin> set (ents E w)" "e \<in> range (reserve E w)"
      using loaded_new [OF l(4) N] l(6) by auto
    moreover have "hm_get snapshot q \<noteq> Some e" for q
      using assms(9) [of q e] \<open>e \<in> range (reserve E w)\<close> by (auto simp: get_component_def)
    ultimately show False
      using b carries_live [OF assms(2)] unfolding map by blast
  qed
  then have "comp_of E (update_component_map E t map_entities it2 em w2) t e = comp_of E w2 t e"
    if "carries E w' e r" "\<not> carries E w e r" for e r
    using that map_component_fold [OF assms(2), of "iter_map it2 em"]
      iter_map_keys [OF assms(10) l(7), of e]
    by (simp add: update_component_map_def)
  then show ?thesis using l(2,3) by blast
qed

theorem respawned_component_not_mapped_witness:
  "\<exists>snaps1 em w' cs. load_entities in_memory_order (reserve table_ecs demo_world) 1
      (q_entities table_ecs demo_world) (holding lost_snapshot) = Inr (snaps1, em, cs)
    \<and> apply_commands table_ecs cs (demo_world, default_ordered) = (w', default_ordered)
    \<and> (\<forall>e r. carries table_ecs w' e r \<and> \<not> carries table_ecs demo_world e r \<longrightarrow>
       comp_of table_ecs (update_component_map table_ecs 0 (\<lambda>f v. int (f (nat v))) rev em hero_world) 0 e
         = comp_of table_ecs hero_world 0 e)"
proof (rule respawned_component_not_mapped)
  fix r e assume "get_component lost_snapshot r = Some e"
  then have "e < 10"
    by (auto simp: get_component_def lost_snapshot_def hm_get_def split: if_splits)
  then show "e \<notin> range (reserve table_ecs demo_world)"
    by (auto simp: t_reserve_def t_base_def demo_world_def)
qed simp_all

end
