(* ===== verification/Despawn.thy ===== *)
theory Despawn
  imports EntitySnapshot
begin

text \<open>
  \<open>src/snapshot/despawn.rs\<close>: despawning that can be rolled back. An entity despawned on an
  unconfirmed frame is only marked, with the frame; a load removes the markers of later frames, and
  the markers of confirmed frames turn into real despawns. Frames are compared as signed numbers.
\<close>

section \<open>The operations\<close>

text \<open>\<open>Query<(Entity, &RollbackDespawned)>\<close> names the disabling component, so it sees marked entities.\<close>

definition q_despawned :: "('w, 'v) ecs \<Rightarrow> 'w \<Rightarrow> (entity \<times> i32) list" where
  "q_despawned E w = List.map_filter
     (\<lambda>e. case despawned_of E w e of Some d \<Rightarrow> Some (e, d) | None \<Rightarrow> None) (ents E w)"

definition resurrect_entities :: "('w, 'v) ecs \<Rightarrow> i32 \<Rightarrow> 'w \<Rightarrow> 'w" where
  "resurrect_entities E rollback_frame w =
     foldl (\<lambda>w entity. cremove E DespawnedKey entity w) w
       (map fst (filter (\<lambda>(e, despawned_frame). rollback_frame <s despawned_frame) (q_despawned E w)))"

definition despawn_confirmed_entities :: "('w, 'v) ecs \<Rightarrow> i32 \<Rightarrow> i32 \<Rightarrow> 'w \<Rightarrow> 'w \<times> i32" where
  "despawn_confirmed_entities E confirmed_frame local w =
     (if confirmed_frame = local then (w, local)
      else (foldl (\<lambda>w entity. despawn_ent E entity w) w
              (map fst (filter (\<lambda>(e, despawned_frame). despawned_frame <=s confirmed_frame) (q_despawned E w))),
            confirmed_frame))"

definition despawn_rollback ::
  "('w, 'v) ecs \<Rightarrow> i32 option \<Rightarrow> i32 option \<Rightarrow> entity \<Rightarrow> 'w \<Rightarrow> 'w res" where
  "despawn_rollback E frame confirmed entity w =
     (case frame of
        Some f \<Rightarrow>
          (case confirmed of
             None \<Rightarrow> Inl UnwrapNone
           | Some c \<Rightarrow>
               if c <s f then Inr (cinsert_rec E DespawnedKey entity (FrameVal f) w)
               else Inr (despawn_ent E entity w))
      | None \<Rightarrow> Inr (despawn_ent E entity w))"

text \<open>The command: errors, such as an entity that no longer exists, are silenced.\<close>

definition despawn_rollback_command ::
  "('w, 'v) ecs \<Rightarrow> i32 option \<Rightarrow> i32 option \<Rightarrow> entity \<Rightarrow> 'w \<Rightarrow> 'w res" where
  "despawn_rollback_command E frame confirmed entity w =
     (if entity \<in> set (ents E w) then despawn_rollback E frame confirmed entity w else Inr w)"

section \<open>Effects\<close>

lemma despawned_live: "ecs_laws E \<Longrightarrow> despawned_of E w e = Some d \<Longrightarrow> e \<in> set (ents E w)"
  by (auto simp: despawned_of_def dest: ecs_live split: option.splits)

lemma set_q_despawned:
  "ecs_laws E \<Longrightarrow> (e, d) \<in> set (q_despawned E w) \<longleftrightarrow> despawned_of E w e = Some d"
  by (auto simp: q_despawned_def in_set_map_filter despawned_live split: option.splits intro!: bexI [of _ e])

lemma remove_all:
  assumes "ecs_laws E"
  shows "set (ents E (foldl (\<lambda>w e. cremove E k e w) w es)) = set (ents E w)"
    "cget E (foldl (\<lambda>w e. cremove E k e w) w es) k' e' =
       (if k' = k \<and> e' \<in> set es then None else cget E w k' e')"
  by (induction es arbitrary: w) (auto simp: ecs_cremove [OF assms])

lemma resurrect_effect:
  assumes "ecs_laws E"
  shows "set (ents E (resurrect_entities E f w)) = set (ents E w)"
    "cget E (resurrect_entities E f w) k e =
       (if k = DespawnedKey \<and> (\<exists>d. despawned_of E w e = Some d \<and> f <s d) then None else cget E w k e)"
proof -
  let ?es = "map fst (filter (\<lambda>(e, d). f <s d) (q_despawned E w))"
  have "e \<in> set ?es \<longleftrightarrow> (\<exists>d. despawned_of E w e = Some d \<and> f <s d)"
    using set_q_despawned [OF assms, of _ _ w] by force
  then show "cget E (resurrect_entities E f w) k e =
       (if k = DespawnedKey \<and> (\<exists>d. despawned_of E w e = Some d \<and> f <s d) then None else cget E w k e)"
    by (simp add: resurrect_entities_def remove_all [OF assms])
  show "set (ents E (resurrect_entities E f w)) = set (ents E w)"
    by (simp add: resurrect_entities_def remove_all [OF assms])
qed

lemma despawn_all:
  assumes "ecs_laws E" "reconciled E w K Map.empty w'" "set es \<subseteq> set (ents E w)"
  shows "reconciled E w (K \<union> {e'. \<exists>e \<in> set es. below E w e e'}) Map.empty
    (foldl (\<lambda>w e. despawn_ent E e w) w' es)"
  using assms(2,3)
proof (induction es arbitrary: K w')
  case (Cons e es)
  have "e \<in> set (ents E w)" using Cons.prems(2) by simp
  from Cons.IH [OF reconciled_despawn [OF assms(1) Cons.prems(1) this]] Cons.prems(2)
  have "reconciled E w (K \<union> {e'. below E w e e'} \<union> {e'. \<exists>e \<in> set es. below E w e e'}) Map.empty
    (foldl (\<lambda>w e. despawn_ent E e w) (despawn_ent E e w') es)" by simp
  moreover have "K \<union> {e'. below E w e e'} \<union> {e'. \<exists>e \<in> set es. below E w e e'}
      = K \<union> {e'. \<exists>e \<in> set (e # es). below E w e e'}" by auto
  ultimately show ?case by simp
qed simp

definition expired :: "('w, 'v) ecs \<Rightarrow> 'w \<Rightarrow> i32 \<Rightarrow> entity set" where
  "expired E w c = {e'. \<exists>e d. despawned_of E w e = Some d \<and> \<not> c <s d \<and> below E w e e'}"

lemma despawn_confirmed_effect:
  assumes "ecs_laws E" "c \<noteq> l"
  obtains w' where "despawn_confirmed_entities E c l w = (w', c)"
    "set (ents E w') = set (ents E w) - expired E w c"
    "\<forall>k e. cget E w' k e = (if e \<in> expired E w c then None else cget E w k e)"
proof -
  let ?es = "map fst (filter (\<lambda>(e, d). d <=s c) (q_despawned E w))"
  let ?w = "foldl (\<lambda>w e. despawn_ent E e w) w ?es"
  have es: "e \<in> set ?es \<longleftrightarrow> (\<exists>d. despawned_of E w e = Some d \<and> \<not> c <s d)" for e
    using set_q_despawned [OF assms(1), of _ _ w] by (force simp: sless_linear)
  then have "set ?es \<subseteq> set (ents E w)" using despawned_live [OF assms(1)] by blast
  from despawn_all [OF assms(1) reconciled_start this]
  have "reconciled E w ({} \<union> {e'. \<exists>e \<in> set ?es. below E w e e'}) Map.empty ?w" .
  moreover have "{} \<union> {e'. \<exists>e \<in> set ?es. below E w e e'} = expired E w c"
    unfolding expired_def using es by blast
  ultimately have "reconciled E w (expired E w c) Map.empty ?w" by simp
  then show ?thesis
    using assms(2) by (intro that [of ?w])
      (auto simp: despawn_confirmed_entities_def reconciled_def)
qed

text \<open>
  C21: Despawning on an unconfirmed frame hides the entity and everything below it without losing
  anything: a load of an earlier frame gives back the world before, component by component; a load
  of that frame or a later one leaves them hidden.
\<close>

theorem despawn_rollback_is_undone:
  assumes "ecs_laws E" and "e \<in> set (ents E w)" and "c <s g" and "\<And>e'. enabled E w e'"
  shows "\<exists>w1. despawn_rollback_command E (Some g) (Some c) e w = Inr w1 \<and>
    (\<forall>e'. enabled E w1 e' \<longleftrightarrow> \<not> below E w e e') \<and>
    (\<forall>f. if f <s g then set (ents E (resurrect_entities E f w1)) = set (ents E w) \<and>
             (\<forall>k e'. cget E (resurrect_entities E f w1) k e' = cget E w k e')
         else \<forall>e'. enabled E (resurrect_entities E f w1) e' \<longleftrightarrow> \<not> below E w e e')"
proof -
  let ?w1 = "cinsert_rec E DespawnedKey e (FrameVal g) w"
  note ins = ecs_cinsert_rec [OF assms(1,2), of DespawnedKey "FrameVal g"]
  have none: "cget E w DespawnedKey e' = None" for e' using assms(4) by (simp add: enabled_def)
  have marked: "despawned_of E ?w1 e' = (if below E w e e' then Some g else None)" for e'
    by (simp add: despawned_of_def ins none)
  have "despawn_rollback_command E (Some g) (Some c) e w = Inr ?w1"
    using assms(2,3) by (simp add: despawn_rollback_command_def despawn_rollback_def)
  moreover have "enabled E ?w1 e' \<longleftrightarrow> \<not> below E w e e'" for e'
    by (simp add: enabled_def ins none)
  moreover have "if f <s g then set (ents E (resurrect_entities E f ?w1)) = set (ents E w) \<and>
             (\<forall>k e'. cget E (resurrect_entities E f ?w1) k e' = cget E w k e')
         else \<forall>e'. enabled E (resurrect_entities E f ?w1) e' \<longleftrightarrow> \<not> below E w e e'" for f
    by (auto simp: resurrect_effect [OF assms(1)] marked ins none enabled_def)
  ultimately show ?thesis by blast
qed

text \<open>A parent and its child, then the same with the child despawned at frame 2.\<close>

definition nest :: "int table" where
  "nest = \<lparr>table_rows = [(2, []), (3, [(ChildOfKey, ParentVal 2)])], next_id = 4\<rparr>"

definition half_nest :: "int table" where
  "half_nest = \<lparr>table_rows = [(2, []), (3, [(ChildOfKey, ParentVal 2), (DespawnedKey, FrameVal 2)])], next_id = 4\<rparr>"

lemma nest_get:
  "t_get nest k e = (if e = 3 \<and> k = ChildOfKey then Some (ParentVal 2) else None)"
  "t_get half_nest k e = (if e = 3 then (if k = ChildOfKey then Some (ParentVal 2)
     else if k = DespawnedKey then Some (FrameVal 2) else None) else None)"
  by (simp_all add: t_get_def nest_def half_nest_def)

lemma nest_below: "below table_ecs nest 2 3" "below table_ecs half_nest 2 3"
  by (rule below.child [OF below.self], simp add: nest_get)+

lemma nest_ents [simp]: "t_ents nest = [2, 3]" "t_ents half_nest = [2, 3]"
  by (simp_all add: t_ents_def nest_def half_nest_def)

theorem despawn_rollback_is_undone_witness:
  "\<exists>w1. despawn_rollback_command table_ecs (Some 5) (Some 3) 2 nest = Inr w1 \<and>
     \<not> enabled table_ecs w1 3 \<and> enabled table_ecs (resurrect_entities table_ecs 4 w1) 3 \<and>
     \<not> enabled table_ecs (resurrect_entities table_ecs 5 w1) 3"
proof -
  have en: "enabled table_ecs nest e" for e by (simp add: enabled_def nest_get)
  obtain w1 where w1: "despawn_rollback_command table_ecs (Some 5) (Some 3) 2 nest = Inr w1"
    "\<forall>e'. enabled table_ecs w1 e' \<longleftrightarrow> \<not> below table_ecs nest 2 e'"
    "\<forall>f. if f <s 5 then set (ents table_ecs (resurrect_entities table_ecs f w1)) = set (ents table_ecs nest) \<and>
             (\<forall>k e'. cget table_ecs (resurrect_entities table_ecs f w1) k e' = cget table_ecs nest k e')
         else \<forall>e'. enabled table_ecs (resurrect_entities table_ecs f w1) e' \<longleftrightarrow> \<not> below table_ecs nest 2 e'"
    using despawn_rollback_is_undone [of table_ecs 2 nest 3 5] en by (auto simp: word_sless_alt)
  have "enabled table_ecs (resurrect_entities table_ecs 4 w1) 3"
    using spec [OF w1(3), of 4] en [of 3] by (simp add: word_sless_alt enabled_def)
  moreover have "\<not> enabled table_ecs (resurrect_entities table_ecs 5 w1) 3"
    using spec [OF w1(3), of 5] nest_below by simp
  ultimately show ?thesis using w1(1,2) nest_below by blast
qed



text \<open>
  C31: Despawning a parent overwrites the markers of children that were despawned before it: a load
  of a frame between the two despawns enables the child again although it was despawned by then.
\<close>

theorem parent_despawn_overwrites_marker:
  assumes "ecs_laws E" and "e \<in> set (ents E w)" and "c <s g2" and "below E w e child"
    and "despawned_of E w child = Some g1" and "\<not> f <s g1" and "f <s g2"
  shows "\<exists>w1. despawn_rollback_command E (Some g2) (Some c) e w = Inr w1 \<and>
    enabled E (resurrect_entities E f w1) child \<and> \<not> enabled E (resurrect_entities E f w) child"
proof -
  let ?w1 = "cinsert_rec E DespawnedKey e (FrameVal g2) w"
  note ins = ecs_cinsert_rec [OF assms(1,2), of DespawnedKey "FrameVal g2"]
  have "despawn_rollback_command E (Some g2) (Some c) e w = Inr ?w1"
    using assms(2,3) by (simp add: despawn_rollback_command_def despawn_rollback_def)
  moreover have "enabled E (resurrect_entities E f ?w1) child"
    using assms(4,7) by (simp add: enabled_def resurrect_effect [OF assms(1)] despawned_of_def ins)
  moreover have "\<not> enabled E (resurrect_entities E f w) child"
    using assms(5,6) by (auto simp: enabled_def resurrect_effect [OF assms(1)] despawned_of_def
        split: option.splits)
  ultimately show ?thesis by blast
qed

theorem parent_despawn_overwrites_marker_witness:
  "\<exists>w1. despawn_rollback_command table_ecs (Some 5) (Some 1) 2 half_nest = Inr w1 \<and>
    enabled table_ecs (resurrect_entities table_ecs 3 w1) 3 \<and>
    \<not> enabled table_ecs (resurrect_entities table_ecs 3 half_nest) 3"
  by (rule parent_despawn_overwrites_marker [of _ _ _ _ _ _ 2])
    (simp_all add: nest_below despawned_of_def nest_get word_sless_alt)

end
