(* ===== verification/Checksum.thy ===== *)
theory Checksum
  imports ComponentSnapshot
begin

text \<open>
  \<open>src/snapshot/checksum.rs\<close>, \<open>entity_checksum.rs\<close>, \<open>component_checksum.rs\<close> and
  \<open>resource_checksum.rs\<close>: each tracked type contributes one part, an entity that carries a
  \<open>ChecksumPart\<close> and the flag of the type, and the parts are combined by exclusive or. The hasher
  (SeaHash) is a third-party library and an argument of the definitions; nothing is assumed of it
  but that it is a function of what is written to it.
\<close>

unbundle bit_operations_syntax

section \<open>Hashing\<close>

record 'h hasher =
  new_hasher :: 'h
  write_u64 :: "u64 \<Rightarrow> 'h \<Rightarrow> 'h"
  finish :: "'h \<Rightarrow> u64"

definition checksum_hasher :: "'h hasher \<Rightarrow> 'h" where
  "checksum_hasher H = new_hasher H"

text \<open>\<open>hash\<close> is the \<open>Hash\<close> implementation of the value's type.\<close>

definition from_value :: "'h hasher \<Rightarrow> ('v \<Rightarrow> 'h \<Rightarrow> 'h) \<Rightarrow> 'v \<Rightarrow> u128" where
  "from_value H hash value = ucast (finish H (hash value (checksum_hasher H)))"

definition default_hasher :: "'h hasher \<Rightarrow> ('v \<Rightarrow> 'h \<Rightarrow> 'h) \<Rightarrow> 'v \<Rightarrow> u64" where
  "default_hasher H hash value = finish H (hash value (checksum_hasher H))"

section \<open>The parts\<close>

text \<open>\<open>Query<&mut ChecksumPart, (Without<RollbackId>, With<ChecksumFlag<T>>)>\<close>\<close>

definition q_part :: "('w, 'v) ecs \<Rightarrow> checksum_flag \<Rightarrow> 'w \<Rightarrow> entity list" where
  "q_part E flag w = filter (\<lambda>e. enabled E w e \<and> cget E w RollbackIdKey e = None
     \<and> cget E w (FlagKey flag) e \<noteq> None \<and> part_of E w e \<noteq> None) (ents E w)"

text \<open>\<open>single_mut\<close> succeeds on exactly one match; otherwise a new entity is spawned.\<close>

definition upsert_part ::
  "('w, 'v) ecs \<Rightarrow> checksum_flag \<Rightarrow> entity \<Rightarrow> u128 \<Rightarrow> 'w \<Rightarrow> 'w \<times> 'v command list" where
  "upsert_part E flag new result w =
     (case q_part E flag w of
        [e] \<Rightarrow> (cset E PartKey e (PartVal result) w, [])
      | _ \<Rightarrow> (w, [Spawn new [(PartKey, PartVal result), (FlagKey flag, Marker)]]))"

text \<open>The \<open>u64\<close> casts of the two counts wrap, as \<open>as u64\<close> does.\<close>

definition active_entities :: "('w, 'v) ecs \<Rightarrow> 'w \<Rightarrow> nat" where
  "active_entities E w = length (filter (\<lambda>e. enabled E w e \<and> rid_of E w e \<noteq> None
     \<and> cget E w (FlagKey EntityFlag) e = None) (ents E w))"

definition entity_checksum :: "'h hasher \<Rightarrow> nat \<Rightarrow> rollback_ordered \<Rightarrow> u128" where
  "entity_checksum H active ordered =
     (let hasher = checksum_hasher H;
          hasher = write_u64 H (of_nat active) hasher;
          hasher = write_u64 H (of_nat (len_ordered ordered)) hasher
      in ucast (finish H hasher))"

definition update_entity_checksum ::
  "'h hasher \<Rightarrow> ('w, 'v) ecs \<Rightarrow> entity \<Rightarrow> rollback_ordered \<Rightarrow> 'w \<Rightarrow> 'w \<times> 'v command list" where
  "update_entity_checksum H E new ordered w =
     upsert_part E EntityFlag new (entity_checksum H (active_entities E w) ordered) w"

text \<open>\<open>Query<(&RollbackId, &C), (With<RollbackId>, Without<ChecksumFlag<C>>)>\<close>\<close>

definition q_checksum :: "('w, 'v) ecs \<Rightarrow> nat \<Rightarrow> 'w \<Rightarrow> (rollback_id \<times> 'v) list" where
  "q_checksum E t w = map (\<lambda>(e, r, c). (r, c)) (rollback_rows E w
     (\<lambda>e. if cget E w (FlagKey (CompFlag t)) e = None then comp_of E w t e else None))"

definition hash_row ::
  "'h hasher \<Rightarrow> ('v \<Rightarrow> u64) \<Rightarrow> rollback_ordered \<Rightarrow> rollback_id \<times> 'v \<Rightarrow> u64 \<Rightarrow> u64 res" where
  "hash_row H custom_hasher ordered = (\<lambda>(rollback, component) result.
     rbind (order ordered rollback) (\<lambda>n.
       let hasher = write_u64 H n (checksum_hasher H);
           hasher = write_u64 H (custom_hasher component) hasher
       in Inr (result XOR finish H hasher)))"

definition component_checksum ::
  "'h hasher \<Rightarrow> ('v \<Rightarrow> u64) \<Rightarrow> rollback_ordered \<Rightarrow> (rollback_id \<times> 'v) list \<Rightarrow> u128 res" where
  "component_checksum H custom_hasher ordered components =
     rbind (rfold (hash_row H custom_hasher ordered) components 0) (\<lambda>result.
       Inr (ucast (finish H (write_u64 H result (checksum_hasher H)))))"

definition update_component_checksum ::
  "'h hasher \<Rightarrow> ('v \<Rightarrow> u64) \<Rightarrow> ('w, 'v) ecs \<Rightarrow> nat \<Rightarrow> entity \<Rightarrow> rollback_ordered \<Rightarrow> 'w \<Rightarrow>
     ('w \<times> 'v command list) res" where
  "update_component_checksum H custom_hasher E t new ordered w =
     rbind (component_checksum H custom_hasher ordered (q_checksum E t w)) (\<lambda>result.
       Inr (upsert_part E (CompFlag t) new result w))"

definition resource_checksum :: "('v \<Rightarrow> u64) \<Rightarrow> 'v \<Rightarrow> u128" where
  "resource_checksum custom_hasher resource = ucast (custom_hasher resource)"

definition update_resource_checksum ::
  "('v \<Rightarrow> u64) \<Rightarrow> ('w, 'v) ecs \<Rightarrow> nat \<Rightarrow> entity \<Rightarrow> 'v \<Rightarrow> 'w \<Rightarrow> 'w \<times> 'v command list" where
  "update_resource_checksum custom_hasher E t new resource w =
     upsert_part E (ResFlag t) new (resource_checksum custom_hasher resource) w"

text \<open>The total of the frame: every part of an enabled entity.\<close>

definition q_all_parts :: "('w, 'v) ecs \<Rightarrow> 'w \<Rightarrow> u128 list" where
  "q_all_parts E w = List.map_filter (\<lambda>e. if enabled E w e then part_of E w e else None) (ents E w)"

definition update_checksum :: "u128 list \<Rightarrow> u128" where
  "update_checksum parts = foldl (\<lambda>a b. a XOR b) 0 parts"

section \<open>Order does not matter\<close>

interpretation xor_mset: comp_fun_commute "(XOR) :: 'a::len word \<Rightarrow> 'a word \<Rightarrow> 'a word"
  by unfold_locales (auto simp: fun_eq_iff xor.left_commute)

lemma xor_fold_mset: "foldl (XOR) a xs = a XOR fold_mset (XOR) 0 (mset xs)"
  for a :: "'a::len word"
  by (induction xs arbitrary: a) (simp_all add: xor.assoc)

lemma xor_fold_perm: "mset xs = mset ys \<Longrightarrow> foldl (XOR) a xs = foldl (XOR) a ys"
  for a :: "'a::len word"
  by (simp add: xor_fold_mset)

text \<open>What a row contributes depends on the order of its identity and on the component only.\<close>

definition row_hash :: "'h hasher \<Rightarrow> ('v \<Rightarrow> u64) \<Rightarrow> u64 res \<times> 'v \<Rightarrow> u64" where
  "row_hash H custom = (\<lambda>(n, c). case n of Inl p \<Rightarrow> 0
     | Inr n \<Rightarrow> finish H (write_u64 H (custom c) (write_u64 H n (checksum_hasher H))))"

definition keyed :: "rollback_ordered \<Rightarrow> (rollback_id \<times> 'v) list \<Rightarrow> (u64 res \<times> 'v) list" where
  "keyed ordered rows = map (\<lambda>(r, c). (order ordered r, c)) rows"

lemma hash_rows:
  assumes "\<forall>(n, c) \<in> set (keyed ordered rows). n \<in> range Inr"
  shows "rfold (hash_row H custom ordered) rows a
    = Inr (foldl (XOR) a (map (row_hash H custom) (keyed ordered rows)))"
  using assms
proof (induction rows arbitrary: a)
  case (Cons row rows)
  obtain r c where row: "row = (r, c)" by (cases row)
  from Cons.prems obtain n where "order ordered r = Inr n" by (auto simp: keyed_def row)
  then have "hash_row H custom ordered row a
      = Inr (a XOR row_hash H custom (order ordered r, c))"
    by (simp add: hash_row_def row row_hash_def Let_def)
  moreover have "\<forall>(n, c) \<in> set (keyed ordered rows). n \<in> range Inr"
    using Cons.prems by (auto simp: keyed_def)
  ultimately show ?case
    using Cons.IH by (simp add: keyed_def row)
qed (simp add: keyed_def)

lemma component_checksum_eq:
  assumes "\<forall>(n, c) \<in> set (keyed ordered rows). n \<in> range Inr"
  shows "component_checksum H custom ordered rows = Inr (ucast (finish H (write_u64 H
    (foldl (XOR) 0 (map (row_hash H custom) (keyed ordered rows))) (checksum_hasher H))))"
  using hash_rows [OF assms, of H custom 0] by (simp add: component_checksum_def)

lemma keyed_registered:
  assumes "ordered_ok ordered" "\<forall>(r, c) \<in> set rows. registered ordered r"
  shows "\<forall>(n, c) \<in> set (keyed ordered rows). n \<in> range Inr"
  using assms registered_order [OF assms(1)] by (fastforce simp: keyed_def)

text \<open>
  C23: Two peers whose worlds hold the same components under the same registration order agree
  on the component checksum, whatever entity ids they use and in whatever order their queries
  iterate; and when every identity is registered the checksum does not panic.
\<close>

theorem peers_agree_on_component_checksum:
  assumes "ordered_ok oa" and "ordered_ok ob"
    and "\<forall>(r, c) \<in> set (q_checksum Ea t wa). registered oa r"
    and "\<forall>(r, c) \<in> set (q_checksum Eb t wb). registered ob r"
    and "mset (map (\<lambda>(r, c). (order oa r, c)) (q_checksum Ea t wa))
       = mset (map (\<lambda>(r, c). (order ob r, c)) (q_checksum Eb t wb))"
  shows "component_checksum H custom oa (q_checksum Ea t wa)
       = component_checksum H custom ob (q_checksum Eb t wb)
    \<and> (\<exists>x. component_checksum H custom oa (q_checksum Ea t wa) = Inr x)"
proof -
  note a = component_checksum_eq [OF keyed_registered [OF assms(1,3)], of H custom]
  note b = component_checksum_eq [OF keyed_registered [OF assms(2,4)], of H custom]
  have "mset (map (row_hash H custom) (keyed oa (q_checksum Ea t wa)))
      = mset (map (row_hash H custom) (keyed ob (q_checksum Eb t wb)))"
    using arg_cong [OF assms(5), of "image_mset (row_hash H custom)"]
    unfolding keyed_def mset_map [symmetric, of "row_hash H custom"] .
  from xor_fold_perm [OF this, of 0] show ?thesis by (simp add: a b)
qed

definition toy_hasher :: "u64 hasher" where
  "toy_hasher = \<lparr>new_hasher = 7, write_u64 = (\<lambda>x h. 31 * h + x), finish = (\<lambda>h. h)\<rparr>"

definition peer_a :: "int table" where
  "peer_a = \<lparr>table_rows = [(2, [(RollbackIdKey, IdVal (RollbackId 2)), (UserKey 0, UserVal 5)]),
     (3, [(RollbackIdKey, IdVal (RollbackId 3)), (UserKey 0, UserVal 6)])], next_id = 4\<rparr>"

definition peer_b :: "int table" where
  "peer_b = \<lparr>table_rows = [(9, [(RollbackIdKey, IdVal (RollbackId 9)), (UserKey 0, UserVal 6)]),
     (7, [(RollbackIdKey, IdVal (RollbackId 7)), (UserKey 0, UserVal 5)])], next_id = 10\<rparr>"

definition order_a :: rollback_ordered where
  "order_a = push_ordered (RollbackId 3) (push_ordered (RollbackId 2) default_ordered)"

definition order_b :: rollback_ordered where
  "order_b = push_ordered (RollbackId 9) (push_ordered (RollbackId 7) default_ordered)"

theorem peers_agree_on_component_checksum_witness:
  "component_checksum toy_hasher word_of_int order_a (q_checksum table_ecs 0 peer_a)
     = component_checksum toy_hasher word_of_int order_b (q_checksum table_ecs 0 peer_b)"
proof -
  have rows: "q_checksum table_ecs 0 peer_a = [(RollbackId 2, 5), (RollbackId 3, 6)]"
    "q_checksum table_ecs 0 peer_b = [(RollbackId 9, 6), (RollbackId 7, 5)]"
    by code_simp+
  have ok: "ordered_ok order_a" "ordered_ok order_b"
    by (simp_all add: ordered_ok_def order_a_def order_b_def push_ordered_def default_ordered_def hm_insert_def)
  have keys: "order order_a (RollbackId 2) = Inr 0" "order order_a (RollbackId 3) = Inr 1"
    "order order_b (RollbackId 7) = Inr 0" "order order_b (RollbackId 9) = Inr 1"
    by (simp_all add: order_def order_a_def order_b_def push_ordered_def default_ordered_def hm_insert_def hm_get_def)
  have "registered order_a (RollbackId 2)" "registered order_a (RollbackId 3)"
    "registered order_b (RollbackId 7)" "registered order_b (RollbackId 9)"
    by (simp_all add: order_a_def order_b_def)
  then show ?thesis
    using peers_agree_on_component_checksum [OF ok, of table_ecs 0 peer_a table_ecs peer_b toy_hasher word_of_int]
    by (simp add: rows keys)
qed

text \<open>
  The total checksum does not depend on the order of the parts, so exchanging the parts of
  two entities goes unnoticed, and two equal parts cancel out.
\<close>

lemma total_checksum_blind_spots:
  assumes "mset ps = mset qs"
  shows "update_checksum ps = update_checksum qs \<and> update_checksum (c # c # ps) = update_checksum qs"
  using assms by (simp add: update_checksum_def xor_fold_mset)

lemma total_checksum_blind_spots_example:
  "update_checksum [3, 5, 9] = update_checksum [9, 3, 5]
    \<and> update_checksum (4 # 4 # [3, 5, 9]) = update_checksum [9, 3, 5]"
  by (rule total_checksum_blind_spots) simp

section \<open>One part per type\<close>

lemma set_q_part:
  "ecs_laws E \<Longrightarrow> e \<in> set (q_part E flag w) \<longleftrightarrow> enabled E w e \<and> cget E w RollbackIdKey e = None
     \<and> cget E w (FlagKey flag) e \<noteq> None \<and> part_of E w e \<noteq> None"
  by (auto simp: q_part_def part_of_def dest: ecs_live split: option.splits)

lemma spawn_part:
  assumes "ecs_laws E" "e \<notin> set (ents E w)"
  obtains w2 where
    "apply_commands E [Spawn e [(PartKey, PartVal x), (FlagKey flag, Marker)]] (w, o1) = (w2, o1)"
    "\<forall>k e'. cget E w2 k e' = (if e' = e then (if k = PartKey then Some (PartVal x)
       else if k = FlagKey flag then Some Marker else None) else cget E w k e')"
    "set (ents E w2) = insert e (set (ents E w))"
proof -
  let ?w1 = "spawn_at E e w"
  let ?w2 = "cinsert E PartKey e (PartVal x) ?w1"
  let ?w3 = "cinsert E (FlagKey flag) e Marker ?w2"
  note s = ecs_spawn_at [OF assms]
  have "insertable E ?w1 PartKey e (PartVal x)" by (simp add: insertable_def s)
  note l2 = ecs_cinsert [OF assms(1) this]
  have "insertable E ?w2 (FlagKey flag) e Marker" by (simp add: insertable_def l2 s)
  note l3 = ecs_cinsert [OF assms(1) this]
  show ?thesis
    by (rule that [of ?w3])
      (auto simp: apply_command_simple write_bundle_def l3 l2 s ecs_dead [OF assms])
qed

text \<open>
  Updating a checksum part keeps one part per type: when there was at most one entity for the
  flag, there is exactly one afterwards, it holds the new value, and neither the parts of other
  types nor any other entity change.
\<close>

theorem upsert_keeps_one_part:
  fixes E :: "('w, 'v) ecs"
  assumes "ecs_laws E" and "length (q_part E flag w) \<le> 1" and "new \<notin> set (ents E w)"
    and "upsert_part E flag new result w = (w1, cs)"
  shows "\<exists>w2 e. apply_commands E cs (w1, o1) = (w2, o1) \<and>
    (\<forall>e'. e' \<in> set (q_part E flag w2) \<longleftrightarrow> e' = e) \<and> part_of E w2 e = Some result \<and>
    (\<forall>flag'. flag' \<noteq> flag \<longrightarrow> set (q_part E flag' w2) = set (q_part E flag' w)) \<and>
    (\<forall>k e'. e' \<noteq> e \<longrightarrow> cget E w2 k e' = cget E w k e')"
proof (cases "q_part E flag w")
  case Nil
  obtain w2 where w2: "apply_commands E [Spawn new [(PartKey, PartVal result), (FlagKey flag, Marker)]] (w, o1) = (w2, o1)"
    "\<forall>k e'. cget E w2 k e' = (if e' = new then (if k = PartKey then Some (PartVal result)
       else if k = FlagKey flag then Some Marker else None) else cget E w k e')"
    "set (ents E w2) = insert new (set (ents E w))"
    by (rule spawn_part [OF assms(1,3)])
  have none: "\<not> (enabled E w e \<and> cget E w RollbackIdKey e = None \<and> cget E w (FlagKey flag) e \<noteq> None
      \<and> part_of E w e \<noteq> None)" for e
    using set_q_part [OF assms(1), of e flag w] by (simp add: Nil)
  have dead: "cget E w k new = None" for k using ecs_dead [OF assms(1,3)] .
  have "apply_commands E cs (w1, o1) = (w2, o1)"
    using assms(4) w2(1) by (simp add: upsert_part_def Nil)
  moreover have "e' \<in> set (q_part E flag w2) \<longleftrightarrow> e' = new" for e'
    using none [of e'] by (auto simp: set_q_part [OF assms(1)] enabled_def part_of_def w2(2))
  moreover have "set (q_part E flag' w2) = set (q_part E flag' w)" if "flag' \<noteq> flag" for flag'
    using that by (auto simp: set_q_part [OF assms(1)] enabled_def part_of_def w2(2) dead split: if_splits)
  moreover have "part_of E w2 new = Some result" by (simp add: part_of_def w2(2))
  ultimately show ?thesis using w2(2) by (intro exI [of _ w2] exI [of _ new]) simp
next
  case (Cons e es)
  then have e: "q_part E flag w = [e]" using assms(2) by simp
  then have me: "enabled E w e" "cget E w RollbackIdKey e = None" "cget E w (FlagKey flag) e \<noteq> None"
    "part_of E w e \<noteq> None"
    using set_q_part [OF assms(1), of e flag w] by auto
  then obtain x where "cget E w PartKey e = Some x" by (auto simp: part_of_def split: option.splits)
  note set = ecs_cset [OF assms(1) this, of "PartVal result"]
  have other: "e' \<in> set (q_part E flag w) \<longleftrightarrow> e' = e" for e' by (simp add: e)
  have part: "part_of E (cset E PartKey e (PartVal result) w) e' =
      (if e' = e then Some result else part_of E w e')" for e'
    by (simp add: part_of_def set)
  have w1: "w1 = cset E PartKey e (PartVal result) w" "cs = []"
    using assms(4) by (simp_all add: upsert_part_def e)
  have same: "e' \<in> set (q_part E flag' w1) \<longleftrightarrow> e' \<in> set (q_part E flag' w)" for e' flag'
    using me(4) by (auto simp: set_q_part [OF assms(1)] enabled_def w1 set part)
  show ?thesis
    by (intro exI [of _ w1] exI [of _ e]) (auto simp: w1(2) same [unfolded w1(1)] other part set w1(1) split: if_splits)
qed

theorem upsert_keeps_one_part_witness:
  "\<exists>w2 e. apply_commands table_ecs (snd (upsert_part table_ecs EntityFlag 11 77 demo_world))
      (demo_world, default_ordered) = (w2, default_ordered) \<and>
     (\<forall>e'. e' \<in> set (q_part table_ecs EntityFlag w2) \<longleftrightarrow> e' = e) \<and> part_of table_ecs w2 e = Some 77"
proof -
  have q: "q_part table_ecs EntityFlag demo_world = []"
    by code_simp
  then have u: "upsert_part table_ecs EntityFlag 11 77 demo_world =
      (demo_world, [Spawn 11 [(PartKey, PartVal 77), (FlagKey EntityFlag, Marker)]])"
    by (simp add: upsert_part_def)
  have new: "11 \<notin> set (ents table_ecs demo_world)" by (simp add: t_ents_def demo_world_def)
  have len: "length (q_part table_ecs EntityFlag demo_world) \<le> 1" by (simp add: q)
  obtain w2 e where "apply_commands table_ecs [Spawn 11 [(PartKey, PartVal 77), (FlagKey EntityFlag, Marker)]]
      (demo_world, default_ordered) = (w2, default_ordered)"
     "\<forall>e'. e' \<in> set (q_part table_ecs EntityFlag w2) \<longleftrightarrow> e' = e" "part_of table_ecs w2 e = Some 77"
    using upsert_keeps_one_part [OF table_ecs_laws len new u, of default_ordered] by (elim exE conjE)
  then show ?thesis unfolding u snd_conv by blast
qed

end
