(* ===== verification/GgrsTime.thy ===== *)
theory GgrsTime
  imports Prelude
begin

text \<open>
  \<open>src/time.rs\<close>: the clock that advances with the frame counter. Bevy's \<open>Time\<close> is not part of the
  repository: its operations are the record \<open>time_ops\<close>, an argument of the definitions, and what
  its documentation says of \<open>advance_to\<close> is \<open>time_laws\<close>. Durations are natural numbers of
  nanoseconds, the frame rate a 64-bit \<open>usize\<close>. Arithmetic is checked, as in a build with overflow
  checks; the properties show where no check can fail.
\<close>

section \<open>The clock\<close>

record 't time_ops =
  elapsed :: "'t \<Rightarrow> nat"
  delta :: "'t \<Rightarrow> nat"
  advance_to :: "nat \<Rightarrow> 't \<Rightarrow> 't res"
  as_generic :: "'t \<Rightarrow> 't"

text \<open>\<open>advance_to\<close> panics when asked to go back, and otherwise records the step it made.\<close>

definition time_laws :: "'t time_ops \<Rightarrow> bool" where
  "time_laws T \<longleftrightarrow> (\<forall>d t. if d < elapsed T t then advance_to T d t = Inl TimeBackwards
     else \<exists>t'. advance_to T d t = Inr t' \<and> elapsed T t' = d \<and> delta T t' = d - elapsed T t)"

text \<open>\<open>as_generic\<close> forgets the context of a clock and keeps its times.\<close>

definition generic_laws :: "'t time_ops \<Rightarrow> bool" where
  "generic_laws T \<longleftrightarrow> (\<forall>t. elapsed T (as_generic T t) = elapsed T t \<and> delta T (as_generic T t) = delta T t)"

definition checked_mul :: "u64 \<Rightarrow> u64 \<Rightarrow> u64 res" where
  "checked_mul a b = (if uint a * uint b < 2 ^ 64 then Inr (a * b) else Inl Overflow)"

definition checked_div :: "u64 \<Rightarrow> u64 \<Rightarrow> u64 res" where
  "checked_div a b = (if b = 0 then Inl DivideByZero else Inr (a div b))"

definition DEFAULT_FRAME_RATE :: u64 where
  "DEFAULT_FRAME_RATE = 60"

text \<open>\<open>frame.0 as u64\<close> sign-extends.\<close>

definition update_time :: "'t time_ops \<Rightarrow> u64 \<Rightarrow> i32 \<Rightarrow> 't \<Rightarrow> 't res" where
  "update_time T framerate frame time =
     (let this_frame = (scast frame :: u64)
      in rbind (checked_mul this_frame 1000000000) (\<lambda>scaled.
         rbind (checked_div scaled framerate) (\<lambda>nanos.
         let runtime = unat nanos in advance_to T runtime time)))"

text \<open>Both systems overwrite the default clock, whatever it held.\<close>

definition replace_default_with_ggrs :: "'t time_ops \<Rightarrow> 't \<Rightarrow> 't \<Rightarrow> 't" where
  "replace_default_with_ggrs T ggrs_time default_time = as_generic T ggrs_time"

definition replace_default_with_virtual :: "'t time_ops \<Rightarrow> 't \<Rightarrow> 't \<Rightarrow> 't" where
  "replace_default_with_virtual T virtual_time default_time = as_generic T virtual_time"

section \<open>The time of a frame\<close>

definition frame_nanos :: "u64 \<Rightarrow> i32 \<Rightarrow> nat" where
  "frame_nanos framerate frame = nat (sint frame * 1000000000 div uint framerate)"

lemma uint_scast_nonneg: "0 <=s f \<Longrightarrow> uint (scast f :: u64) = sint f" for f :: i32
proof -
  assume "0 <=s f"
  then have "0 \<le> sint f" "sint f < 2 ^ 64"
    using sint_i32_bounds [of f] by (simp_all add: word_sle_eq)
  moreover have "(scast f :: u64) = word_of_int (sint f)" by (rule scast_eq)
  ultimately show ?thesis
    by (simp only: uint_word_of_int) (rule mod_pos_pos_trivial; simp)
qed

lemma update_time_eq:
  assumes "0 <=s f" "rate \<noteq> 0"
  shows "update_time T rate f t = advance_to T (frame_nanos rate f) t"
proof -
  note u = uint_scast_nonneg [OF assms(1)]
  have b: "0 \<le> sint f" "sint f * 1000000000 < 2 ^ 64"
    using sint_i32_bounds [of f] assms(1) by (simp_all add: word_sle_eq)
  have m: "uint ((scast f :: u64) * 1000000000) = sint f * 1000000000"
    using b by (simp only: uint_word_ariths) (simp add: u)
  have "unat ((scast f :: u64) * 1000000000 div rate) = nat (uint ((scast f :: u64) * 1000000000 div rate))"
    by simp
  also have "\<dots> = frame_nanos rate f"
    by (simp only: frame_nanos_def uint_div_distrib m)
  finally have d: "unat ((scast f :: u64) * 1000000000 div rate) = frame_nanos rate f" .
  have "uint (1000000000 :: u64) = 1000000000" by simp
  then have c: "checked_mul (scast f) 1000000000 = Inr ((scast f :: u64) * 1000000000)"
    using b(2) by (simp only: checked_mul_def u if_True)
  show ?thesis
    unfolding update_time_def Let_def c rbind_simps checked_div_def if_not_P [OF assms(2)] d ..
qed

lemma time_advance:
  "time_laws T \<Longrightarrow> elapsed T t \<le> d \<Longrightarrow>
     \<exists>t'. advance_to T d t = Inr t' \<and> elapsed T t' = d \<and> delta T t' = d - elapsed T t"
  by (meson linorder_not_less time_laws_def)

lemma time_back: "time_laws T \<Longrightarrow> d < elapsed T t \<Longrightarrow> advance_to T d t = Inl TimeBackwards"
  by (simp add: time_laws_def)

lemma div_bounds: "0 < c \<Longrightarrow> c * (a div c) \<le> a \<and> a < c * (a div c + 1)" for a c :: int
proof -
  assume c: "0 < c"
  have "c * (a div c) + a mod c = a" by (rule mult_div_mod_eq)
  then show ?thesis
    using pos_mod_bound [OF c, of a] pos_mod_sign [OF c, of a] unfolding distrib_left by linarith
qed

lemma div_add_step: "0 < c \<Longrightarrow> (a + b) div c - a div c \<in> {b div c, b div c + 1}" for a b c :: int
proof -
  assume c: "0 < c"
  have r: "0 \<le> a mod c + b mod c" "a mod c + b mod c < 2 * c"
    using pos_mod_bound [OF c, of a] pos_mod_bound [OF c, of b]
      pos_mod_sign [OF c, of a] pos_mod_sign [OF c, of b] by linarith+
  have "(a mod c + b mod c) div c \<in> {0, 1}"
  proof (cases "a mod c + b mod c < c")
    case True
    then show ?thesis using r(1) by (simp add: div_pos_pos_trivial)
  next
    case False
    then have "(a mod c + b mod c) div c = (a mod c + b mod c - c) div c + 1"
      using c by (intro div_pos_geq) simp_all
    moreover have "(a mod c + b mod c - c) div c = 0"
      using r False by (intro div_pos_pos_trivial) simp_all
    ultimately show ?thesis by simp
  qed
  moreover have "(a + b) div c = a div c + b div c + (a mod c + b mod c) div c" by (rule div_add1_eq)
  ultimately show ?thesis by auto
qed

lemma frame_nanos_real:
  assumes "0 <=s f" "0 < rate"
  shows "uint rate * int (frame_nanos rate f) \<le> sint f * 1000000000"
    "sint f * 1000000000 < uint rate * (int (frame_nanos rate f) + 1)"
proof -
  have r: "0 < uint rate" using assms(2) by (simp add: word_less_def)
  have f: "0 \<le> sint f" using assms(1) by (simp add: word_sle_eq)
  have "int (frame_nanos rate f) = sint f * 1000000000 div uint rate"
    using r f by (simp add: frame_nanos_def pos_imp_zdiv_nonneg_iff)
  with div_bounds [OF r, of "sint f * 1000000000"]
  show "uint rate * int (frame_nanos rate f) \<le> sint f * 1000000000"
    "sint f * 1000000000 < uint rate * (int (frame_nanos rate f) + 1)"
    by simp_all
qed

lemma frame_nanos_mono:
  assumes "0 <=s f" "f <=s g" "0 < rate"
  shows "frame_nanos rate f \<le> frame_nanos rate g"
  using assms by (simp add: frame_nanos_def word_sle_eq word_less_def nat_mono zdiv_mono1)

text \<open>
  C38: On every frame the clock reads the frame number divided by the frame rate, rounded down to a
  nanosecond, with no error carried from frame to frame: the multiplication does not overflow, the
  clock does not panic, and the step from one frame to the next is the frame duration, rounded down
  or up.
\<close>

theorem time_follows_frames:
  assumes "time_laws T" and "0 < rate" and "0 <=s f" and "f \<noteq> 2147483647"
    and "elapsed T t = frame_nanos rate f"
  shows "\<exists>t'. update_time T rate (f + 1) t = Inr t' \<and>
    uint rate * int (elapsed T t') \<le> (sint f + 1) * 1000000000 \<and>
    (sint f + 1) * 1000000000 < uint rate * (int (elapsed T t') + 1) \<and>
    int (delta T t') \<in> {1000000000 div uint rate, 1000000000 div uint rate + 1}"
proof -
  have ne: "sint f \<noteq> 2147483647"
  proof
    assume "sint f = 2147483647"
    then have "word_of_int (sint f) = (2147483647 :: i32)" by simp
    then show False using assms(4) by simp
  qed
  then have s: "sint (f + 1) = sint f + 1"
    using sint_i32_bounds [of f] by (simp add: sint_word_ariths signed_take_bit_int_eq_self_iff)
  have g: "0 <=s f + 1" "f <=s f + 1" using assms(3) by (simp_all add: word_sle_eq s)
  have r: "rate \<noteq> 0" "0 < uint rate" using assms(2) by (auto simp: word_less_def)
  obtain t' where t': "advance_to T (frame_nanos rate (f + 1)) t = Inr t'"
    "elapsed T t' = frame_nanos rate (f + 1)"
    "delta T t' = frame_nanos rate (f + 1) - frame_nanos rate f"
    using time_advance [OF assms(1), of t "frame_nanos rate (f + 1)"] assms(5)
      frame_nanos_mono [OF assms(3) g(2) assms(2)] by auto
  have d: "int (delta T t') = (sint f + 1) * 1000000000 div uint rate - sint f * 1000000000 div uint rate"
    using frame_nanos_mono [OF assms(3) g(2) assms(2)] r(2) g(1) assms(3)
    by (simp add: t'(3) frame_nanos_def s word_sle_eq of_nat_diff pos_imp_zdiv_nonneg_iff)
  from div_add_step [OF r(2), of "sint f * 1000000000" 1000000000]
  have "int (delta T t') \<in> {1000000000 div uint rate, 1000000000 div uint rate + 1}"
    by (simp add: d algebra_simps)
  with frame_nanos_real [OF g(1) assms(2)] t' show ?thesis
    by (simp add: update_time_eq [OF g(1) r(1)] s)
qed

text \<open>A clock that keeps its laws, for the witnesses.\<close>

definition plain_clock :: "(nat \<times> nat) time_ops" where
  "plain_clock = \<lparr>elapsed = fst, delta = snd,
     advance_to = (\<lambda>d t. if d < fst t then Inl TimeBackwards else Inr (d, d - fst t)), as_generic = (\<lambda>t. t)\<rparr>"

lemma plain_clock_simps [simp]: "elapsed plain_clock = fst" "delta plain_clock = snd"
  "time_laws plain_clock" "as_generic plain_clock = (\<lambda>t. t)" "generic_laws plain_clock"
  by (simp_all add: time_laws_def generic_laws_def plain_clock_def)

theorem time_follows_frames_witness:
  "\<exists>t'. update_time plain_clock 60 8 (116666666, 16666666) = Inr t' \<and>
     60 * int (elapsed plain_clock t') \<le> 8000000000 \<and> 8000000000 < 60 * (int (elapsed plain_clock t') + 1)"
proof -
  have n: "frame_nanos 60 7 = 116666666" by (simp add: frame_nanos_def)
  have "(0 :: u64) < 60" "(0 :: i32) <=s 7" "(7 :: i32) \<noteq> 2147483647"
    "elapsed plain_clock (116666666, 16666666) = frame_nanos 60 7"
    by (simp_all add: n word_sle_eq)
  from time_follows_frames [OF plain_clock_simps(3) this] obtain t' where
    "update_time plain_clock 60 (7 + 1) (116666666, 16666666) = Inr t'"
    "uint (60 :: u64) * int (elapsed plain_clock t') \<le> (sint (7 :: i32) + 1) * 1000000000"
    "(sint (7 :: i32) + 1) * 1000000000 < uint (60 :: u64) * (int (elapsed plain_clock t') + 1)"
    by blast
  then show ?thesis by auto
qed

text \<open>
  The clock panics when its target lies before what it shows. That is what a session started
  after another one meets: the frame counter starts again at 0, the clock does not, and the first
  advance of the new session asks it to go back.
\<close>

lemma restarted_frames_panic:
  assumes "time_laws T" and "0 <=s f" and "1 <s f" and "0 < rate" and "rate \<le> 1000000000"
    and "elapsed T t = frame_nanos rate f"
  shows "update_time T rate 1 t = Inl TimeBackwards"
proof -
  have r: "rate \<noteq> 0" "0 < uint rate" "uint rate \<le> 1000000000"
    using assms(4,5) by (auto simp: word_less_def word_le_def)
  have f: "2 \<le> sint f" using assms(3) by (simp add: word_sless_alt)
  have "1000000000 div uint rate < 2000000000 div uint rate"
  proof -
    have "1000000000 div uint rate + 1 = (1000000000 + uint rate) div uint rate"
      using r(2) by (simp only: div_add_self2)
    also have "\<dots> \<le> 2000000000 div uint rate"
      using r by (intro zdiv_mono1) simp_all
    finally show ?thesis by simp
  qed
  also have "\<dots> \<le> sint f * 1000000000 div uint rate"
    using r f by (intro zdiv_mono1) simp_all
  finally have less: "1000000000 div uint rate < sint f * 1000000000 div uint rate" .
  moreover have "0 \<le> 1000000000 div uint rate"
    using r(2) by (simp add: pos_imp_zdiv_nonneg_iff)
  ultimately have "0 < sint f * 1000000000 div uint rate" by linarith
  with less have "frame_nanos rate 1 < frame_nanos rate f"
    by (simp add: frame_nanos_def zless_nat_conj)
  then show ?thesis
    using time_back [OF assms(1)] assms(6) by (simp add: update_time_eq [OF _ r(1)] word_sle_eq)
qed

lemma restarted_frames_panic_example:
  "update_time plain_clock 60 1 (116666666, 16666666) = Inl TimeBackwards"
  by (rule restarted_frames_panic [of _ 7])
    (simp_all add: frame_nanos_def word_sle_eq word_sless_alt)

end
