(* ===== verification/World.thy ===== *)
theory World
  imports ChildOfSnapshot ResourceSnapshot MapEntities Despawn Checksum GgrsTime
begin

text \<open>
  The world the schedules run on: the entity store, the resources of the crate and of the user, and
  the commands that wait for the next \<open>ApplyDeferred\<close>. A resource that may be absent is an option. The
  user's types and how the app registered them are the record \<open>app\<close>.
\<close>

section \<open>State\<close>

datatype ('v, 't) world_command =
    EcsCommand "'v command"
  | ResCommand nat "'v res_command"
  | OrderedCommand "rollback_ordered res_command"
  | TimeCommand "'t res_command"

text \<open>\<open>Session\<close> of \<open>src/lib.rs\<close>; the state of a GGRS session is abstract.\<close>

datatype 'x session = SyncTest 'x | P2P 'x | Spectator 'x

text \<open>
  What the code takes from the \<open>ggrs\<close> crate: statuses, errors, requests, and the methods it calls on
  a session. A request to save carries the cell that \<open>cell.save\<close> fills; the session shares the cell, so
  filling it is an update of the session.
\<close>

datatype input_status = Confirmed | Predicted | Disconnected

datatype ggrs_error =
    PredictionThreshold
  | MismatchedChecksum (current_frame: i32) (mismatched_frames: "i32 list")
  | OtherError string

datatype 'i ggrs_request =
    SaveGameState nat i32
  | LoadGameState i32
  | AdvanceFrame "('i \<times> input_status) list"

datatype session_state = Synchronizing | Running

record ('x, 'i) session_ops =
  num_players :: "'x \<Rightarrow> nat"
  local_player_handles :: "'x \<Rightarrow> nat list"
  add_local_input :: "nat \<Rightarrow> 'i \<Rightarrow> 'x \<Rightarrow> ggrs_error + 'x"
  advance_frame :: "'x \<Rightarrow> (ggrs_error + 'i ggrs_request list) \<times> 'x"
  current_state :: "'x \<Rightarrow> session_state"
  poll_remote_clients :: "'x \<Rightarrow> 'x"
  frames_ahead :: "'x \<Rightarrow> i32"
  max_prediction :: "'x \<Rightarrow> nat"
  confirmed_frame :: "'x \<Rightarrow> i32"
  check_distance :: "'x \<Rightarrow> nat"
  cell_save :: "nat \<Rightarrow> i32 \<Rightarrow> u128 option \<Rightarrow> 'x \<Rightarrow> 'x"

record fixed_timestep_data =
  accumulator :: nat     \<comment> \<open>nanoseconds\<close>
  run_slow :: bool

record ('w, 'v, 's, 't, 'i, 'x) world =
  ecs_state :: 'w
  pending :: "('v, 't) world_command list"
  rollback_ordered_res :: "rollback_ordered option"
  rollback_frame_count :: "i32 option"
  confirmed_frame_count :: "i32 option"
  max_prediction_window :: "nat option"
  entity_map_res :: "rollback_entity_map option"
  user_resource :: "nat \<Rightarrow> 'v option"
  ggrs_time :: "'t option"
  checksum_res :: "u128 option"
  entity_snapshots :: "entity component_snapshot ggrs_snapshots"
  childof_snapshots :: "entity component_snapshot ggrs_snapshots"
  comp_snapshots :: "nat \<Rightarrow> 's component_snapshot ggrs_snapshots"
  res_snapshots :: "nat \<Rightarrow> 's option ggrs_snapshots"
  ordered_snapshots :: "rollback_ordered option ggrs_snapshots"
  time_snapshots :: "'t option ggrs_snapshots"
  last_confirmed :: i32                         \<comment> \<open>the \<open>Local\<close> of \<open>despawn_confirmed_entities\<close>\<close>
  schedules :: "label list"                     \<comment> \<open>the rollback schedules that are present\<close>
  session_res :: "'x session option"
  local_players :: "nat list option"
  local_inputs :: "(nat \<times> 'i) list option"
  player_inputs :: "('i \<times> input_status) list option"
  frame_rate :: "u64 option"
  default_time :: "'t option"                   \<comment> \<open>\<open>Time<()>\<close>\<close>
  virtual_time :: "'t option"                   \<comment> \<open>\<open>Time<Virtual>\<close>\<close>
  fixed_timestep :: "fixed_timestep_data option"

text \<open>
  What the app consists of: third-party operations, the orders in which the hash maps of a load
  iterate, the registered types with their strategies, mappers and hashers, the user's schedules \<open>GgrsSchedule\<close> and
  \<open>ReadInputs\<close>, and the observers of \<open>SyncTestMismatch\<close>.
\<close>

datatype mutability = Mutable | Immutable

record ('w, 'v, 's, 't, 'i, 'x, 'h) app =
  app_ecs :: "('w, 'v) ecs"
  app_time :: "'t time_ops"
  app_hasher :: "'h hasher"
  app_session :: "('x, 'i) session_ops"
  app_orders :: load_orders
  app_map_order :: "(entity \<times> entity) list \<Rightarrow> (entity \<times> entity) list"
  comp_plugins :: "(nat \<times> mutability \<times> ('v, 's) strategy) list"
  res_plugins :: "(nat \<times> ('v, 's) strategy) list"
  comp_map_plugins :: "(nat \<times> ((entity \<Rightarrow> entity) \<Rightarrow> 'v \<Rightarrow> 'v)) list"
  res_map_plugins :: "(nat \<times> ((entity \<Rightarrow> entity) \<Rightarrow> 'v \<Rightarrow> 'v)) list"
  comp_checksums :: "(nat \<times> ('v \<Rightarrow> u64)) list"
  res_checksums :: "(nat \<times> ('v \<Rightarrow> u64)) list"
  ggrs_schedule :: "('w, 'v, 's, 't, 'i, 'x) world \<Rightarrow> ('w, 'v, 's, 't, 'i, 'x) world res"
  read_inputs :: "('w, 'v, 's, 't, 'i, 'x) world \<Rightarrow> ('w, 'v, 's, 't, 'i, 'x) world res"
  on_mismatch :: "i32 \<Rightarrow> i32 list \<Rightarrow> ('w, 'v, 's, 't, 'i, 'x) world \<Rightarrow> ('w, 'v, 's, 't, 'i, 'x) world res"

text \<open>\<open>Res<T>\<close> and \<open>ResMut<T>\<close> of an absent resource panic.\<close>

abbreviation require :: "string \<Rightarrow> 'a option \<Rightarrow> 'a res" where
  "require name r \<equiv> expect (MissingResource name) r"

section \<open>Deferred commands\<close>

definition run_ecs_command ::
  "('w, 'v) ecs \<Rightarrow> 'v command \<Rightarrow> ('w, 'v, 's, 't, 'i, 'x) world \<Rightarrow> ('w, 'v, 's, 't, 'i, 'x) world res" where
  "run_ecs_command E c w =
     (case rollback_ordered_res w of
        Some ordered \<Rightarrow>
          let (e, ordered1) = apply_command E c (ecs_state w, ordered)
          in Inr (w\<lparr>ecs_state := e, rollback_ordered_res := Some ordered1\<rparr>)
      | None \<Rightarrow>
          let e = apply_simple E c (ecs_state w)
          in if adds_rollback E c (ecs_state w) \<and> rid_of E e (target c) = None
             then Inl (MissingResource ''RollbackOrdered'')
             else Inr (w\<lparr>ecs_state := e\<rparr>))"

fun run_world_command ::
  "('w, 'v) ecs \<Rightarrow> ('v, 't) world_command \<Rightarrow> ('w, 'v, 's, 't, 'i, 'x) world \<Rightarrow> ('w, 'v, 's, 't, 'i, 'x) world res" where
  "run_world_command E (EcsCommand c) w = run_ecs_command E c w"
| "run_world_command E (ResCommand i c) w =
     Inr (w\<lparr>user_resource := (user_resource w)(i := apply_res_command c (user_resource w i))\<rparr>)"
| "run_world_command E (OrderedCommand c) w =
     Inr (w\<lparr>rollback_ordered_res := apply_res_command c (rollback_ordered_res w)\<rparr>)"
| "run_world_command E (TimeCommand c) w =
     Inr (w\<lparr>ggrs_time := apply_res_command c (ggrs_time w)\<rparr>)"

text \<open>\<open>ApplyDeferred\<close>, and what \<open>Schedule::run\<close> does at the end of a schedule.\<close>

definition apply_deferred ::
  "('w, 'v) ecs \<Rightarrow> ('w, 'v, 's, 't, 'i, 'x) world \<Rightarrow> ('w, 'v, 's, 't, 'i, 'x) world res" where
  "apply_deferred E w = rfold (run_world_command E) (pending w) (w\<lparr>pending := []\<rparr>)"

text \<open>Ids that \<open>Commands::spawn\<close> has reserved but not spawned yet.\<close>

fun is_spawn :: "('v, 't) world_command \<Rightarrow> bool" where
  "is_spawn (EcsCommand (Spawn e bundle)) = True"
| "is_spawn c = False"

definition next_reserved :: "('w, 'v) ecs \<Rightarrow> ('w, 'v, 's, 't, 'i, 'x) world \<Rightarrow> nat \<Rightarrow> entity" where
  "next_reserved E w n = reserve E (ecs_state w) (length (filter is_spawn (pending w)) + n)"

section \<open>Schedules\<close>

text \<open>
  A schedule runs its systems in an order that Bevy chooses: a rearrangement of the registered
  systems in which none comes after one it must precede.
\<close>

definition admissible :: "('a \<Rightarrow> 'a \<Rightarrow> bool) \<Rightarrow> 'a list \<Rightarrow> 'a list \<Rightarrow> bool" where
  "admissible before systems xs \<longleftrightarrow> mset xs = mset systems \<and> sorted_wrt (\<lambda>a b. \<not> before b a) xs"

definition run_schedule ::
  "('w, 'v) ecs \<Rightarrow> ('a \<Rightarrow> ('w, 'v, 's, 't, 'i, 'x) world \<Rightarrow> ('w, 'v, 's, 't, 'i, 'x) world res) \<Rightarrow> 'a list \<Rightarrow>
     ('w, 'v, 's, 't, 'i, 'x) world \<Rightarrow> ('w, 'v, 's, 't, 'i, 'x) world res" where
  "run_schedule E run xs w = rbind (rfold run xs w) (apply_deferred E)"

end
