(* ===== verification/LoadSchedule.thy ===== *)
theory LoadSchedule
  imports World
begin

text \<open>
  The \<open>LoadWorld\<close> schedule: the systems that \<open>SnapshotSetPlugin\<close>, \<open>SnapshotPlugin\<close> and the
  snapshot and mapping plugins add to it, in the chain of sets of \<open>src/snapshot/set.rs\<close>. Within a
  set the order is Bevy's choice; the theorem at the end holds for all of them.
\<close>

section \<open>Systems and sets\<close>

datatype load_world_systems =
  EntityResurrectSet | EntitySet | EntityFlushSet | DataSet | DataFlushSet | MappingSet

text \<open>The position of a set in the chain.\<close>

fun load_set_rank :: "load_world_systems \<Rightarrow> nat" where
  "load_set_rank EntityResurrectSet = 0"
| "load_set_rank EntitySet = 1"
| "load_set_rank EntityFlushSet = 2"
| "load_set_rank DataSet = 3"
| "load_set_rank DataFlushSet = 4"
| "load_set_rank MappingSet = 5"

datatype ('v, 's) load_sys =
    ResurrectEntities
  | LoadEntities
  | EntityFlush
  | LoadComponent nat mutability "('v, 's) strategy"
  | LoadChildOf
  | LoadResource nat "('v, 's) strategy"
  | LoadOrdered
  | LoadTime
  | DataFlush
  | MapComponent nat "(entity \<Rightarrow> entity) \<Rightarrow> 'v \<Rightarrow> 'v"
  | MapResource nat "(entity \<Rightarrow> entity) \<Rightarrow> 'v \<Rightarrow> 'v"

fun load_set :: "('v, 's) load_sys \<Rightarrow> load_world_systems" where
  "load_set ResurrectEntities = EntityResurrectSet"
| "load_set LoadEntities = EntitySet"
| "load_set EntityFlush = EntityFlushSet"
| "load_set DataFlush = DataFlushSet"
| "load_set (MapComponent t h) = MappingSet"
| "load_set (MapResource i h) = MappingSet"
| "load_set s = DataSet"

definition load_before :: "('v, 's) load_sys \<Rightarrow> ('v, 's) load_sys \<Rightarrow> bool" where
  "load_before a b \<longleftrightarrow> load_set_rank (load_set a) < load_set_rank (load_set b)"

text \<open>What each plugin's \<open>build\<close> adds to \<open>LoadWorld\<close>.\<close>

definition data_systems :: "('w, 'v, 's, 't, 'i, 'x, 'h) app \<Rightarrow> ('v, 's) load_sys list" where
  "data_systems A = [LoadOrdered, LoadChildOf, LoadTime]
     @ map (\<lambda>(t, m, S). LoadComponent t m S) (comp_plugins A)
     @ map (\<lambda>(i, S). LoadResource i S) (res_plugins A)"

definition mapping_systems :: "('w, 'v, 's, 't, 'i, 'x, 'h) app \<Rightarrow> ('v, 's) load_sys list" where
  "mapping_systems A = map (\<lambda>(t, h). MapComponent t h) (comp_map_plugins A)
     @ map (\<lambda>(i, h). MapResource i h) (res_map_plugins A)"

definition load_systems :: "('w, 'v, 's, 't, 'i, 'x, 'h) app \<Rightarrow> ('v, 's) load_sys list" where
  "load_systems A = [EntityFlush, DataFlush, LoadEntities, ResurrectEntities]
     @ data_systems A @ mapping_systems A"

text \<open>
  \<open>RollbackOrdered\<close> and the clock are snapshotted by \<open>CloneStrategy\<close>; both types derive \<open>Clone\<close>.
\<close>

definition derived_clone :: "('a, 'a) strategy" where
  "derived_clone = clone_strategy (\<lambda>x. x) (\<lambda>_ x. x)"

fun run_load ::
  "('w, 'v, 's, 't, 'i, 'x, 'h) app \<Rightarrow> ('v, 's) load_sys \<Rightarrow> ('w, 'v, 's, 't, 'i, 'x) world \<Rightarrow>
     ('w, 'v, 's, 't, 'i, 'x) world res" where
  "run_load A ResurrectEntities w =
     rbind (require ''RollbackFrameCount'' (rollback_frame_count w)) (\<lambda>f.
       Inr (w\<lparr>ecs_state := resurrect_entities (app_ecs A) f (ecs_state w)\<rparr>))"
| "run_load A LoadEntities w =
     rbind (require ''RollbackFrameCount'' (rollback_frame_count w)) (\<lambda>f.
     rbind (require ''RollbackEntityMap'' (entity_map_res w)) (\<lambda>_.
     rbind (load_entities (app_orders A) (next_reserved (app_ecs A) w) f
              (q_entities (app_ecs A) (ecs_state w)) (entity_snapshots w)) (\<lambda>(snaps, em, cs).
       Inr (w\<lparr>entity_snapshots := snaps, entity_map_res := Some em,
              pending := pending w @ map EcsCommand cs\<rparr>))))"
| "run_load A EntityFlush w = apply_deferred (app_ecs A) w"
| "run_load A (LoadComponent t m S) w =
     rbind (require ''RollbackFrameCount'' (rollback_frame_count w)) (\<lambda>f.
       case m of
         Mutable \<Rightarrow>
           rbind (load_components (app_ecs A) t S f (ecs_state w) (comp_snapshots w t)) (\<lambda>(snaps, e, cs).
             Inr (w\<lparr>comp_snapshots := (comp_snapshots w)(t := snaps), ecs_state := e,
                    pending := pending w @ map EcsCommand cs\<rparr>))
       | Immutable \<Rightarrow>
           rbind (load_immutable (app_ecs A) t S f (ecs_state w) (comp_snapshots w t)) (\<lambda>(snaps, cs).
             Inr (w\<lparr>comp_snapshots := (comp_snapshots w)(t := snaps),
                    pending := pending w @ map EcsCommand cs\<rparr>)))"
| "run_load A LoadChildOf w =
     rbind (require ''RollbackFrameCount'' (rollback_frame_count w)) (\<lambda>f.
     rbind (require ''RollbackEntityMap'' (entity_map_res w)) (\<lambda>em.
     rbind (load_childof (app_ecs A) f (ecs_state w) em (childof_snapshots w)) (\<lambda>(snaps, cs).
       Inr (w\<lparr>childof_snapshots := snaps, pending := pending w @ map EcsCommand cs\<rparr>))))"
| "run_load A (LoadResource i S) w =
     rbind (require ''RollbackFrameCount'' (rollback_frame_count w)) (\<lambda>f.
     rbind (load_resource S f (user_resource w i) (res_snapshots w i)) (\<lambda>(snaps, r, cs).
       Inr (w\<lparr>res_snapshots := (res_snapshots w)(i := snaps),
              user_resource := (user_resource w)(i := r),
              pending := pending w @ map (ResCommand i) cs\<rparr>)))"
| "run_load A LoadOrdered w =
     rbind (require ''RollbackFrameCount'' (rollback_frame_count w)) (\<lambda>f.
     rbind (load_resource derived_clone f (rollback_ordered_res w) (ordered_snapshots w)) (\<lambda>(snaps, r, cs).
       Inr (w\<lparr>ordered_snapshots := snaps, rollback_ordered_res := r,
              pending := pending w @ map OrderedCommand cs\<rparr>)))"
| "run_load A LoadTime w =
     rbind (require ''RollbackFrameCount'' (rollback_frame_count w)) (\<lambda>f.
     rbind (load_resource derived_clone f (ggrs_time w) (time_snapshots w)) (\<lambda>(snaps, r, cs).
       Inr (w\<lparr>time_snapshots := snaps, ggrs_time := r, pending := pending w @ map TimeCommand cs\<rparr>)))"
| "run_load A DataFlush w = apply_deferred (app_ecs A) w"
| "run_load A (MapComponent t h) w =
     rbind (require ''RollbackEntityMap'' (entity_map_res w)) (\<lambda>em.
       Inr (w\<lparr>ecs_state := update_component_map (app_ecs A) t h (app_map_order A) em (ecs_state w)\<rparr>))"
| "run_load A (MapResource i h) w =
     rbind (require ''RollbackEntityMap'' (entity_map_res w)) (\<lambda>em.
       Inr (w\<lparr>user_resource := (user_resource w)(i := update_resource_map h em (user_resource w i))\<rparr>))"

definition load_world ::
  "('w, 'v, 's, 't, 'i, 'x, 'h) app \<Rightarrow> ('v, 's) load_sys list \<Rightarrow> ('w, 'v, 's, 't, 'i, 'x) world \<Rightarrow>
     ('w, 'v, 's, 't, 'i, 'x) world res" where
  "load_world A systems w = run_schedule (app_ecs A) (run_load A) systems w"

section \<open>Stages\<close>

lemma split_rank:
  "sorted_wrt (\<lambda>a b. \<not> rk b < rk a) xs \<Longrightarrow>
     xs = filter (\<lambda>x. rk x < (r :: nat)) xs @ filter (\<lambda>x. \<not> rk x < r) xs"
proof (induction xs)
  case (Cons x xs)
  show ?case
  proof (cases "rk x < r")
    case False
    then have "filter (\<lambda>x. rk x < r) xs = []" using Cons.prems by (force simp: filter_empty_conv)
    moreover from this have "filter (\<lambda>x. \<not> rk x < r) xs = xs" by (simp add: filter_empty_conv filter_id_conv)
    ultimately show ?thesis using False by simp
  qed (use Cons in simp)
qed simp

lemma sorted_stages:
  assumes "sorted_wrt (\<lambda>a b. \<not> rk b < rk a) xs" "\<forall>x \<in> set xs. rk x < (n :: nat)"
  shows "xs = concat (map (\<lambda>r. filter (\<lambda>x. rk x = r) xs) [0..<n])"
  using assms
proof (induction n arbitrary: xs)
  case (Suc n)
  let ?low = "filter (\<lambda>x. rk x < n) xs"
  have "?low = concat (map (\<lambda>r. filter (\<lambda>x. rk x = r) ?low) [0..<n])"
    using Suc.prems(1) by (intro Suc.IH) (auto intro: sorted_wrt_filter)
  also have "\<dots> = concat (map (\<lambda>r. filter (\<lambda>x. rk x = r) xs) [0..<n])"
    by (intro arg_cong [where f = concat] map_cong refl) (auto intro!: filter_cong)
  finally have low: "?low = \<dots>" .
  have "filter (\<lambda>x. \<not> rk x < n) xs = filter (\<lambda>x. rk x = n) xs"
    using Suc.prems(2) by (auto intro!: filter_cong simp: less_Suc_eq)
  with split_rank [OF Suc.prems(1), of n] low show ?case by simp
qed simp

lemma mset_singleton: "mset xs = {#x#} \<Longrightarrow> xs = [x]"
  by (cases xs) auto

abbreviation load_rank :: "('v, 's) load_sys \<Rightarrow> nat" where
  "load_rank s \<equiv> load_set_rank (load_set s)"

lemma data_rank: "s \<in> set (data_systems A) \<Longrightarrow> load_rank s = 3"
  by (auto simp: data_systems_def)

lemma mapping_rank: "s \<in> set (mapping_systems A) \<Longrightarrow> load_rank s = 5"
  by (auto simp: mapping_systems_def)

lemma load_order:
  assumes "admissible load_before (load_systems A) xs"
  obtains ds ms where "xs = [ResurrectEntities, LoadEntities, EntityFlush] @ ds @ [DataFlush] @ ms"
    "mset ds = mset (data_systems A)" "mset ms = mset (mapping_systems A)"
proof -
  have perm: "mset xs = mset (load_systems A)"
    and sorted: "sorted_wrt (\<lambda>a b. \<not> load_rank b < load_rank a) xs"
    using assms by (simp_all add: admissible_def load_before_def)
  have "load_rank s < 6" if "s \<in> set xs" for s
    by (cases "load_set s") auto
  then have "xs = concat (map (\<lambda>r. filter (\<lambda>x. load_rank x = r) xs) [0..<6])"
    by (intro sorted_stages [OF sorted]) simp
  also have "[0..<6] = [0, 1, 2, 3, 4, 5]" by code_simp
  finally have xs: "xs = concat (map (\<lambda>r. filter (\<lambda>x. load_rank x = r) xs) [0, 1, 2, 3, 4, 5])" .
  have stage: "mset (filter (\<lambda>x. load_rank x = r) xs)
      = mset (filter (\<lambda>x. load_rank x = r) (load_systems A))" for r
    using perm by (simp add: mset_filter)
  have d: "filter (\<lambda>x. load_rank x = r) (data_systems A) = (if r = 3 then data_systems A else [])" for r
    using data_rank [of _ A] by (auto simp: filter_empty_conv filter_id_conv)
  have m: "filter (\<lambda>x. load_rank x = r) (mapping_systems A) = (if r = 5 then mapping_systems A else [])" for r
    using mapping_rank [of _ A] by (auto simp: filter_empty_conv filter_id_conv)
  have "filter (\<lambda>x. load_rank x = 0) xs = [ResurrectEntities]" "filter (\<lambda>x. load_rank x = 1) xs = [LoadEntities]"
    "filter (\<lambda>x. load_rank x = 2) xs = [EntityFlush]" "filter (\<lambda>x. load_rank x = 4) xs = [DataFlush]"
    by (rule mset_singleton, subst stage, simp add: load_systems_def d m)+
  moreover have "mset (filter (\<lambda>x. load_rank x = 3) xs) = mset (data_systems A)"
    "mset (filter (\<lambda>x. load_rank x = 5) xs) = mset (mapping_systems A)"
    by (subst stage, simp add: load_systems_def d m)+
  ultimately show ?thesis
    using xs by (intro that [of "filter (\<lambda>x. load_rank x = 3) xs" "filter (\<lambda>x. load_rank x = 5) xs"]) simp_all
qed

end
