(* ===== verification/SaveSchedule.thy ===== *)
theory SaveSchedule
  imports LoadSchedule
begin

text \<open>
  The \<open>SaveWorld\<close> schedule: the checksum systems, the total checksum, then for every snapshot plugin
  the chain \<open>sync_depth\<close>, \<open>discard_old_snapshots\<close>, \<open>save\<close>. The chains of different plugins may
  interleave. The commands of the checksum systems are applied before the total, where Bevy
  inserts a sync point between systems that are ordered.
\<close>

section \<open>Systems and sets\<close>

datatype save_world_systems = ChecksumSet | ChecksumFlushPoint | TotalPoint | SnapshotSet

fun save_set_rank :: "save_world_systems \<Rightarrow> nat" where
  "save_set_rank ChecksumSet = 0"
| "save_set_rank ChecksumFlushPoint = 1"
| "save_set_rank TotalPoint = 2"
| "save_set_rank SnapshotSet = 3"

text \<open>The snapshot plugins, by the storage they keep.\<close>

datatype ('v, 's) save_store =
    EntityStore
  | ChildOfStore
  | OrderedStore
  | TimeStore
  | CompStore nat "('v, 's) strategy"
  | ResStore nat "('v, 's) strategy"

datatype ('v, 's) save_sys =
    EntityChecksum
  | ComponentChecksum nat "'v \<Rightarrow> u64"
  | ResourceChecksum nat "'v \<Rightarrow> u64"
  | ChecksumFlush
  | TotalChecksum
  | SyncDepth "('v, 's) save_store"
  | DiscardOld "('v, 's) save_store"
  | SaveStore "('v, 's) save_store"

fun save_set :: "('v, 's) save_sys \<Rightarrow> save_world_systems" where
  "save_set ChecksumFlush = ChecksumFlushPoint"
| "save_set TotalChecksum = TotalPoint"
| "save_set (SyncDepth st) = SnapshotSet"
| "save_set (DiscardOld st) = SnapshotSet"
| "save_set (SaveStore st) = SnapshotSet"
| "save_set s = ChecksumSet"

text \<open>The place in the chain of a plugin.\<close>

fun chain_place :: "('v, 's) save_sys \<Rightarrow> (('v, 's) save_store \<times> nat) option" where
  "chain_place (SyncDepth st) = Some (st, 0)"
| "chain_place (DiscardOld st) = Some (st, 1)"
| "chain_place (SaveStore st) = Some (st, 2)"
| "chain_place s = None"

definition save_before :: "('v, 's) save_sys \<Rightarrow> ('v, 's) save_sys \<Rightarrow> bool" where
  "save_before a b \<longleftrightarrow> save_set_rank (save_set a) < save_set_rank (save_set b) \<or>
     (case (chain_place a, chain_place b) of
        (Some (st, i), Some (st', j)) \<Rightarrow> st = st' \<and> i < j
      | _ \<Rightarrow> False)"

definition snapshot_chain :: "('v, 's) save_store \<Rightarrow> ('v, 's) save_sys list" where
  "snapshot_chain st = [SyncDepth st, DiscardOld st, SaveStore st]"

text \<open>What each plugin's \<open>build\<close> adds to \<open>SaveWorld\<close>.\<close>

definition save_stores :: "('w, 'v, 's, 't, 'i, 'x, 'h) app \<Rightarrow> ('v, 's) save_store list" where
  "save_stores A = [EntityStore, OrderedStore, ChildOfStore, TimeStore]
     @ map (\<lambda>(t, m, S). CompStore t S) (comp_plugins A)
     @ map (\<lambda>(i, S). ResStore i S) (res_plugins A)"

definition checksum_systems :: "('w, 'v, 's, 't, 'i, 'x, 'h) app \<Rightarrow> ('v, 's) save_sys list" where
  "checksum_systems A = EntityChecksum # map (\<lambda>(t, h). ComponentChecksum t h) (comp_checksums A)
     @ map (\<lambda>(i, h). ResourceChecksum i h) (res_checksums A)"

definition save_systems :: "('w, 'v, 's, 't, 'i, 'x, 'h) app \<Rightarrow> ('v, 's) save_sys list" where
  "save_systems A = checksum_systems A @ [ChecksumFlush, TotalChecksum]
     @ concat (map snapshot_chain (save_stores A))"

section \<open>Running them\<close>

text \<open>A checksum system: its direct write, and the commands it queues.\<close>

definition put_part ::
  "'w \<times> 'v command list \<Rightarrow> ('w, 'v, 's, 't, 'i, 'x) world \<Rightarrow> ('w, 'v, 's, 't, 'i, 'x) world" where
  "put_part = (\<lambda>(e, cs) w. w\<lparr>ecs_state := e, pending := pending w @ map EcsCommand cs\<rparr>)"

fun run_checksum ::
  "('w, 'v, 's, 't, 'i, 'x, 'h) app \<Rightarrow> ('v, 's) save_sys \<Rightarrow> ('w, 'v, 's, 't, 'i, 'x) world \<Rightarrow>
     ('w, 'v, 's, 't, 'i, 'x) world res" where
  "run_checksum A EntityChecksum w =
     rbind (require ''RollbackOrdered'' (rollback_ordered_res w)) (\<lambda>ordered.
       Inr (put_part (update_entity_checksum (app_hasher A) (app_ecs A) (next_reserved (app_ecs A) w 0)
              ordered (ecs_state w)) w))"
| "run_checksum A (ComponentChecksum t h) w =
     rbind (require ''RollbackOrdered'' (rollback_ordered_res w)) (\<lambda>ordered.
     rbind (update_component_checksum (app_hasher A) h (app_ecs A) t (next_reserved (app_ecs A) w 0)
              ordered (ecs_state w)) (\<lambda>p.
       Inr (put_part p w)))"
| "run_checksum A (ResourceChecksum i h) w =
     rbind (require ''R'' (user_resource w i)) (\<lambda>resource.
       Inr (put_part (update_resource_checksum h (app_ecs A) i (next_reserved (app_ecs A) w 0)
              resource (ecs_state w)) w))"
| "run_checksum A ChecksumFlush w = apply_deferred (app_ecs A) w"
| "run_checksum A TotalChecksum w =
     rbind (require ''Checksum'' (checksum_res w)) (\<lambda>_.
       Inr (w\<lparr>checksum_res := Some (update_checksum (q_all_parts (app_ecs A) (ecs_state w)))\<rparr>))"
| "run_checksum A s w = Inr w"

text \<open>\<open>sync_depth\<close> of a plugin.\<close>

fun run_sync_depth :: "('v, 's) save_store \<Rightarrow> ('w, 'v, 's, 't, 'i, 'x) world \<Rightarrow> ('w, 'v, 's, 't, 'i, 'x) world" where
  "run_sync_depth EntityStore w =
     w\<lparr>entity_snapshots := sync_depth (max_prediction_window w) (entity_snapshots w)\<rparr>"
| "run_sync_depth ChildOfStore w =
     w\<lparr>childof_snapshots := sync_depth (max_prediction_window w) (childof_snapshots w)\<rparr>"
| "run_sync_depth OrderedStore w =
     w\<lparr>ordered_snapshots := sync_depth (max_prediction_window w) (ordered_snapshots w)\<rparr>"
| "run_sync_depth TimeStore w =
     w\<lparr>time_snapshots := sync_depth (max_prediction_window w) (time_snapshots w)\<rparr>"
| "run_sync_depth (CompStore t S) w =
     w\<lparr>comp_snapshots := (comp_snapshots w)(t := sync_depth (max_prediction_window w) (comp_snapshots w t))\<rparr>"
| "run_sync_depth (ResStore i S) w =
     w\<lparr>res_snapshots := (res_snapshots w)(i := sync_depth (max_prediction_window w) (res_snapshots w i))\<rparr>"

fun run_discard_old ::
  "('v, 's) save_store \<Rightarrow> ('w, 'v, 's, 't, 'i, 'x) world \<Rightarrow> ('w, 'v, 's, 't, 'i, 'x) world res" where
  "run_discard_old EntityStore w =
     rbind (discard_old_snapshots (confirmed_frame_count w) (entity_snapshots w)) (\<lambda>s.
       Inr (w\<lparr>entity_snapshots := s\<rparr>))"
| "run_discard_old ChildOfStore w =
     rbind (discard_old_snapshots (confirmed_frame_count w) (childof_snapshots w)) (\<lambda>s.
       Inr (w\<lparr>childof_snapshots := s\<rparr>))"
| "run_discard_old OrderedStore w =
     rbind (discard_old_snapshots (confirmed_frame_count w) (ordered_snapshots w)) (\<lambda>s.
       Inr (w\<lparr>ordered_snapshots := s\<rparr>))"
| "run_discard_old TimeStore w =
     rbind (discard_old_snapshots (confirmed_frame_count w) (time_snapshots w)) (\<lambda>s.
       Inr (w\<lparr>time_snapshots := s\<rparr>))"
| "run_discard_old (CompStore t S) w =
     rbind (discard_old_snapshots (confirmed_frame_count w) (comp_snapshots w t)) (\<lambda>s.
       Inr (w\<lparr>comp_snapshots := (comp_snapshots w)(t := s)\<rparr>))"
| "run_discard_old (ResStore i S) w =
     rbind (discard_old_snapshots (confirmed_frame_count w) (res_snapshots w i)) (\<lambda>s.
       Inr (w\<lparr>res_snapshots := (res_snapshots w)(i := s)\<rparr>))"

fun run_save_store ::
  "('w, 'v) ecs \<Rightarrow> ('v, 's) save_store \<Rightarrow> ('w, 'v, 's, 't, 'i, 'x) world \<Rightarrow>
     ('w, 'v, 's, 't, 'i, 'x) world res" where
  "run_save_store E EntityStore w =
     rbind (require ''RollbackFrameCount'' (rollback_frame_count w)) (\<lambda>f.
     rbind (save_entities f (q_entities E (ecs_state w)) (entity_snapshots w)) (\<lambda>s.
       Inr (w\<lparr>entity_snapshots := s\<rparr>)))"
| "run_save_store E ChildOfStore w =
     rbind (require ''RollbackFrameCount'' (rollback_frame_count w)) (\<lambda>f.
     rbind (save_childof f (q_parents E (ecs_state w)) (childof_snapshots w)) (\<lambda>s.
       Inr (w\<lparr>childof_snapshots := s\<rparr>)))"
| "run_save_store E OrderedStore w =
     rbind (require ''RollbackFrameCount'' (rollback_frame_count w)) (\<lambda>f.
     rbind (save_resource derived_clone f (rollback_ordered_res w) (ordered_snapshots w)) (\<lambda>s.
       Inr (w\<lparr>ordered_snapshots := s\<rparr>)))"
| "run_save_store E TimeStore w =
     rbind (require ''RollbackFrameCount'' (rollback_frame_count w)) (\<lambda>f.
     rbind (save_resource derived_clone f (ggrs_time w) (time_snapshots w)) (\<lambda>s.
       Inr (w\<lparr>time_snapshots := s\<rparr>)))"
| "run_save_store E (CompStore t S) w =
     rbind (require ''RollbackFrameCount'' (rollback_frame_count w)) (\<lambda>f.
     rbind (save_components S f (q_components E (ecs_state w) t) (comp_snapshots w t)) (\<lambda>s.
       Inr (w\<lparr>comp_snapshots := (comp_snapshots w)(t := s)\<rparr>)))"
| "run_save_store E (ResStore i S) w =
     rbind (require ''RollbackFrameCount'' (rollback_frame_count w)) (\<lambda>f.
     rbind (save_resource S f (user_resource w i) (res_snapshots w i)) (\<lambda>s.
       Inr (w\<lparr>res_snapshots := (res_snapshots w)(i := s)\<rparr>)))"

fun run_save ::
  "('w, 'v, 's, 't, 'i, 'x, 'h) app \<Rightarrow> ('v, 's) save_sys \<Rightarrow> ('w, 'v, 's, 't, 'i, 'x) world \<Rightarrow>
     ('w, 'v, 's, 't, 'i, 'x) world res" where
  "run_save A (SyncDepth st) w = Inr (run_sync_depth st w)"
| "run_save A (DiscardOld st) w = run_discard_old st w"
| "run_save A (SaveStore st) w = run_save_store (app_ecs A) st w"
| "run_save A s w = run_checksum A s w"

definition save_world ::
  "('w, 'v, 's, 't, 'i, 'x, 'h) app \<Rightarrow> ('v, 's) save_sys list \<Rightarrow> ('w, 'v, 's, 't, 'i, 'x) world \<Rightarrow>
     ('w, 'v, 's, 't, 'i, 'x) world res" where
  "save_world A systems w = run_schedule (app_ecs A) (run_save A) systems w"

end
