(* ===== verification/LoadRestores.thy ===== *)
theory LoadRestores
  imports LoadSchedule
begin

text \<open>
  That \<open>LoadWorld\<close> restores the world of the saved frame. The world is divided into slots, one per
  component type, resource, and the two resources of the crate; each system of the \<open>Data\<close> set
  is responsible for one slot and leaves the others alone, so their order does not matter.
\<close>

section \<open>Settled values\<close>

text \<open>The commands that wait, by what they act on, and the value each slot will have after them.\<close>

definition ecs_commands :: "('v, 't) world_command list \<Rightarrow> 'v command list" where
  "ecs_commands cs = List.map_filter (\<lambda>c. case c of EcsCommand c \<Rightarrow> Some c | _ \<Rightarrow> None) cs"

definition res_commands :: "nat \<Rightarrow> ('v, 't) world_command list \<Rightarrow> 'v res_command list" where
  "res_commands i cs = List.map_filter (\<lambda>c. case c of ResCommand j c \<Rightarrow> if j = i then Some c else None | _ \<Rightarrow> None) cs"

definition ordered_commands :: "('v, 't) world_command list \<Rightarrow> rollback_ordered res_command list" where
  "ordered_commands cs = List.map_filter (\<lambda>c. case c of OrderedCommand c \<Rightarrow> Some c | _ \<Rightarrow> None) cs"

definition time_commands :: "('v, 't) world_command list \<Rightarrow> 't res_command list" where
  "time_commands cs = List.map_filter (\<lambda>c. case c of TimeCommand c \<Rightarrow> Some c | _ \<Rightarrow> None) cs"

lemma map_filter_append [simp]:
  "List.map_filter f (xs @ ys) = List.map_filter f xs @ List.map_filter f ys"
  by (induction xs) (auto split: option.split)

lemma map_filter_None: "(\<And>x. x \<in> set xs \<Longrightarrow> f x = None) \<Longrightarrow> List.map_filter f xs = []"
  by (induction xs) auto

lemma map_filter_map_Some: "(\<And>x. f (g x) = Some x) \<Longrightarrow> List.map_filter f (map g xs) = xs"
  by (induction xs) auto

lemma commands_simps [simp]:
  "ecs_commands [] = []" "res_commands i [] = []" "ordered_commands [] = []" "time_commands [] = []"
  "ecs_commands (xs @ ys) = ecs_commands xs @ ecs_commands ys"
  "res_commands i (xs @ ys) = res_commands i xs @ res_commands i ys"
  "ordered_commands (xs @ ys) = ordered_commands xs @ ordered_commands ys"
  "time_commands (xs @ ys) = time_commands xs @ time_commands ys"
  "ecs_commands (map EcsCommand cs) = cs"
  "res_commands i (map EcsCommand cs) = []"
  "ordered_commands (map EcsCommand cs) = []"
  "time_commands (map EcsCommand cs) = []"
  "ecs_commands (map (ResCommand i) rs) = []"
  "res_commands i (map (ResCommand j) rs) = (if j = i then rs else [])"
  "ordered_commands (map (ResCommand i) rs) = []"
  "time_commands (map (ResCommand i) rs) = []"
  "ecs_commands (map OrderedCommand os) = []"
  "res_commands i (map OrderedCommand os) = []"
  "ordered_commands (map OrderedCommand os) = os"
  "time_commands (map OrderedCommand os) = []"
  "ecs_commands (map TimeCommand ts) = []"
  "res_commands i (map TimeCommand ts) = []"
  "ordered_commands (map TimeCommand ts) = []"
  "time_commands (map TimeCommand ts) = ts"
  by (auto simp: ecs_commands_def res_commands_def ordered_commands_def time_commands_def
      intro!: map_filter_None map_filter_map_Some)

lemma commands_Cons [simp]:
  "ecs_commands (EcsCommand c # cs) = c # ecs_commands cs"
  "ecs_commands (ResCommand i r # cs) = ecs_commands cs"
  "ecs_commands (OrderedCommand d # cs) = ecs_commands cs"
  "ecs_commands (TimeCommand t # cs) = ecs_commands cs"
  "res_commands j (EcsCommand c # cs) = res_commands j cs"
  "res_commands j (ResCommand i r # cs) = (if i = j then r # res_commands j cs else res_commands j cs)"
  "res_commands j (OrderedCommand d # cs) = res_commands j cs"
  "res_commands j (TimeCommand t # cs) = res_commands j cs"
  "ordered_commands (EcsCommand c # cs) = ordered_commands cs"
  "ordered_commands (ResCommand i r # cs) = ordered_commands cs"
  "ordered_commands (OrderedCommand d # cs) = d # ordered_commands cs"
  "ordered_commands (TimeCommand t # cs) = ordered_commands cs"
  "time_commands (EcsCommand c # cs) = time_commands cs"
  "time_commands (ResCommand i r # cs) = time_commands cs"
  "time_commands (OrderedCommand d # cs) = time_commands cs"
  "time_commands (TimeCommand t # cs) = t # time_commands cs"
  by (simp_all add: ecs_commands_def res_commands_def ordered_commands_def time_commands_def)

definition key_value ::
  "('w, 'v) ecs \<Rightarrow> ('w, 'v, 's, 't, 'i, 'x) world \<Rightarrow> ckey \<Rightarrow> entity \<Rightarrow> 'v cval option" where
  "key_value E w k e = effects_on k e (ecs_commands (pending w)) (cget E (ecs_state w) k e)"

definition res_value :: "('w, 'v, 's, 't, 'i, 'x) world \<Rightarrow> nat \<Rightarrow> 'v option" where
  "res_value w i = apply_res_commands (res_commands i (pending w)) (user_resource w i)"

definition ordered_value :: "('w, 'v, 's, 't, 'i, 'x) world \<Rightarrow> rollback_ordered option" where
  "ordered_value w = apply_res_commands (ordered_commands (pending w)) (rollback_ordered_res w)"

definition time_value :: "('w, 'v, 's, 't, 'i, 'x) world \<Rightarrow> 't option" where
  "time_value w = apply_res_commands (time_commands (pending w)) (ggrs_time w)"

lemma run_world_commands:
  fixes w :: "('w, 'v, 's, 't, 'i, 'x) world"
  assumes "ecs_laws E" "\<forall>c \<in> set (ecs_commands cs). applicable (set (ents E (ecs_state w))) c"
  shows "\<exists>e'. rfold (run_world_command E) cs w = Inr (w\<lparr>ecs_state := e',
      user_resource := (\<lambda>i. apply_res_commands (res_commands i cs) (user_resource w i)),
      rollback_ordered_res := apply_res_commands (ordered_commands cs) (rollback_ordered_res w),
      ggrs_time := apply_res_commands (time_commands cs) (ggrs_time w)\<rparr>)
    \<and> set (ents E e') = set (ents E (ecs_state w))
    \<and> (\<forall>k e. cget E e' k e = effects_on k e (ecs_commands cs) (cget E (ecs_state w) k e))"
  using assms(2)
proof (induction cs arbitrary: w)
  case Nil
  show ?case by (rule exI [of _ "ecs_state w"]) simp
next
  case (Cons c cs)
  show ?case
  proof (cases c)
    case (EcsCommand d)
    let ?e = "apply_simple E d (ecs_state w)"
    have d: "applicable (set (ents E (ecs_state w))) d" using Cons.prems EcsCommand by simp
    then have "\<not> adds_rollback E d (ecs_state w)" by (cases d) auto
    then have run: "run_world_command E c w = Inr (w\<lparr>ecs_state := ?e\<rparr>)"
      by (simp add: EcsCommand run_ecs_command_def apply_command_simple Let_def split: option.split)
    have e: "set (ents E ?e) = set (ents E (ecs_state w))"
      "\<forall>k e. cget E ?e k e = effect_on k e (cget E (ecs_state w) k e) d"
      using d assms(1) by (cases d; auto simp: ecs_cinsert insertable_def ecs_cremove)+
    have "\<forall>c \<in> set (ecs_commands cs). applicable (set (ents E (ecs_state (w\<lparr>ecs_state := ?e\<rparr>)))) c"
      using Cons.prems EcsCommand e(1) by simp
    from Cons.IH [OF this] obtain e' where ih: "rfold (run_world_command E) cs (w\<lparr>ecs_state := ?e\<rparr>) =
        Inr (w\<lparr>ecs_state := e',
          user_resource := (\<lambda>i. apply_res_commands (res_commands i cs) (user_resource w i)),
          rollback_ordered_res := apply_res_commands (ordered_commands cs) (rollback_ordered_res w),
          ggrs_time := apply_res_commands (time_commands cs) (ggrs_time w)\<rparr>)"
      "set (ents E e') = set (ents E (ecs_state w))"
      "\<forall>k e. cget E e' k e = effects_on k e (ecs_commands cs) (effect_on k e (cget E (ecs_state w) k e) d)"
      using e by auto
    show ?thesis
      by (rule exI [of _ e']) (use ih run in \<open>simp add: EcsCommand\<close>)
  next
    case (ResCommand i r)
    let ?w = "w\<lparr>user_resource := (user_resource w)(i := apply_res_command r (user_resource w i))\<rparr>"
    have "\<forall>c \<in> set (ecs_commands cs). applicable (set (ents E (ecs_state ?w))) c"
      using Cons.prems ResCommand by simp
    moreover have "(\<lambda>j. apply_res_commands (res_commands j cs) (user_resource ?w j))
        = (\<lambda>j. apply_res_commands (res_commands j (c # cs)) (user_resource w j))"
      by (rule ext) (simp add: ResCommand)
    ultimately show ?thesis
      using Cons.IH [of ?w] by (simp del: commands_Cons) (simp add: ResCommand)
  next
    case (OrderedCommand d)
    let ?w = "w\<lparr>rollback_ordered_res := apply_res_command d (rollback_ordered_res w)\<rparr>"
    have "\<forall>c \<in> set (ecs_commands cs). applicable (set (ents E (ecs_state ?w))) c"
      using Cons.prems OrderedCommand by simp
    from Cons.IH [OF this] show ?thesis by (simp add: OrderedCommand)
  next
    case (TimeCommand d)
    let ?w = "w\<lparr>ggrs_time := apply_res_command d (ggrs_time w)\<rparr>"
    have "\<forall>c \<in> set (ecs_commands cs). applicable (set (ents E (ecs_state ?w))) c"
      using Cons.prems TimeCommand by simp
    from Cons.IH [OF this] show ?thesis by (simp add: TimeCommand)
  qed
qed

lemma apply_deferred_settles:
  assumes "ecs_laws E" "\<forall>c \<in> set (ecs_commands (pending w)). applicable (set (ents E (ecs_state w))) c"
  obtains e' where "apply_deferred E w = Inr (w\<lparr>ecs_state := e', pending := [],
      user_resource := res_value w, rollback_ordered_res := ordered_value w, ggrs_time := time_value w\<rparr>)"
    "set (ents E e') = set (ents E (ecs_state w))" "\<forall>k e. cget E e' k e = key_value E w k e"
proof -
  have "\<forall>c \<in> set (ecs_commands (pending w)). applicable (set (ents E (ecs_state (w\<lparr>pending := []\<rparr>)))) c"
    using assms(2) by simp
  from run_world_commands [OF assms(1) this] obtain e' where e':
    "apply_deferred E w = Inr ((w\<lparr>pending := []\<rparr>)\<lparr>ecs_state := e', user_resource := res_value w,
       rollback_ordered_res := ordered_value w, ggrs_time := time_value w\<rparr>)"
    "set (ents E e') = set (ents E (ecs_state w))" "\<forall>k e. cget E e' k e = key_value E w k e"
    by (auto simp: apply_deferred_def key_value_def res_value_def [abs_def] ordered_value_def time_value_def)
  have "(w\<lparr>pending := []\<rparr>)\<lparr>ecs_state := e', user_resource := res_value w,
       rollback_ordered_res := ordered_value w, ggrs_time := time_value w\<rparr>
    = w\<lparr>ecs_state := e', pending := [],
      user_resource := res_value w, rollback_ordered_res := ordered_value w, ggrs_time := time_value w\<rparr>"
    by (cases w) simp
  with e' that show ?thesis by simp
qed

section \<open>Slots\<close>

datatype slot = KeySlot ckey | ResSlot nat | OrderedSlot | TimeSlot

fun slot_of :: "('v, 's) load_sys \<Rightarrow> slot" where
  "slot_of (LoadComponent t m S) = KeySlot (UserKey t)"
| "slot_of LoadChildOf = KeySlot ChildOfKey"
| "slot_of (LoadResource i S) = ResSlot i"
| "slot_of LoadOrdered = OrderedSlot"
| "slot_of LoadTime = TimeSlot"
| "slot_of (MapComponent t h) = KeySlot (UserKey t)"
| "slot_of (MapResource i h) = ResSlot i"
| "slot_of s = KeySlot RollbackKey"

text \<open>Two worlds that agree on a slot: its value, the commands that wait for it and its storage.\<close>

fun same_slot ::
  "('w, 'v) ecs \<Rightarrow> ('w, 'v, 's, 't, 'i, 'x) world \<Rightarrow> ('w, 'v, 's, 't, 'i, 'x) world \<Rightarrow> slot \<Rightarrow> bool" where
  "same_slot E u u' (KeySlot k) \<longleftrightarrow>
     (\<forall>e. cget E (ecs_state u') k e = cget E (ecs_state u) k e) \<and>
     (\<forall>e x. effects_on k e (ecs_commands (pending u')) x = effects_on k e (ecs_commands (pending u)) x) \<and>
     (k = ChildOfKey \<longrightarrow> childof_snapshots u' = childof_snapshots u) \<and>
     (\<forall>t. k = UserKey t \<longrightarrow> comp_snapshots u' t = comp_snapshots u t)"
| "same_slot E u u' (ResSlot i) \<longleftrightarrow>
     user_resource u' i = user_resource u i \<and> res_commands i (pending u') = res_commands i (pending u) \<and>
     res_snapshots u' i = res_snapshots u i"
| "same_slot E u u' OrderedSlot \<longleftrightarrow>
     rollback_ordered_res u' = rollback_ordered_res u \<and>
     ordered_commands (pending u') = ordered_commands (pending u) \<and>
     ordered_snapshots u' = ordered_snapshots u"
| "same_slot E u u' TimeSlot \<longleftrightarrow>
     ggrs_time u' = ggrs_time u \<and> time_commands (pending u') = time_commands (pending u) \<and>
     time_snapshots u' = time_snapshots u"

lemma same_slot_refl [simp]: "same_slot E u u slot"
  by (cases slot) auto

lemma same_slot_trans: "same_slot E u v slot \<Longrightarrow> same_slot E v w slot \<Longrightarrow> same_slot E u w slot"
  by (cases slot) auto

text \<open>What no system of the \<open>Data\<close> set changes.\<close>

definition common ::
  "('w, 'v) ecs \<Rightarrow> ('w, 'v, 's, 't, 'i, 'x) world \<Rightarrow> ('w, 'v, 's, 't, 'i, 'x) world \<Rightarrow> bool" where
  "common E u u' \<longleftrightarrow> set (ents E (ecs_state u')) = set (ents E (ecs_state u)) \<and>
     rollback_frame_count u' = rollback_frame_count u \<and>
     confirmed_frame_count u' = confirmed_frame_count u \<and>
     max_prediction_window u' = max_prediction_window u \<and>
     entity_map_res u' = entity_map_res u \<and> entity_snapshots u' = entity_snapshots u \<and>
     schedules u' = schedules u \<and> session_res u' = session_res u"

lemma common_refl [simp]: "common E u u"
  by (simp add: common_def)

lemma common_trans: "common E u v \<Longrightarrow> common E v w \<Longrightarrow> common E u w"
  by (simp add: common_def)

definition pending_ok :: "('w, 'v) ecs \<Rightarrow> ('w, 'v, 's, 't, 'i, 'x) world \<Rightarrow> bool" where
  "pending_ok E u \<longleftrightarrow> (\<forall>c \<in> set (ecs_commands (pending u)). applicable (set (ents E (ecs_state u))) c)"

section \<open>What is stored, and what is to be restored\<close>

text \<open>The storage of a system holds, at frame \<open>f\<close>, what its \<open>save\<close> stores of the world \<open>w0\<close>.\<close>

definition holds_at :: "'a ggrs_snapshots \<Rightarrow> i32 \<Rightarrow> 'a \<Rightarrow> bool" where
  "holds_at snaps f x \<longleftrightarrow> queue_ok snaps \<and> peek snaps f = Some x"

fun stored ::
  "('w, 'v) ecs \<Rightarrow> i32 \<Rightarrow> ('w, 'v, 's, 't, 'i, 'x) world \<Rightarrow> ('w, 'v, 's, 't, 'i, 'x) world \<Rightarrow>
     ('v, 's) load_sys \<Rightarrow> bool" where
  "stored E f w0 u LoadEntities \<longleftrightarrow>
     holds_at (entity_snapshots u) f (new_snapshot (q_entities E (ecs_state w0)))"
| "stored E f w0 u (LoadComponent t m S) \<longleftrightarrow>
     holds_at (comp_snapshots u t) f
       (new_snapshot (map (\<lambda>(r, c). (r, store S c)) (q_components E (ecs_state w0) t)))"
| "stored E f w0 u LoadChildOf \<longleftrightarrow>
     holds_at (childof_snapshots u) f (new_snapshot (map (\<lambda>(r, c). (r, c)) (q_parents E (ecs_state w0))))"
| "stored E f w0 u (LoadResource i S) \<longleftrightarrow>
     holds_at (res_snapshots u i) f (map_option (store S) (user_resource w0 i))"
| "stored E f w0 u LoadOrdered \<longleftrightarrow> holds_at (ordered_snapshots u) f (rollback_ordered_res w0)"
| "stored E f w0 u LoadTime \<longleftrightarrow> holds_at (time_snapshots u) f (ggrs_time w0)"
| "stored E f w0 u s \<longleftrightarrow> True"

text \<open>
  The slot of a system has its target: every identity alive in \<open>w\<close> will have what it had in \<open>w0\<close>,
  every resource too. Parents are compared by identity.
\<close>

fun settled ::
  "('w, 'v) ecs \<Rightarrow> ('w, 'v, 's, 't, 'i, 'x) world \<Rightarrow> ('w, 'v, 's, 't, 'i, 'x) world \<Rightarrow>
     ('w, 'v, 's, 't, 'i, 'x) world \<Rightarrow> ('v, 's) load_sys \<Rightarrow> bool" where
  "settled E w0 w u (LoadComponent t m S) \<longleftrightarrow>
     (\<forall>e r. carries E (ecs_state w) e r \<longrightarrow>
        user_val (key_value E u (UserKey t) e) = map_of (q_components E (ecs_state w0) t) r)"
| "settled E w0 w u LoadChildOf \<longleftrightarrow>
     (\<forall>e r e0. carries E (ecs_state w) e r \<and> carries E (ecs_state w0) e0 r \<longrightarrow>
        parent_target E (ecs_state w0) (ecs_state w) e0 (parent_val (key_value E u ChildOfKey e)))"
| "settled E w0 w u (LoadResource i S) \<longleftrightarrow> res_value u i = user_resource w0 i"
| "settled E w0 w u LoadOrdered \<longleftrightarrow> ordered_value u = rollback_ordered_res w0"
| "settled E w0 w u LoadTime \<longleftrightarrow> time_value u = ggrs_time w0"
| "settled E w0 w u s \<longleftrightarrow> True"

fun data_sys :: "('v, 's) load_sys \<Rightarrow> bool" where
  "data_sys (LoadComponent t m S) = True"
| "data_sys LoadChildOf = True"
| "data_sys (LoadResource i S) = True"
| "data_sys LoadOrdered = True"
| "data_sys LoadTime = True"
| "data_sys s = False"

fun strategy_of_ok :: "('v, 's) load_sys \<Rightarrow> bool" where
  "strategy_of_ok (LoadComponent t m S) = strategy_ok S"
| "strategy_of_ok (LoadResource i S) = strategy_ok S"
| "strategy_of_ok s = True"

lemma same_key_value: "same_slot E u u' (KeySlot k) \<Longrightarrow> key_value E u' k e = key_value E u k e"
  by (simp add: key_value_def)

lemma same_slot_settled:
  "data_sys s \<Longrightarrow> same_slot E u u' (slot_of s) \<Longrightarrow> settled E w0 w u s \<Longrightarrow> settled E w0 w u' s"
proof (cases s)
  case (LoadComponent t m S)
  assume a: "same_slot E u u' (slot_of s)" "settled E w0 w u s"
  then have "key_value E u' (UserKey t) e = key_value E u (UserKey t) e" for e
    using LoadComponent by (simp only: same_key_value slot_of.simps)
  with a(2) show ?thesis by (simp add: LoadComponent)
next
  case LoadChildOf
  assume a: "same_slot E u u' (slot_of s)" "settled E w0 w u s"
  then have "key_value E u' ChildOfKey e = key_value E u ChildOfKey e" for e
    using LoadChildOf by (simp only: same_key_value slot_of.simps)
  with a(2) show ?thesis by (simp add: LoadChildOf)
qed (auto simp: res_value_def ordered_value_def time_value_def)

lemma same_slot_stored:
  "data_sys s \<Longrightarrow> same_slot E u u' (slot_of s) \<Longrightarrow> stored E f w0 u s \<Longrightarrow> stored E f w0 u' s"
  by (cases s) auto

lemma derived_clone_ok: "strategy_ok derived_clone" "map_option (store derived_clone) x = x"
  by (simp_all add: derived_clone_def strategy_ok_def strategy_laws_def clone_strategy_def option.map_ident)

lemma holds_at_rollback:
  assumes "holds_at snaps f x" "rollback f snaps = Inr snaps1"
  shows "holds_at snaps1 f x"
  using assms gs.rollback_found [of snaps f x] by (auto simp: holds_at_def)

section \<open>One system of the \<open>Data\<close> set\<close>

text \<open>The world in which the system runs, seen from the world \<open>w\<close> at the start of the set.\<close>

definition data_ready ::
  "('w, 'v) ecs \<Rightarrow> ('w, 'v, 's, 't, 'i, 'x) world \<Rightarrow> ('w, 'v, 's, 't, 'i, 'x) world \<Rightarrow>
     ('v, 's) load_sys \<Rightarrow> bool" where
  "data_ready E w u s \<longleftrightarrow> common E w u \<and> pending_ok E u \<and> pending w = [] \<and>
     same_slot E w u (KeySlot RollbackIdKey) \<and> same_slot E w u (KeySlot DespawnedKey) \<and>
     same_slot E w u (slot_of s)"

definition data_step ::
  "('w, 'v) ecs \<Rightarrow> i32 \<Rightarrow> ('w, 'v, 's, 't, 'i, 'x) world \<Rightarrow> ('w, 'v, 's, 't, 'i, 'x) world \<Rightarrow>
     ('w, 'v, 's, 't, 'i, 'x) world \<Rightarrow> ('v, 's) load_sys \<Rightarrow> ('w, 'v, 's, 't, 'i, 'x) world \<Rightarrow> bool" where
  "data_step E f w0 w u s u' \<longleftrightarrow> common E u u' \<and> pending_ok E u' \<and> settled E w0 w u' s \<and>
     stored E f w0 u' s \<and> (\<forall>slot. slot \<noteq> slot_of s \<longrightarrow> same_slot E u u' slot)"

lemma ready_carries:
  assumes "data_ready E w u s"
  shows "carries E (ecs_state u) e r = carries E (ecs_state w) e r"
  using assms by (simp add: data_ready_def carries_def rid_of_def enabled_def)

lemma ready_unique: "data_ready E w u s \<Longrightarrow> unique_ids E (ecs_state u) = unique_ids E (ecs_state w)"
  by (simp add: data_ready_def unique_ids_def rid_of_def)

lemma step_resource:
  assumes "data_ready E w u (LoadResource i S)" "strategy_ok S" "rollback_frame_count u = Some f"
    and "stored E f w0 u (LoadResource i S)"
  shows "\<exists>u'. run_load A (LoadResource i S) u = Inr u' \<and> data_step E f w0 w u (LoadResource i S) u'"
proof -
  have st: "queue_ok (res_snapshots u i)" "peek (res_snapshots u i) f = Some (map_option (store S) (user_resource w0 i))"
    using assms(4) by (simp_all add: holds_at_def)
  obtain s1 r1 cs where l: "load_resource S f (user_resource u i) (res_snapshots u i) = Inr (s1, r1, cs)"
    "rollback f (res_snapshots u i) = Inr s1" "apply_res_commands cs r1 = user_resource w0 i"
    by (rule load_resource_effect [OF assms(2) st])
  let ?u = "u\<lparr>res_snapshots := (res_snapshots u)(i := s1), user_resource := (user_resource u)(i := r1),
      pending := pending u @ map (ResCommand i) cs\<rparr>"
  have "run_load A (LoadResource i S) u = Inr ?u"
    using assms(3) l(1) by simp
  moreover have "same_slot E u ?u slot" if "slot \<noteq> ResSlot i" for slot
    using that by (cases slot) auto
  moreover have none: "res_commands i (pending u) = []"
    using assms(1) by (simp add: data_ready_def)
  moreover have "holds_at s1 f (map_option (store S) (user_resource w0 i))"
    using assms(4) l(2) holds_at_rollback by auto
  moreover have "pending_ok E u" using assms(1) by (simp add: data_ready_def)
  ultimately show ?thesis
    using l(3) by (intro exI [of _ ?u]) (simp add: data_step_def common_def pending_ok_def res_value_def)
qed

lemma step_ordered:
  assumes "data_ready E w u LoadOrdered" "rollback_frame_count u = Some f" "stored E f w0 u LoadOrdered"
  shows "\<exists>u'. run_load A LoadOrdered u = Inr u' \<and> data_step E f w0 w u LoadOrdered u'"
proof -
  have st: "queue_ok (ordered_snapshots u)"
    "peek (ordered_snapshots u) f = Some (map_option (store derived_clone) (rollback_ordered_res w0))"
    using assms(3) by (simp_all add: holds_at_def derived_clone_ok)
  obtain s1 r1 cs where l: "load_resource derived_clone f (rollback_ordered_res u) (ordered_snapshots u) = Inr (s1, r1, cs)"
    "rollback f (ordered_snapshots u) = Inr s1" "apply_res_commands cs r1 = rollback_ordered_res w0"
    by (rule load_resource_effect [OF derived_clone_ok(1) st])
  let ?u = "u\<lparr>ordered_snapshots := s1, rollback_ordered_res := r1, pending := pending u @ map OrderedCommand cs\<rparr>"
  have "run_load A LoadOrdered u = Inr ?u"
    using assms(2) l(1) by simp
  moreover have "same_slot E u ?u slot" if "slot \<noteq> OrderedSlot" for slot
    using that by (cases slot) auto
  moreover have none: "ordered_commands (pending u) = []"
    using assms(1) by (simp add: data_ready_def)
  moreover have "holds_at s1 f (rollback_ordered_res w0)"
    using assms(3) l(2) holds_at_rollback by auto
  moreover have "pending_ok E u" using assms(1) by (simp add: data_ready_def)
  ultimately show ?thesis
    using l(3) by (intro exI [of _ ?u]) (simp add: data_step_def common_def pending_ok_def ordered_value_def)
qed

lemma step_time:
  assumes "data_ready E w u LoadTime" "rollback_frame_count u = Some f" "stored E f w0 u LoadTime"
  shows "\<exists>u'. run_load A LoadTime u = Inr u' \<and> data_step E f w0 w u LoadTime u'"
proof -
  have st: "queue_ok (time_snapshots u)"
    "peek (time_snapshots u) f = Some (map_option (store derived_clone) (ggrs_time w0))"
    using assms(3) by (simp_all add: holds_at_def derived_clone_ok)
  obtain s1 r1 cs where l: "load_resource derived_clone f (ggrs_time u) (time_snapshots u) = Inr (s1, r1, cs)"
    "rollback f (time_snapshots u) = Inr s1" "apply_res_commands cs r1 = ggrs_time w0"
    by (rule load_resource_effect [OF derived_clone_ok(1) st])
  let ?u = "u\<lparr>time_snapshots := s1, ggrs_time := r1, pending := pending u @ map TimeCommand cs\<rparr>"
  have "run_load A LoadTime u = Inr ?u"
    using assms(2) l(1) by simp
  moreover have "same_slot E u ?u slot" if "slot \<noteq> TimeSlot" for slot
    using that by (cases slot) auto
  moreover have none: "time_commands (pending u) = []"
    using assms(1) by (simp add: data_ready_def)
  moreover have "holds_at s1 f (ggrs_time w0)"
    using assms(3) l(2) holds_at_rollback by auto
  moreover have "pending_ok E u" using assms(1) by (simp add: data_ready_def)
  ultimately show ?thesis
    using l(3) by (intro exI [of _ ?u]) (simp add: data_step_def common_def pending_ok_def time_value_def)
qed

lemma data_system_other:
  assumes "data_system E w k w1 cs" "k' \<noteq> k"
  shows "effects_on k' e cs x = x"
proof (rule effects_on_untouched)
  have "\<forall>c \<in> set cs. fst (touches c) = k" using assms(1) by (simp add: data_system_def)
  then show "(k', e) \<notin> touches ` set cs" using assms(2) by (metis fst_conv imageE)
qed

text \<open>The step of a system on a component, from what it writes and queues.\<close>

lemma step_on_key:
  assumes "data_ready E w u s" "slot_of s = KeySlot k" "data_system E (ecs_state u) k e1 cs"
    and "common E u u'" "ecs_state u' = e1" "pending u' = pending u @ map EcsCommand cs"
    and "\<And>slot. slot \<noteq> KeySlot k \<Longrightarrow> (case slot of
         KeySlot k' \<Rightarrow> (k' = ChildOfKey \<longrightarrow> childof_snapshots u' = childof_snapshots u) \<and>
           (\<forall>t. k' = UserKey t \<longrightarrow> comp_snapshots u' t = comp_snapshots u t)
       | ResSlot i \<Rightarrow> user_resource u' i = user_resource u i \<and> res_snapshots u' i = res_snapshots u i
       | OrderedSlot \<Rightarrow> rollback_ordered_res u' = rollback_ordered_res u \<and> ordered_snapshots u' = ordered_snapshots u
       | TimeSlot \<Rightarrow> ggrs_time u' = ggrs_time u \<and> time_snapshots u' = time_snapshots u)"
  shows "pending_ok E u'" "\<And>slot. slot \<noteq> KeySlot k \<Longrightarrow> same_slot E u u' slot"
    "key_value E u' k e = final_value E e1 cs k e"
proof -
  show "pending_ok E u'"
    using assms(1,3,5,6) by (auto simp: pending_ok_def data_ready_def data_system_def)
  show "same_slot E u u' slot" if "slot \<noteq> KeySlot k" for slot
    using assms(7) [OF that] that assms(3) data_system_other [OF assms(3)]
    by (cases slot) (auto simp: assms(5,6) data_system_def)
  have "effects_on k e (ecs_commands (pending u)) x = x" for x
    using assms(1,2) by (simp add: data_ready_def)
  then show "key_value E u' k e = final_value E e1 cs k e"
    by (simp add: key_value_def final_value_def assms(5,6))
qed

lemma step_component:
  assumes "data_ready E w u (LoadComponent t m S)" "ecs_laws E" "strategy_ok S" "rollback_frame_count u = Some f"
    and "unique_ids E (ecs_state w0)" "stored E f w0 u (LoadComponent t m S)" "app_ecs A = E"
  shows "\<exists>u'. run_load A (LoadComponent t m S) u = Inr u' \<and> data_step E f w0 w u (LoadComponent t m S) u'"
proof -
  let ?snap = "new_snapshot (map (\<lambda>(r, c). (r, store S c)) (q_components E (ecs_state w0) t))"
  have st: "queue_ok (comp_snapshots u t)" "peek (comp_snapshots u t) f = Some ?snap"
    using assms(6) by (simp_all add: holds_at_def)
  obtain s1 e1 cs c where l: "run_load A (LoadComponent t m S) u = Inr (u\<lparr>comp_snapshots := (comp_snapshots u)(t := s1),
        ecs_state := e1, pending := pending u @ map EcsCommand cs\<rparr>)"
    "rollback f (comp_snapshots u t) = Inr s1" "data_system E (ecs_state u) (UserKey t) e1 cs"
    "\<forall>e r. carries E (ecs_state u) e r \<longrightarrow>
       user_val (final_value E e1 cs (UserKey t) e) = restored S ?snap r (c e)"
  proof (cases m)
    case Mutable
    obtain s1 e1 cs where "load_components E t S f (ecs_state u) (comp_snapshots u t) = Inr (s1, e1, cs)"
      "rollback f (comp_snapshots u t) = Inr s1" "data_system E (ecs_state u) (UserKey t) e1 cs"
      "\<forall>e r. carries E (ecs_state u) e r \<longrightarrow> user_val (final_value E e1 cs (UserKey t) e)
         = restored S ?snap r (comp_of E (ecs_state u) t e)"
      by (rule load_components_effect [OF assms(2) st])
    then show ?thesis
      using assms(4,7) by (intro that [of cs e1 s1 "comp_of E (ecs_state u) t"]) (simp_all add: Mutable)
  next
    case Immutable
    obtain s1 cs where l: "load_immutable E t S f (ecs_state u) (comp_snapshots u t) = Inr (s1, cs)"
      "rollback f (comp_snapshots u t) = Inr s1" "data_system E (ecs_state u) (UserKey t) (ecs_state u) cs"
      "\<forall>e r. carries E (ecs_state u) e r \<longrightarrow>
         user_val (final_value E (ecs_state u) cs (UserKey t) e) = restored S ?snap r None"
      by (rule load_immutable_effect [OF assms(2) st])
    have "u\<lparr>comp_snapshots := (comp_snapshots u)(t := s1), pending := pending u @ map EcsCommand cs\<rparr>
        = u\<lparr>comp_snapshots := (comp_snapshots u)(t := s1), ecs_state := ecs_state u,
            pending := pending u @ map EcsCommand cs\<rparr>"
      by (cases u) simp
    with l show ?thesis
      using assms(4,7) by (intro that [of cs "ecs_state u" s1 "\<lambda>_. None"]) (simp_all add: Immutable)
  qed
  let ?u = "u\<lparr>comp_snapshots := (comp_snapshots u)(t := s1), ecs_state := e1,
    pending := pending u @ map EcsCommand cs\<rparr>"
  have com: "common E u ?u" using l(3) by (simp add: common_def data_system_def)
  note k = step_on_key [OF assms(1) slot_of.simps(1) l(3) com]
  have k2: "pending_ok E ?u" "\<And>slot. slot \<noteq> KeySlot (UserKey t) \<Longrightarrow> same_slot E u ?u slot"
    "\<And>e. key_value E ?u (UserKey t) e = final_value E e1 cs (UserKey t) e"
    by (rule k; auto split: slot.split)+
  have "user_val (key_value E ?u (UserKey t) e) = map_of (q_components E (ecs_state w0) t) r"
    if "carries E (ecs_state w) e r" for e r
    using l(4) that ready_carries [OF assms(1)] restored_saved [OF assms(3) q_components_get(2) [OF assms(2,5)]]
    by (simp add: k2(3))
  moreover have "holds_at s1 f ?snap"
    using assms(6) l(2) holds_at_rollback by auto
  ultimately have "data_step E f w0 w u (LoadComponent t m S) ?u"
    using com k2(1,2) by (simp add: data_step_def)
  with l(1) show ?thesis by blast
qed

lemma step_childof:
  assumes "data_ready E w u LoadChildOf" "ecs_laws E" "rollback_frame_count u = Some f"
    and "entity_map_res u = Some em" "translates E (ecs_state w0) (ecs_state w) em"
    and "unique_ids E (ecs_state w0)" "stored E f w0 u LoadChildOf" "app_ecs A = E"
  shows "\<exists>u'. run_load A LoadChildOf u = Inr u' \<and> data_step E f w0 w u LoadChildOf u'"
proof -
  let ?e0 = "ecs_state w0"
  define snap where snap: "snap = new_snapshot (map (\<lambda>(r, c). (r, c)) (q_parents E ?e0))"
  have st: "queue_ok (childof_snapshots u)" "peek (childof_snapshots u) f = Some snap"
    using assms(7) by (simp_all only: stored.simps holds_at_def snap)
  have live: "parents_live E (ecs_state u) em snap"
    using translates_parents_live [OF assms(2,6,5), folded snap] assms(1) ready_carries [OF assms(1)]
    by (simp add: parents_live_def data_ready_def common_def)
  obtain s1 cs where l: "load_childof E f (ecs_state u) em (childof_snapshots u) = Inr (s1, cs)"
    "rollback f (childof_snapshots u) = Inr s1" "data_system E (ecs_state u) ChildOfKey (ecs_state u) cs"
    "\<forall>e r. carries E (ecs_state u) e r \<longrightarrow> parent_val (final_value E (ecs_state u) cs ChildOfKey e)
       = restored_parent snap em r (parent_of E (ecs_state u) e)"
    by (rule load_childof_effect [OF assms(2) st live])
  let ?u = "u\<lparr>childof_snapshots := s1, pending := pending u @ map EcsCommand cs\<rparr>"
  have run: "run_load A LoadChildOf u = Inr ?u" using assms(3,4,8) l(1) by simp
  have com: "common E u ?u" by (simp add: common_def)
  note k = step_on_key [OF assms(1) slot_of.simps(2) l(3) com]
  have k2: "pending_ok E ?u" "\<And>slot. slot \<noteq> KeySlot ChildOfKey \<Longrightarrow> same_slot E u ?u slot"
    "\<And>e. key_value E ?u ChildOfKey e = final_value E (ecs_state u) cs ChildOfKey e"
    by (rule k; auto split: slot.split)+
  have "parent_target E ?e0 (ecs_state w) e0 (parent_val (key_value E ?u ChildOfKey e))"
    if "carries E (ecs_state w) e r" "carries E ?e0 e0 r" for e r e0
    using restored_parent_target [OF assms(2,6,5) that(2) snap] l(4) that(1) ready_carries [OF assms(1)]
    by (simp add: k2(3))
  moreover have "holds_at s1 f snap"
    using holds_at_rollback [OF _ l(2)] st by (simp add: holds_at_def)
  ultimately have "data_step E f w0 w u LoadChildOf ?u"
    using com k2(1,2) unfolding snap data_step_def settled.simps stored.simps slot_of.simps
    by (intro conjI allI impI; (elim conjE)?; simp)
  with run show ?thesis by blast
qed

section \<open>The whole set, in any order\<close>

lemma data_sys_slots:
  "data_sys s \<Longrightarrow> slot_of s \<noteq> KeySlot RollbackIdKey \<and> slot_of s \<noteq> KeySlot DespawnedKey"
  by (cases s) auto

lemma data_step_exists:
  assumes "data_ready E w u s" "data_sys s" "strategy_of_ok s" "ecs_laws E" "rollback_frame_count u = Some f"
    and "entity_map_res u = Some em" "translates E (ecs_state w0) (ecs_state w) em"
    and "unique_ids E (ecs_state w0)" "stored E f w0 u s" "app_ecs A = E"
  shows "\<exists>u'. run_load A s u = Inr u' \<and> data_step E f w0 w u s u'"
  using assms step_component [of E w u _ _ _ f w0 A] step_childof [of E w u f em w0 A]
    step_resource [of E w u _ _ f w0 A] step_ordered [of E w u f w0 A] step_time [of E w u f w0 A]
  by (cases s) (simp_all del: run_load.simps stored.simps)

lemma data_stage:
  assumes "ecs_laws E" "app_ecs A = E" "distinct (map slot_of ds)"
    and "\<forall>s \<in> set ds. data_sys s \<and> strategy_of_ok s \<and> stored E f w0 w s"
    and "pending w = []" "rollback_frame_count w = Some f" "entity_map_res w = Some em"
    and "translates E (ecs_state w0) (ecs_state w) em" "unique_ids E (ecs_state w0)"
  shows "\<exists>u. rfold (run_load A) ds w = Inr u \<and> common E w u \<and> pending_ok E u \<and>
    (\<forall>s \<in> set ds. settled E w0 w u s \<and> stored E f w0 u s) \<and>
    (\<forall>slot. slot \<notin> slot_of ` set ds \<longrightarrow> same_slot E w u slot)"
  using assms(3,4)
proof (induction ds rule: rev_induct)
  case Nil
  then show ?case using assms(5) by (auto simp: pending_ok_def simp del: same_slot.simps)
next
  case (snoc s ds)
  then obtain u where u: "rfold (run_load A) ds w = Inr u" "common E w u" "pending_ok E u"
    "\<forall>s \<in> set ds. settled E w0 w u s \<and> stored E f w0 u s"
    "\<forall>slot. slot \<notin> slot_of ` set ds \<longrightarrow> same_slot E w u slot"
    by auto
  have s: "data_sys s" "strategy_of_ok s" "stored E f w0 w s" "slot_of s \<notin> slot_of ` set ds"
    using snoc.prems by auto
  have "\<forall>s \<in> set ds. data_sys s" using snoc.prems(2) by simp
  then have keys: "KeySlot RollbackIdKey \<notin> slot_of ` set ds" "KeySlot DespawnedKey \<notin> slot_of ` set ds"
    using data_sys_slots by fastforce+
  have ready: "data_ready E w u s"
    using u(2,3,5) s(4) keys assms(5) by (simp add: data_ready_def del: same_slot.simps)
  have "rollback_frame_count u = Some f" "entity_map_res u = Some em"
    using u(2) assms(6,7) by (simp_all add: common_def)
  from data_step_exists [OF ready s(1,2) assms(1) this assms(8,9) _ assms(2)]
  obtain u' where u': "run_load A s u = Inr u'" "data_step E f w0 w u s u'"
    using same_slot_stored [OF s(1) _ s(3)] u(5) s(4) by blast
  note d = u'(2) [unfolded data_step_def]
  have "settled E w0 w u' t \<and> stored E f w0 u' t" if "t \<in> set ds" for t
  proof -
    have "slot_of t \<noteq> slot_of s" using that s(4) by (metis imageI)
    then have "same_slot E u u' (slot_of t)" using d by blast
    moreover have "data_sys t" using that snoc.prems(2) by simp
    ultimately show ?thesis
      using u(4) that same_slot_settled same_slot_stored by blast
  qed
  moreover have "same_slot E w u' slot" if "slot \<notin> slot_of ` set (ds @ [s])" for slot
  proof -
    have "same_slot E w u slot" "same_slot E u u' slot" using that u(5) d by auto
    then show ?thesis by (rule same_slot_trans)
  qed
  moreover have "common E w u'" using common_trans [OF u(2)] d by blast
  ultimately show ?case
    using d by (intro exI [of _ u']) (simp add: rfold_append u(1) u'(1) del: same_slot.simps)
qed

section \<open>Mapping\<close>

fun mapping_sys :: "('v, 's) load_sys \<Rightarrow> bool" where
  "mapping_sys (MapComponent t h) = True"
| "mapping_sys (MapResource i h) = True"
| "mapping_sys s = False"

lemma mapping_stage:
  assumes "ecs_laws E" "app_ecs A = E" "\<forall>s \<in> set ms. mapping_sys s" "entity_map_res u = Some em"
  shows "\<exists>u'. rfold (run_load A) ms u = Inr u' \<and> common E u u' \<and> pending u' = pending u \<and>
    (\<forall>slot. slot \<notin> slot_of ` set ms \<longrightarrow> same_slot E u u' slot) \<and>
    (\<forall>f w0 s. data_sys s \<longrightarrow> stored E f w0 u' s = stored E f w0 u s)"
  using assms(3,4)
proof (induction ms arbitrary: u)
  case (Cons m ms)
  have "\<exists>v. run_load A m u = Inr v \<and> common E u v \<and> pending v = pending u \<and>
      (\<forall>slot. slot \<noteq> slot_of m \<longrightarrow> same_slot E u v slot) \<and>
      (\<forall>f w0 s. data_sys s \<longrightarrow> stored E f w0 v s = stored E f w0 u s)"
  proof (cases m)
    case (MapComponent t h)
    let ?e = "update_component_map E t h (app_map_order A) em (ecs_state u)"
    let ?v = "u\<lparr>ecs_state := ?e\<rparr>"
    have e: "set (ents E ?e) = set (ents E (ecs_state u))" "k \<noteq> UserKey t \<longrightarrow> cget E ?e k e' = cget E (ecs_state u) k e'" for k e'
      using map_component_keeps [OF assms(1)] by (simp_all add: update_component_map_def)
    have "same_slot E u ?v slot" if "slot \<noteq> KeySlot (UserKey t)" for slot
      using that e(2) by (cases slot) auto
    moreover have "stored E f w0 ?v s = stored E f w0 u s" for f w0 and s :: "('b, 'c) load_sys"
      by (cases s) simp_all
    ultimately show ?thesis
      using Cons.prems(2) assms(2) e(1) by (intro exI [of _ ?v]) (simp add: MapComponent common_def)
  next
    case (MapResource i h)
    let ?v = "u\<lparr>user_resource := (user_resource u)(i := update_resource_map h em (user_resource u i))\<rparr>"
    have "same_slot E u ?v slot" if "slot \<noteq> ResSlot i" for slot
      using that by (cases slot) auto
    moreover have "stored E f w0 ?v s = stored E f w0 u s" for f w0 and s :: "('b, 'c) load_sys"
      by (cases s) simp_all
    ultimately show ?thesis
      using Cons.prems(2) assms(2) by (intro exI [of _ ?v]) (simp add: MapResource common_def)
  qed (use Cons.prems in auto)
  then obtain v where v: "run_load A m u = Inr v" "common E u v" "pending v = pending u"
      "\<forall>slot. slot \<noteq> slot_of m \<longrightarrow> same_slot E u v slot"
      "\<forall>f w0 s. data_sys s \<longrightarrow> stored E f w0 v s = stored E f w0 u s" by blast
  have "entity_map_res v = Some em" using v(2) Cons.prems(2) by (simp add: common_def)
  with Cons.IH [of v] Cons.prems(1) obtain u' where u': "rfold (run_load A) ms v = Inr u'" "common E v u'"
    "pending u' = pending v" "\<forall>slot. slot \<notin> slot_of ` set ms \<longrightarrow> same_slot E v u' slot"
    "\<forall>f w0 s. data_sys s \<longrightarrow> stored E f w0 u' s = stored E f w0 v s"
    by auto
  show ?case
    using v u' common_trans [OF v(2) u'(2)] same_slot_trans [of E u v _ u']
    by (intro exI [of _ u']) (simp del: same_slot.simps run_load.simps stored.simps)
qed auto

section \<open>The whole schedule\<close>

text \<open>An app whose third-party parts keep their laws and whose types are registered once.\<close>

definition app_ok :: "('w, 'v, 's, 't, 'i, 'x, 'h) app \<Rightarrow> bool" where
  "app_ok A \<longleftrightarrow> ecs_laws (app_ecs A) \<and> orders_ok (app_orders A) \<and> any_order (app_map_order A) \<and>
     distinct (map fst (comp_plugins A)) \<and> distinct (map fst (res_plugins A)) \<and>
     (\<forall>(t, m, S) \<in> set (comp_plugins A). strategy_ok S) \<and>
     (\<forall>(i, S) \<in> set (res_plugins A). strategy_ok S)"

lemma data_systems_ok:
  assumes "app_ok A"
  shows "distinct (map slot_of (data_systems A))"
    "\<forall>s \<in> set (data_systems A). data_sys s \<and> strategy_of_ok s"
proof -
  have c: "map slot_of (map (\<lambda>(t, m, S). LoadComponent t m S) (comp_plugins A))
      = map (\<lambda>t. KeySlot (UserKey t)) (map fst (comp_plugins A))" by auto
  have r: "map slot_of (map (\<lambda>(i, S). LoadResource i S) (res_plugins A))
      = map ResSlot (map fst (res_plugins A))" by auto
  have "distinct (map (\<lambda>t. KeySlot (UserKey t)) (map fst (comp_plugins A)))"
    "distinct (map ResSlot (map fst (res_plugins A)))"
    using assms by (auto simp: app_ok_def distinct_map intro: inj_onI simp del: map_map)
  then show "distinct (map slot_of (data_systems A))"
    unfolding data_systems_def map_append distinct_append c r by auto
  show "\<forall>s \<in> set (data_systems A). data_sys s \<and> strategy_of_ok s"
    using assms by (auto simp: data_systems_def app_ok_def)
qed

lemma mapping_systems_ok: "\<forall>s \<in> set (mapping_systems A). mapping_sys s"
  by (auto simp: mapping_systems_def)

lemma run_ecs_commands:
  assumes "rollback_ordered_res w = Some o1" "apply_commands E cs (ecs_state w, o1) = (e', o2)"
  shows "rfold (run_world_command E) (map EcsCommand cs) w
    = Inr (w\<lparr>ecs_state := e', rollback_ordered_res := Some o2\<rparr>)"
  using assms
proof (induction cs arbitrary: w o1)
  case Nil
  then show ?case by (cases w) auto
next
  case (Cons c cs)
  obtain e3 o3 where c: "apply_command E c (ecs_state w, o1) = (e3, o3)" by fastforce
  have "apply_commands E cs (ecs_state (w\<lparr>ecs_state := e3, rollback_ordered_res := Some o3\<rparr>), o3) = (e', o2)"
    using Cons.prems(2) c by simp
  from Cons.IH [OF _ this] show ?case
    using Cons.prems(1) c by (simp add: run_ecs_command_def)
qed

text \<open>The parents that the load of the hierarchy can follow: rollback entities, not the child itself.\<close>

definition parents_tracked :: "('w, 'v) ecs \<Rightarrow> 'w \<Rightarrow> bool" where
  "parents_tracked E w0 \<longleftrightarrow> (\<forall>e r p. carries E w0 e r \<and> parent_of E w0 e = Some p \<longrightarrow>
     p \<noteq> e \<and> (\<exists>q. carries E w0 p q))"

text \<open>
  What a load asks of the world it starts from, after the entities despawned later are enabled
  again: the entity set can be rebuilt, entity ids were not reused, and an identity that is alive is
  still carried by the entity that carried it at the saved frame.
\<close>

definition loadable :: "('w, 'v) ecs \<Rightarrow> 'w \<Rightarrow> 'w \<Rightarrow> bool" where
  "loadable E w0 w1 \<longleftrightarrow> unique_ids E w0 \<and> unique_ids E w1 \<and> parents_tracked E w0 \<and>
     reconcilable E w1 (new_snapshot (q_entities E w0)) \<and> no_reuse E w1 (new_snapshot (q_entities E w0)) \<and>
     (\<forall>r e e0. carries E w1 e r \<and> carries E w0 e0 r \<longrightarrow> e = e0)"

lemma saved_entities:
  assumes "ecs_laws E" "unique_ids E w0"
  shows "hm_get (new_snapshot (q_entities E w0)) r = Some e \<longleftrightarrow> carries E w0 e r"
    "hm_ok (new_snapshot (q_entities E w0))"
  using hm_get_collect_distinct [OF q_entities_ids(3) [OF assms]] q_entities_ids(1) [OF assms]
  by (simp_all add: new_snapshot_def)

lemma loaded_translates:
  assumes "ecs_laws E" "loadable E w0 w1" "loaded_as E w1 (new_snapshot (q_entities E w0)) N w3"
    and "maps_as E w1 (new_snapshot (q_entities E w0)) N em"
  shows "translates E w0 w3 em"
  unfolding translates_def
proof (intro allI impI)
  fix c r p0 assume a: "carries E w0 c r \<and> parent_of E w0 c = Some p0"
  have u: "unique_ids E w0" using assms(2) by (simp add: loadable_def)
  note snap = saved_entities(1) [OF assms(1) u]
  obtain q where q: "carries E w0 p0 q" "p0 \<noteq> c"
    using a assms(2) unfolding loadable_def parents_tracked_def by blast
  have "q \<noteq> r" using q a carries_unique [OF u] by blast
  moreover have "\<exists>p. get_map em p0 = Some p \<and> carries E w3 p q"
  proof (cases "\<exists>e. carries E w1 e q")
    case True
    then have "carries E w1 p0 q" using q(1) assms(2) unfolding loadable_def by blast
    moreover from this have "get_map em p0 = Some p0"
      using assms(4) q(1) snap unfolding maps_as_def by blast
    ultimately show ?thesis
      using loaded_carries [OF assms(3)] snap q(1) by auto
  next
    case False
    then obtain p where "N p = Some q" using loaded_lost [OF assms(3), of q] snap q(1) by auto
    moreover from this have "get_map em p0 = Some p"
      using assms(4) q(1) snap False unfolding maps_as_def by blast
    ultimately show ?thesis
      using loaded_carries [OF assms(3)] snap q(1) False by auto
  qed
  ultimately show "\<exists>q p. carries E w0 p0 q \<and> q \<noteq> r \<and> get_map em p0 = Some p \<and> carries E w3 p q"
    using q(1) by blast
qed

text \<open>
  What a load leaves alone: the checksum parts and flags, and the identities, of an entity that does
  not come or go. An entity that it spawns has no part and no flag.
\<close>

definition marks_kept :: "('w, 'v) ecs \<Rightarrow> 'w \<Rightarrow> 'w \<Rightarrow> bool" where
  "marks_kept E x y \<longleftrightarrow> (\<forall>e.
     cget E y PartKey e = None \<and> (\<forall>flag. cget E y (FlagKey flag) e = None) \<or>
     (\<forall>k. k = RollbackIdKey \<or> k = PartKey \<or> (\<exists>flag. k = FlagKey flag) \<longrightarrow> cget E y k e = cget E x k e) \<and>
     (enabled E x e \<longrightarrow> enabled E y e))"

lemma loaded_marks:
  assumes "ecs_laws E" "loaded_as E (resurrect_entities E f x) snapshot N y"
  shows "marks_kept E x y"
  unfolding marks_kept_def
proof
  fix e
  let ?x = "resurrect_entities E f x"
  have keys: "cget E ?x k e = cget E x k e" if "k \<noteq> DespawnedKey" for k
    using that by (simp add: resurrect_effect [OF assms(1)])
  have en: "enabled E x e \<longrightarrow> enabled E ?x e" by (simp add: enabled_def resurrect_effect [OF assms(1)])
  show "cget E y PartKey e = None \<and> (\<forall>flag. cget E y (FlagKey flag) e = None) \<or>
     (\<forall>k. k = RollbackIdKey \<or> k = PartKey \<or> (\<exists>flag. k = FlagKey flag) \<longrightarrow> cget E y k e = cget E x k e) \<and>
     (enabled E x e \<longrightarrow> enabled E y e)"
  proof (cases "N e")
    case (Some r)
    then show ?thesis by (simp add: loaded_new_value [OF assms(2)] spawned_value_def)
  next
    case None
    from loaded_others [OF assms(2) None] show ?thesis
    proof
      assume "\<forall>k. cget E y k e = cget E ?x k e"
      then show ?thesis using keys en by (auto simp: enabled_def)
    qed simp
  qed
qed

lemma marks_kept_cong:
  assumes "marks_kept E x y" "\<And>k e. k \<noteq> ChildOfKey \<Longrightarrow> (\<And>t. k \<noteq> UserKey t) \<Longrightarrow> cget E z k e = cget E y k e"
  shows "marks_kept E x z"
proof -
  have "cget E z k e = cget E y k e" if "k = RollbackIdKey \<or> k = PartKey \<or> (\<exists>flag. k = FlagKey flag) \<or> k = DespawnedKey" for k e
    using that by (intro assms(2)) auto
  then show ?thesis using assms(1) by (simp add: marks_kept_def enabled_def)
qed

text \<open>The first three systems: the entities.\<close>

lemma entity_stage:
  assumes "app_ok A" "app_ecs A = E" "rollback_frame_count w = Some f" "entity_map_res w = Some em0"
    and "rollback_ordered_res w = Some o0" "pending w = []"
    and "loadable E (ecs_state w0) (resurrect_entities E f (ecs_state w))" "stored E f w0 w LoadEntities"
  obtains u em where "rfold (run_load A) [ResurrectEntities, LoadEntities, EntityFlush] w = Inr u"
    "pending u = []" "rollback_frame_count u = Some f" "entity_map_res u = Some em"
    "translates E (ecs_state w0) (ecs_state u) em" "unique_ids E (ecs_state u)"
    "\<forall>r. (\<exists>e. carries E (ecs_state u) e r) \<longleftrightarrow> (\<exists>e. carries E (ecs_state w0) e r)"
    "stored E f w0 u LoadEntities"
    "\<forall>s. data_sys s \<longrightarrow> stored E f w0 u s = stored E f w0 w s"
    "schedules u = schedules w" "session_res u = session_res w"
    "confirmed_frame_count u = confirmed_frame_count w" "max_prediction_window u = max_prediction_window w"
    "marks_kept E (ecs_state w) (ecs_state u)"
proof -
  let ?w1 = "resurrect_entities E f (ecs_state w)" and ?snap = "new_snapshot (q_entities E (ecs_state w0))"
  have laws: "ecs_laws E" "orders_ok (app_orders A)" using assms(1,2) by (auto simp: app_ok_def)
  note ld = assms(7) [unfolded loadable_def]
  have u: "unique_ids E (ecs_state w0)" "unique_ids E ?w1" using ld by auto
  note snap = saved_entities [OF laws(1) u(1)]
  have st: "queue_ok (entity_snapshots w)" "peek (entity_snapshots w) f = Some ?snap"
    using assms(8) by (simp_all add: holds_at_def)
  have rc: "reconcilable E ?w1 ?snap" "no_reuse E ?w1 ?snap" using ld by auto
  obtain snaps1 em w3 and cs :: "'b command list" and N where l:
    "rollback f (entity_snapshots w) = Inr snaps1"
    "load_entities (app_orders A) (reserve E ?w1) f (q_entities E ?w1) (entity_snapshots w) = Inr (snaps1, em, cs)"
    "apply_commands E cs (?w1, o0) = (w3, o0)" "loaded_as E ?w1 ?snap N w3"
    "no_reuse E ?w1 ?snap \<longrightarrow> maps_as E ?w1 ?snap N em"
    by (rule load_entities_effect [OF laws(2,1) u(2) st snap(2) rc(1), of o0])
  let ?u1 = "w\<lparr>ecs_state := ?w1\<rparr>"
  let ?u2 = "?u1\<lparr>entity_snapshots := snaps1, entity_map_res := Some em, pending := map EcsCommand cs\<rparr>"
  let ?u = "?u2\<lparr>pending := [], ecs_state := w3, rollback_ordered_res := Some o0\<rparr>"
  have "next_reserved E ?u1 = reserve E ?w1"
    using assms(6) by (simp add: next_reserved_def fun_eq_iff)
  then have r2: "run_load A LoadEntities ?u1 = Inr ?u2"
    using assms(2-4,6) l(2) by simp
  have "rfold (run_world_command E) (map EcsCommand cs) (?u2\<lparr>pending := []\<rparr>) = Inr ?u"
    by (rule run_ecs_commands [of _ o0]) (simp_all add: assms(5) l(3))
  then have r3: "run_load A EntityFlush ?u2 = Inr ?u"
    using assms(2) by (simp add: apply_deferred_def)
  have run: "rfold (run_load A) [ResurrectEntities, LoadEntities, EntityFlush] w = Inr ?u"
    using assms(2,3) r2 r3 by (simp del: run_load.simps(2,3))
  have tr: "translates E (ecs_state w0) w3 em"
    using loaded_translates [OF laws(1) assms(7) l(4)] l(5) rc(2) by blast
  have ids: "(\<exists>e. carries E w3 e r) \<longleftrightarrow> (\<exists>e. carries E (ecs_state w0) e r)" for r
  proof -
    have "hm_get ?snap r \<noteq> None \<longleftrightarrow> (\<exists>e. carries E (ecs_state w0) e r)"
      using snap(1) [of r] by auto
    then show ?thesis using loaded_carries [OF l(4), of _ r] loaded_lost [OF l(4), of r] by blast
  qed
  have st3: "holds_at snaps1 f ?snap"
    using assms(8) l(1) holds_at_rollback by auto
  have data: "stored E f w0 ?u s = stored E f w0 w s" if "data_sys s" for s :: "('b, 'c) load_sys"
    using that by (cases s) simp_all
  show ?thesis
    by (rule that [OF run]) (use assms(3) tr loaded_unique [OF l(4)] ids st3 data
        loaded_marks [OF laws(1) l(4)] in \<open>simp_all\<close>)
qed

end
