(* ===== verification/RestoreWorld.thy ===== *)
theory RestoreWorld
  imports LoadRestores
begin

text \<open>
  The contract of \<open>LoadWorld\<close>: in every order Bevy may choose, the schedule turns a world whose
  storages hold frame \<open>f\<close> into one that agrees with the world saved at \<open>f\<close>.
\<close>

section \<open>What is restored\<close>

text \<open>
  Two worlds agree when the same identities are alive, every identity has the same components
  and the same parent (by identity), and the resources are equal. Types that the app registered for
  entity mapping are left out: their values are rewritten after the load.
\<close>

definition restored_world ::
  "('w, 'v, 's, 't, 'i, 'x, 'h) app \<Rightarrow> ('w, 'v, 's, 't, 'i, 'x) world \<Rightarrow> ('w, 'v, 's, 't, 'i, 'x) world \<Rightarrow> bool" where
  "restored_world A w0 w \<longleftrightarrow> (let E = app_ecs A in
     unique_ids E (ecs_state w) \<and>
     (\<forall>r. (\<exists>e. carries E (ecs_state w) e r) \<longleftrightarrow> (\<exists>e. carries E (ecs_state w0) e r)) \<and>
     (\<forall>t \<in> fst ` set (comp_plugins A) - fst ` set (comp_map_plugins A).
        map_of (q_components E (ecs_state w) t) = map_of (q_components E (ecs_state w0) t)) \<and>
     (\<forall>e r e0. carries E (ecs_state w) e r \<and> carries E (ecs_state w0) e0 r \<longrightarrow>
        parent_target E (ecs_state w0) (ecs_state w) e0 (parent_of E (ecs_state w) e)) \<and>
     (\<forall>i \<in> fst ` set (res_plugins A) - fst ` set (res_map_plugins A).
        user_resource w i = user_resource w0 i) \<and>
     rollback_ordered_res w = rollback_ordered_res w0 \<and> ggrs_time w = ggrs_time w0)"

section \<open>Settled slots of a world without waiting commands\<close>

lemma settled_flushed:
  assumes "data_sys s" "settled E w0 w v s" "\<forall>k e. cget E e' k e = key_value E v k e"
  shows "settled E w0 w (v\<lparr>ecs_state := e', pending := [], user_resource := res_value v,
    rollback_ordered_res := ordered_value v, ggrs_time := time_value v\<rparr>) s"
  using assms
  by (cases s) (simp_all add: key_value_def res_value_def ordered_value_def time_value_def)

lemma stored_flushed:
  "stored E f w0 (v\<lparr>ecs_state := e', pending := cs, user_resource := rs, rollback_ordered_res := ord,
     ggrs_time := tm\<rparr>) s = stored E f w0 v s"
  by (cases s) simp_all

lemma settled_components:
  assumes "ecs_laws E" "unique_ids E (ecs_state w0)" "unique_ids E (ecs_state v)" "pending v = []"
    and "settled E w0 w v (LoadComponent t m S)"
    and "\<And>e r. carries E (ecs_state v) e r = carries E (ecs_state w) e r"
    and "\<And>r. (\<exists>e. carries E (ecs_state w) e r) = (\<exists>e. carries E (ecs_state w0) e r)"
  shows "map_of (q_components E (ecs_state v) t) = map_of (q_components E (ecs_state w0) t)"
proof
  fix r
  have val: "comp_of E (ecs_state v) t e = map_of (q_components E (ecs_state w0) t) r"
    if "carries E (ecs_state w) e r" for e
    using assms(4,5) that by (simp add: comp_of_user_val key_value_def)
  have "map_of (q_components E (ecs_state v) t) r = Some x
      \<longleftrightarrow> map_of (q_components E (ecs_state w0) t) r = Some x" for x
  proof -
    have "map_of (q_components E (ecs_state v) t) r = Some x
        \<longleftrightarrow> (\<exists>e. carries E (ecs_state w) e r \<and> comp_of E (ecs_state v) t e = Some x)"
      using q_components_get(1) [OF assms(1,3)] assms(6) by simp
    also have "\<dots> \<longleftrightarrow> (\<exists>e. carries E (ecs_state w) e r) \<and> map_of (q_components E (ecs_state w0) t) r = Some x"
      using val by auto
    also have "\<dots> \<longleftrightarrow> map_of (q_components E (ecs_state w0) t) r = Some x"
      using assms(7) [of r] q_components_get(1) [OF assms(1,2)] by blast
    finally show ?thesis .
  qed
  then show "map_of (q_components E (ecs_state v) t) r = map_of (q_components E (ecs_state w0) t) r"
    by (metis option.exhaust)
qed

lemma apply_deferred_empty: "pending w = [] \<Longrightarrow> apply_deferred E w = Inr w"
  by (cases w) (simp add: apply_deferred_def)

section \<open>The \<open>Data\<close> set, its flush and the mapping\<close>

text \<open>From the world after the entities are rebuilt to the end of the schedule.\<close>

lemma data_and_mapping:
  assumes "app_ok A" "app_ecs A = E" "mset ds = mset (data_systems A)" "mset ms = mset (mapping_systems A)"
    and "\<forall>s \<in> set ds. stored E f w0 u s" "pending u = []" "rollback_frame_count u = Some f"
    and "entity_map_res u = Some em" "translates E (ecs_state w0) (ecs_state u) em"
    and "unique_ids E (ecs_state w0)"
  obtains v where "run_schedule E (run_load A) (ds @ [DataFlush] @ ms) u = Inr v"
    "common E u v" "pending v = []" "\<forall>s \<in> set ds. stored E f w0 v s"
    "\<forall>s \<in> set ds. slot_of s \<notin> slot_of ` set ms \<longrightarrow> settled E w0 u v s"
    "\<forall>k. k \<noteq> ChildOfKey \<and> (\<forall>t. k \<noteq> UserKey t) \<longrightarrow> same_slot E u v (KeySlot k)"
proof -
  have laws: "ecs_laws E" using assms(1,2) by (simp add: app_ok_def)
  have sets: "set ds = set (data_systems A)" "set ms = set (mapping_systems A)"
    using assms(3,4) by (auto dest: mset_eq_setD)
  have "mset (map slot_of ds) = mset (map slot_of (data_systems A))" using assms(3) by simp
  then have dist: "distinct (map slot_of ds)"
    using data_systems_ok(1) [OF assms(1)] mset_eq_imp_distinct_iff by blast
  have ok: "\<forall>s \<in> set ds. data_sys s \<and> strategy_of_ok s \<and> stored E f w0 u s"
    using data_systems_ok(2) [OF assms(1)] assms(5) sets(1) by blast
  obtain v where v: "rfold (run_load A) ds u = Inr v" "common E u v" "pending_ok E v"
    "\<forall>s \<in> set ds. settled E w0 u v s \<and> stored E f w0 v s"
    "\<forall>slot. slot \<notin> slot_of ` set ds \<longrightarrow> same_slot E u v slot"
    using data_stage [OF laws assms(2) dist ok assms(6-10)] by blast
  obtain e' where e': "apply_deferred E v = Inr (v\<lparr>ecs_state := e', pending := [],
      user_resource := res_value v, rollback_ordered_res := ordered_value v, ggrs_time := time_value v\<rparr>)"
    "set (ents E e') = set (ents E (ecs_state v))" "\<forall>k e. cget E e' k e = key_value E v k e"
    using v(3) by (auto simp: pending_ok_def intro: apply_deferred_settles [OF laws])
  define v1 where "v1 = v\<lparr>ecs_state := e', pending := [],
      user_resource := res_value v, rollback_ordered_res := ordered_value v, ggrs_time := time_value v\<rparr>"
  have com1: "common E v v1" using e'(2) by (simp add: common_def v1_def)
  have set1: "\<forall>s \<in> set ds. settled E w0 u v1 s \<and> stored E f w0 v1 s"
    using v(4) ok settled_flushed [OF _ _ e'(3), of _ w0 u] by (auto simp: v1_def stored_flushed)
  have em1: "entity_map_res v1 = Some em" using v(2) com1 assms(8) by (simp add: common_def)
  obtain v2 where v2: "rfold (run_load A) ms v1 = Inr v2" "common E v1 v2" "pending v2 = pending v1"
    "\<forall>slot. slot \<notin> slot_of ` set ms \<longrightarrow> same_slot E v1 v2 slot"
    "\<forall>f w0 s. data_sys s \<longrightarrow> stored E f w0 v2 s = stored E f w0 v1 s"
    using mapping_stage [OF laws assms(2) _ em1, of ms] mapping_systems_ok [of A] sets(2) by blast
  have p2: "pending v2 = []" using v2(3) by (simp add: v1_def)
  have flush: "run_load A DataFlush v = Inr v1" using e'(1) assms(2) by (simp add: v1_def)
  have run: "run_schedule E (run_load A) (ds @ [DataFlush] @ ms) u = Inr v2"
    using v(1) v2(1) flush apply_deferred_empty [OF p2]
    by (simp add: run_schedule_def rfold_append del: run_load.simps)
  have ids: "same_slot E u v2 (KeySlot k)" if "k \<noteq> ChildOfKey" "\<forall>t. k \<noteq> UserKey t" for k
  proof -
    have "slot_of s \<noteq> KeySlot k" if "data_sys s" for s :: "('b, 'c) load_sys"
      using that \<open>k \<noteq> ChildOfKey\<close> \<open>\<forall>t. k \<noteq> UserKey t\<close> by (cases s) auto
    then have "KeySlot k \<notin> slot_of ` set ds" using ok by force
    then have a: "same_slot E u v (KeySlot k)" using v(5) by blast
    moreover have "same_slot E v v1 (KeySlot k)"
      using a that e'(3) assms(6) by (auto simp: v1_def key_value_def)
    moreover have "KeySlot k \<notin> slot_of ` set ms"
      using that by (auto simp: sets(2) mapping_systems_def)
    ultimately show ?thesis using v2(4) same_slot_trans by blast
  qed
  have "\<forall>s \<in> set ds. slot_of s \<notin> slot_of ` set ms \<longrightarrow> settled E w0 u v2 s"
    using v2(4) set1 ok same_slot_settled by blast
  moreover have "\<forall>s \<in> set ds. stored E f w0 v2 s" using set1 v2(5) ok by blast
  ultimately show ?thesis
    using that [OF run] common_trans [OF v(2) common_trans [OF com1 v2(2)]] p2 ids by blast
qed

section \<open>The contract\<close>

lemma load_effect:
  assumes "app_ok A" and "admissible load_before (load_systems A) xs"
    and "pending w = []" and "rollback_frame_count w = Some f" and "entity_map_res w \<noteq> None"
    and "rollback_ordered_res w \<noteq> None"
    and "\<forall>s \<in> set (load_systems A). stored (app_ecs A) f w0 w s"
    and "loadable (app_ecs A) (ecs_state w0) (resurrect_entities (app_ecs A) f (ecs_state w))"
  shows "\<exists>w'. load_world A xs w = Inr w' \<and> restored_world A w0 w' \<and> pending w' = [] \<and>
    rollback_frame_count w' = Some f \<and> schedules w' = schedules w \<and>
    (\<forall>s \<in> set (load_systems A). stored (app_ecs A) f w0 w' s) \<and>
    marks_kept (app_ecs A) (ecs_state w) (ecs_state w')"
proof -
  define E where E: "E = app_ecs A"
  have laws: "ecs_laws E" using assms(1) by (simp add: app_ok_def E)
  have u0: "unique_ids E (ecs_state w0)" using assms(8) by (simp add: loadable_def E)
  obtain ds ms where xs: "xs = [ResurrectEntities, LoadEntities, EntityFlush] @ ds @ [DataFlush] @ ms"
    "mset ds = mset (data_systems A)" "mset ms = mset (mapping_systems A)"
    by (rule load_order [OF assms(2)])
  have sets: "set ds = set (data_systems A)" "set ms = set (mapping_systems A)"
    using xs(2,3) by (auto dest: mset_eq_setD)
  have in_load: "s \<in> set (load_systems A)" if "s \<in> set ds" for s
    using that sets(1) by (simp add: load_systems_def)
  have data: "data_sys s" if "s \<in> set ds" for s
    using that sets(1) data_systems_ok(2) [OF assms(1)] by blast
  obtain em0 o0 where em0: "entity_map_res w = Some em0" "rollback_ordered_res w = Some o0"
    using assms(5,6) by blast
  have LE: "stored E f w0 w LoadEntities"
    using assms(7) by (simp add: E load_systems_def del: stored.simps)
  obtain u em where u: "rfold (run_load A) [ResurrectEntities, LoadEntities, EntityFlush] w = Inr u"
    "pending u = []" "rollback_frame_count u = Some f" "entity_map_res u = Some em"
    "translates E (ecs_state w0) (ecs_state u) em" "unique_ids E (ecs_state u)"
    "\<forall>r. (\<exists>e. carries E (ecs_state u) e r) \<longleftrightarrow> (\<exists>e. carries E (ecs_state w0) e r)"
    "stored E f w0 u LoadEntities"
    "\<forall>s. data_sys s \<longrightarrow> stored E f w0 u s = stored E f w0 w s" "schedules u = schedules w"
    "session_res u = session_res w" "confirmed_frame_count u = confirmed_frame_count w"
    "max_prediction_window u = max_prediction_window w" "marks_kept E (ecs_state w) (ecs_state u)"
    by (rule entity_stage [OF assms(1) E [symmetric] assms(4) em0 assms(3) assms(8) [folded E] LE])
  have st: "\<forall>s \<in> set ds. stored E f w0 u s"
    using u(9) data in_load assms(7) by (simp add: E)
  obtain v where v: "run_schedule E (run_load A) (ds @ [DataFlush] @ ms) u = Inr v"
    "common E u v" "pending v = []" "\<forall>s \<in> set ds. stored E f w0 v s"
    "\<forall>s \<in> set ds. slot_of s \<notin> slot_of ` set ms \<longrightarrow> settled E w0 u v s"
    "\<forall>k. k \<noteq> ChildOfKey \<and> (\<forall>t. k \<noteq> UserKey t) \<longrightarrow> same_slot E u v (KeySlot k)"
    by (rule data_and_mapping [OF assms(1) E [symmetric] xs(2,3) st u(2-5) u0])
  have same: "cget E (ecs_state v) k e = cget E (ecs_state u) k e" if "k \<noteq> ChildOfKey" "\<And>t. k \<noteq> UserKey t" for k e
    using v(6) that by simp
  have run: "load_world A xs w = Inr v"
    using v(1) unfolding load_world_def run_schedule_def xs(1) rfold_append [of _ "[_, _, _]"] u(1)
    by (simp add: E)
  have rid: "rid_of E (ecs_state v) e = rid_of E (ecs_state u) e" for e
    by (simp add: rid_of_def same)
  have car: "carries E (ecs_state v) e r = carries E (ecs_state u) e r" for e r
    by (simp add: carries_def enabled_def rid same)
  have uv: "unique_ids E (ecs_state v)" using u(6) by (simp add: unique_ids_def rid)
  have settled: "settled E w0 u v s" if "s \<in> set (data_systems A)" "slot_of s \<notin> slot_of ` set (mapping_systems A)" for s
    using v(5) that sets by blast
  have comps: "map_of (q_components E (ecs_state v) t) = map_of (q_components E (ecs_state w0) t)"
    if t: "t \<in> fst ` set (comp_plugins A)" "t \<notin> fst ` set (comp_map_plugins A)" for t
  proof -
    obtain m S where "(t, m, S) \<in> set (comp_plugins A)" using t(1) by force
    then have "settled E w0 u v (LoadComponent t m S)"
      using t(2) by (intro settled) (force simp: data_systems_def, force simp: mapping_systems_def)
    then show ?thesis
      using settled_components [OF laws u0 uv v(3) _ car] u(7) by blast
  qed
  have ress: "user_resource v i = user_resource w0 i"
    if i: "i \<in> fst ` set (res_plugins A)" "i \<notin> fst ` set (res_map_plugins A)" for i
  proof -
    obtain S where "(i, S) \<in> set (res_plugins A)" using i(1) by force
    then have "settled E w0 u v (LoadResource i S)"
      using i(2) by (intro settled) (force simp: data_systems_def, force simp: mapping_systems_def)
    then show ?thesis using v(3) by (simp add: res_value_def)
  qed
  have "settled E w0 u v LoadOrdered" "settled E w0 u v LoadTime" "settled E w0 u v LoadChildOf"
    by (intro settled; force simp: data_systems_def mapping_systems_def)+
  then have rest: "rollback_ordered_res v = rollback_ordered_res w0" "ggrs_time v = ggrs_time w0"
    "\<forall>e r e0. carries E (ecs_state v) e r \<and> carries E (ecs_state w0) e0 r \<longrightarrow>
        parent_target E (ecs_state w0) (ecs_state v) e0 (parent_of E (ecs_state v) e)"
    using v(3) parent_target_cong [of E "ecs_state v" "ecs_state u" "ecs_state w0"]
    by (simp_all add: ordered_value_def time_value_def key_value_def parent_of_val car)
  have "restored_world A w0 v"
    unfolding restored_world_def Let_def E [symmetric]
    using uv car u(7) comps ress rest by (simp add: Ball_def)
  moreover have "stored E f w0 v s" if "s \<in> set (load_systems A)" for s
  proof (cases "data_sys s")
    case True
    then have "s \<in> set ds" using that sets by (auto simp: load_systems_def mapping_systems_def)
    then show ?thesis using v(4) by blast
  next
    case False
    have "stored E f w0 v LoadEntities" using u(8) v(2) by (simp add: common_def)
    then show ?thesis using False by (cases s) simp_all
  qed
  moreover have "rollback_frame_count v = Some f" "schedules v = schedules w"
    using u(3,10) v(2) by (simp_all add: common_def)
  moreover have "marks_kept E (ecs_state w) (ecs_state v)" by (rule marks_kept_cong [OF u(14) same])
  ultimately show ?thesis using run v(3) by (simp add: E)
qed

text \<open>
  C4: Loading a frame restores the world of that frame, whatever order Bevy runs the systems in. If
  every storage holds at \<open>f\<close> what its save stores of the world \<open>w0\<close>, \<open>LoadWorld\<close> does not panic, and
  in the world it leaves the identities alive, the components of each, the hierarchy by identity,
  the resources, the order of identities and the clock are those of \<open>w0\<close>; the frame is kept,
  no command waits, and the storages still hold \<open>f\<close>, so the frame can be loaded again.
\<close>

theorem load_world_restores:
  assumes "app_ok A" and "admissible load_before (load_systems A) xs"
    and "pending w = []" and "rollback_frame_count w = Some f" and "entity_map_res w \<noteq> None"
    and "rollback_ordered_res w \<noteq> None"
    and "\<forall>s \<in> set (load_systems A). stored (app_ecs A) f w0 w s"
    and "loadable (app_ecs A) (ecs_state w0) (resurrect_entities (app_ecs A) f (ecs_state w))"
  shows "\<exists>w'. load_world A xs w = Inr w' \<and> restored_world A w0 w' \<and> pending w' = [] \<and>
    rollback_frame_count w' = Some f \<and> schedules w' = schedules w \<and>
    (\<forall>s \<in> set (load_systems A). stored (app_ecs A) f w0 w' s)"
  using load_effect [OF assms] by blast

text \<open>
  An example: a player with a component and its weapon at frame 1; later the weapon is lost, the
  component has changed and a third entity has appeared.
\<close>

definition saved_table :: "int table" where
  "saved_table = \<lparr>table_rows = [(2, [(RollbackIdKey, IdVal (RollbackId 2)), (UserKey 0, UserVal 5)]),
     (3, [(RollbackIdKey, IdVal (RollbackId 3)), (ChildOfKey, ParentVal 2)])], next_id = 4\<rparr>"

definition later_table :: "int table" where
  "later_table = \<lparr>table_rows = [(2, [(RollbackIdKey, IdVal (RollbackId 2)), (UserKey 0, UserVal 9)]),
     (4, [(RollbackIdKey, IdVal (RollbackId 4)), (UserKey 0, UserVal 1)])], next_id = 5\<rparr>"

text \<open>A session that answers with the requests it was made with, and keeps what is saved to its cells.\<close>

record script_session =
  script :: "int ggrs_request list list"
  cells :: "(nat \<times> i32 \<times> u128 option) list"
  inputs_given :: "(nat \<times> int) list"

definition script_ops :: "(script_session, int) session_ops" where
  "script_ops = \<lparr>num_players = (\<lambda>_. 2), local_player_handles = (\<lambda>_. [0]),
     add_local_input = (\<lambda>h i s. if h < 2 then Inr (s\<lparr>inputs_given := inputs_given s @ [(h, i)]\<rparr>)
       else Inl (OtherError ''InvalidRequest'')),
     advance_frame = (\<lambda>s. case script s of
         [] \<Rightarrow> (Inl PredictionThreshold, s)
       | rs # rest \<Rightarrow> (Inr rs, s\<lparr>script := rest\<rparr>)),
     current_state = (\<lambda>_. Running), poll_remote_clients = (\<lambda>s. s), frames_ahead = (\<lambda>_. 1),
     max_prediction = (\<lambda>_. 8), confirmed_frame = (\<lambda>_. 0), check_distance = (\<lambda>_. 2),
     cell_save = (\<lambda>c f x s. s\<lparr>cells := cells s @ [(c, f, x)]\<rparr>)\<rparr>"

type_synonym demo_world_state = "(int table, int, int, nat \<times> nat, int, script_session) world"

definition plain_world :: "int table \<Rightarrow> rollback_ordered \<Rightarrow> demo_world_state" where
  "plain_world e ordered = \<lparr>ecs_state = e, pending = [], rollback_ordered_res = Some ordered,
     rollback_frame_count = Some 0, confirmed_frame_count = Some (- 1), max_prediction_window = Some 8,
     entity_map_res = Some (RollbackEntityMap []), user_resource = (\<lambda>_. None), ggrs_time = Some (0, 0),
     checksum_res = Some 0, entity_snapshots = default_snapshots, childof_snapshots = default_snapshots,
     comp_snapshots = (\<lambda>_. default_snapshots), res_snapshots = (\<lambda>_. default_snapshots),
     ordered_snapshots = default_snapshots, time_snapshots = default_snapshots, last_confirmed = 0,
     schedules = [LoadWorld, SaveWorld, AdvanceWorld], session_res = None, local_players = None,
     local_inputs = None, player_inputs = None, frame_rate = Some 60, default_time = Some (0, 0), virtual_time = Some (0, 0),
     fixed_timestep = Some \<lparr>accumulator = 0, run_slow = False\<rparr>\<rparr>"

definition demo_app :: "(int table, int, int, nat \<times> nat, int, script_session, u64) app" where
  "demo_app = \<lparr>app_ecs = table_ecs, app_time = plain_clock, app_hasher = toy_hasher, app_session = script_ops,
     app_orders = in_memory_order, app_map_order = (\<lambda>xs. xs),
     comp_plugins = [(0, Mutable, copy_strategy)], res_plugins = [(0, copy_strategy)],
     comp_map_plugins = [], res_map_plugins = [], comp_checksums = [(0, word_of_int)],
     res_checksums = [(0, word_of_int)], ggrs_schedule = Inr, read_inputs = Inr, on_mismatch = (\<lambda>_ _. Inr)\<rparr>"

definition saved_world :: demo_world_state where
  "saved_world = (plain_world saved_table order_a)\<lparr>rollback_frame_count := Some 1,
     user_resource := (\<lambda>_. None)(0 := Some 7), ggrs_time := Some (16, 16)\<rparr>"

definition later_state :: demo_world_state where
  "later_state = (plain_world later_table (push_ordered (RollbackId 4) order_a))\<lparr>
     rollback_frame_count := Some 1, user_resource := (\<lambda>_. None), ggrs_time := Some (50, 17),
     entity_snapshots := holding (new_snapshot (q_entities table_ecs saved_table)),
     childof_snapshots := holding (new_snapshot (map (\<lambda>(r, c). (r, c)) (q_parents table_ecs saved_table))),
     comp_snapshots := (\<lambda>t. holding (new_snapshot (map (\<lambda>(r, c). (r, c)) (q_components table_ecs saved_table t)))),
     res_snapshots := (\<lambda>i. holding (user_resource saved_world i)),
     ordered_snapshots := holding (Some order_a), time_snapshots := holding (Some (16, 16))\<rparr>"

lemma saved_get: "t_get saved_table k e =
    (if e = 2 then (if k = RollbackIdKey then Some (IdVal (RollbackId 2))
       else if k = UserKey 0 then Some (UserVal 5) else None)
     else if e = 3 then (if k = RollbackIdKey then Some (IdVal (RollbackId 3))
       else if k = ChildOfKey then Some (ParentVal 2) else None) else None)"
  by (simp add: t_get_def saved_table_def)

lemma later_get: "t_get later_table k e =
    (if e = 2 then (if k = RollbackIdKey then Some (IdVal (RollbackId 2))
       else if k = UserKey 0 then Some (UserVal 9) else None)
     else if e = 4 then (if k = RollbackIdKey then Some (IdVal (RollbackId 4))
       else if k = UserKey 0 then Some (UserVal 1) else None) else None)"
  by (simp add: t_get_def later_table_def)

lemma example_carries:
  "carries table_ecs saved_table e r \<longleftrightarrow> e = 2 \<and> r = RollbackId 2 \<or> e = 3 \<and> r = RollbackId 3"
  "carries table_ecs later_table e r \<longleftrightarrow> e = 2 \<and> r = RollbackId 2 \<or> e = 4 \<and> r = RollbackId 4"
  by (auto simp: carries_def rid_of_def enabled_def saved_get later_get split: if_splits)

lemma example_loadable:
  "loadable table_ecs saved_table (resurrect_entities table_ecs 1 later_table)"
proof -
  have r: "resurrect_entities table_ecs 1 later_table = later_table" by code_simp
  have u: "unique_ids table_ecs saved_table" "unique_ids table_ecs later_table"
    by (auto simp: unique_ids_def rid_of_def saved_get later_get split: if_splits)
  have "parents_tracked table_ecs saved_table"
    unfolding parents_tracked_def
    by (auto simp: example_carries parent_of_def saved_get split: if_splits)
  moreover have b: "below table_ecs later_table p e \<Longrightarrow> e = p" for p e
    by (induction rule: below.induct) (auto simp: later_get split: if_splits)
  have "reconcilable table_ecs later_table (new_snapshot (q_entities table_ecs saved_table))"
    unfolding reconcilable_def
  proof (intro conjI allI impI)
    show "hm_get (new_snapshot (q_entities table_ecs saved_table)) r = None"
      if "rid_of table_ecs later_table e = Some r \<and> \<not> enabled table_ecs later_table e" for e r
      using that by (auto simp: enabled_def later_get split: if_splits)
    show "hm_get (new_snapshot (q_entities table_ecs saved_table)) r = None"
      if a: "carries table_ecs later_table p q \<and> hm_get (new_snapshot (q_entities table_ecs saved_table)) q = None
        \<and> below table_ecs later_table p e \<and> carries table_ecs later_table e r" for p q e r
    proof -
      have "e = p" using a b by blast
      then have "q = r" using a by (auto simp: carries_def)
      then show ?thesis using a by auto
    qed
  qed
  moreover have "no_reuse table_ecs later_table (new_snapshot (q_entities table_ecs saved_table))"
    unfolding no_reuse_def saved_entities(1) [OF table_ecs_laws u(1)] example_carries
    by (auto simp: rid_of_def later_get split: if_splits)
  ultimately show ?thesis
    unfolding loadable_def r using u by (auto simp: example_carries)
qed

theorem load_world_restores_witness:
  "\<exists>w'. load_world demo_app [ResurrectEntities, LoadEntities, EntityFlush, LoadResource 0 copy_strategy,
      LoadTime, LoadChildOf, LoadComponent 0 Mutable copy_strategy, LoadOrdered, DataFlush] later_state = Inr w' \<and>
    restored_world demo_app saved_world w' \<and> rollback_frame_count w' = Some 1"
proof -
  let ?xs = "[ResurrectEntities, LoadEntities, EntityFlush, LoadResource 0 copy_strategy,
      LoadTime, LoadChildOf, LoadComponent 0 Mutable copy_strategy, LoadOrdered, DataFlush]"
  have a: "app_ok demo_app"
    by (simp add: app_ok_def demo_app_def strategy_ok_copy)
  have b: "admissible load_before (load_systems demo_app) ?xs"
    by (simp add: admissible_def load_before_def load_systems_def data_systems_def mapping_systems_def demo_app_def)
  have c: "pending later_state = []" "rollback_frame_count later_state = Some 1"
    "entity_map_res later_state \<noteq> None" "rollback_ordered_res later_state \<noteq> None"
    "ecs_state later_state = later_table" "ecs_state saved_world = saved_table"
    by (simp_all add: later_state_def saved_world_def plain_world_def)
  have d: "\<forall>s \<in> set (load_systems demo_app). stored (app_ecs demo_app) 1 saved_world later_state s"
    by (simp add: load_systems_def data_systems_def mapping_systems_def demo_app_def holds_at_def
        later_state_def saved_world_def plain_world_def copy_strategy_def option.map_ident)
  have e: "loadable (app_ecs demo_app) (ecs_state saved_world)
      (resurrect_entities (app_ecs demo_app) 1 (ecs_state later_state))"
    using example_loadable by (simp add: c demo_app_def)
  from load_world_restores [OF a b c(1-4) d e] show ?thesis by blast
qed

end
