(* ===== verification/SaveStores.thy ===== *)
theory SaveStores
  imports SaveSchedule RestoreWorld
begin

text \<open>
  The \<open>Snapshot\<close> set of \<open>SaveWorld\<close>: the chains of the plugins interleave, but each works on its own
  storage, so every storage ends up as if its chain had run alone.
\<close>

section \<open>The order of the systems\<close>

abbreviation save_rank :: "('v, 's) save_sys \<Rightarrow> nat" where
  "save_rank s \<equiv> save_set_rank (save_set s)"

definition store_of :: "('v, 's) save_sys \<Rightarrow> ('v, 's) save_store option" where
  "store_of s = map_option fst (chain_place s)"

lemma store_of_simps [simp]:
  "store_of (SyncDepth st) = Some st" "store_of (DiscardOld st) = Some st" "store_of (SaveStore st) = Some st"
  by (simp_all add: store_of_def)

lemma chain_rank: "s \<in> set (concat (map snapshot_chain sts)) \<Longrightarrow> save_rank s = 3"
  by (auto simp: snapshot_chain_def)

lemma checksum_rank: "s \<in> set (checksum_systems A) \<Longrightarrow> save_rank s = 0"
  by (auto simp: checksum_systems_def)

lemma save_order:
  assumes "admissible save_before (save_systems A) xs"
  obtains cs ys where "xs = cs @ [ChecksumFlush, TotalChecksum] @ ys" "mset cs = mset (checksum_systems A)"
    "mset ys = mset (concat (map snapshot_chain (save_stores A)))"
    "sorted_wrt (\<lambda>a b. \<not> save_before b a) ys"
proof -
  have perm: "mset xs = mset (save_systems A)" and s: "sorted_wrt (\<lambda>a b. \<not> save_before b a) xs"
    using assms by (simp_all add: admissible_def)
  then have sorted: "sorted_wrt (\<lambda>a b. \<not> save_rank b < save_rank a) xs"
    by (auto elim!: sorted_wrt_mono_rel [rotated] simp: save_before_def)
  have "save_rank s < 4" if "s \<in> set xs" for s by (cases "save_set s") auto
  then have "xs = concat (map (\<lambda>r. filter (\<lambda>x. save_rank x = r) xs) [0..<4])"
    by (intro sorted_stages [OF sorted]) simp
  also have "[0..<4] = [0, 1, 2, 3]" by code_simp
  finally have xs: "xs = concat (map (\<lambda>r. filter (\<lambda>x. save_rank x = r) xs) [0, 1, 2, 3])" .
  have stage: "mset (filter (\<lambda>x. save_rank x = r) xs) = mset (filter (\<lambda>x. save_rank x = r) (save_systems A))" for r
    using perm by (simp add: mset_filter)
  let ?chains = "concat (map snapshot_chain (save_stores A))"
  have c: "filter (\<lambda>x. save_rank x = r) (checksum_systems A) = (if r = 0 then checksum_systems A else [])" for r
    using checksum_rank [of _ A] by (auto simp: filter_empty_conv filter_id_conv)
  have y: "filter (\<lambda>x. save_rank x = r) ?chains = (if r = 3 then ?chains else [])" for r
    using chain_rank [of _ "save_stores A"] by (auto simp: filter_empty_conv filter_id_conv simp del: set_concat set_map)
  have "filter (\<lambda>x. save_rank x = 1) xs = [ChecksumFlush]" "filter (\<lambda>x. save_rank x = 2) xs = [TotalChecksum]"
    by (rule mset_singleton, subst stage, simp add: save_systems_def c y)+
  moreover have "mset (filter (\<lambda>x. save_rank x = 0) xs) = mset (checksum_systems A)"
    "mset (filter (\<lambda>x. save_rank x = 3) xs) = mset ?chains"
    by (subst stage, simp add: save_systems_def c y)+
  moreover have "sorted_wrt (\<lambda>a b. \<not> save_before b a) (filter (\<lambda>x. save_rank x = 3) xs)"
    using s by (rule sorted_wrt_filter)
  ultimately show ?thesis
    using xs by (intro that [of "filter (\<lambda>x. save_rank x = 0) xs" "filter (\<lambda>x. save_rank x = 3) xs"]) simp_all
qed

text \<open>Within \<open>Snapshot\<close>, the systems of one plugin run in the order of their chain.\<close>

lemma chain_unique:
  assumes "mset l = mset (snapshot_chain st)" "sorted_wrt (\<lambda>a b. \<not> save_before b a) l"
  shows "l = snapshot_chain st"
proof -
  have "length l = 3" using arg_cong [OF assms(1), of size] by (simp add: snapshot_chain_def)
  then obtain a b c where l: "l = [a, b, c]"
    by (metis (no_types, lifting) length_0_conv length_Suc_conv numeral_3_eq_3)
  have "distinct (snapshot_chain st)" by (simp add: snapshot_chain_def)
  then have "distinct l" using assms(1) mset_eq_imp_distinct_iff by blast
  moreover have "set l = {SyncDepth st, DiscardOld st, SaveStore st}"
    using mset_eq_setD [OF assms(1)] by (simp add: snapshot_chain_def)
  ultimately have "a \<noteq> b" "a \<noteq> c" "b \<noteq> c" "a \<in> {SyncDepth st, DiscardOld st, SaveStore st}"
    "b \<in> {SyncDepth st, DiscardOld st, SaveStore st}" "c \<in> {SyncDepth st, DiscardOld st, SaveStore st}"
    using l by auto
  then show ?thesis using assms(2) l by (auto simp: snapshot_chain_def save_before_def)
qed

lemma filter_chains:
  assumes "distinct sts" "st \<in> set sts"
  shows "filter (\<lambda>s. store_of s = Some st) (concat (map snapshot_chain sts)) = snapshot_chain st"
  using assms
proof (induction sts)
  case (Cons st' sts)
  have one: "filter (\<lambda>s. store_of s = Some st) (snapshot_chain st') = (if st' = st then snapshot_chain st else [])"
    by (simp add: snapshot_chain_def)
  have none: "filter (\<lambda>s. store_of s = Some st) (concat (map snapshot_chain sts)) = []" if "st \<notin> set sts"
    using that by (auto simp: filter_empty_conv snapshot_chain_def)
  show ?case
    using Cons one none by (cases "st' = st") (simp_all del: filter_concat)
qed simp

lemma chain_in_order:
  assumes "mset ys = mset (concat (map snapshot_chain sts))" "sorted_wrt (\<lambda>a b. \<not> save_before b a) ys"
    and "distinct sts" "st \<in> set sts"
  shows "filter (\<lambda>s. store_of s = Some st) ys = snapshot_chain st"
proof (rule chain_unique)
  have "mset (filter (\<lambda>s. store_of s = Some st) ys)
      = mset (filter (\<lambda>s. store_of s = Some st) (concat (map snapshot_chain sts)))"
    using assms(1) by (simp add: mset_filter)
  then show "mset (filter (\<lambda>s. store_of s = Some st) ys) = mset (snapshot_chain st)"
    by (simp only: filter_chains [OF assms(3,4)])
  show "sorted_wrt (\<lambda>a b. \<not> save_before b a) (filter (\<lambda>s. store_of s = Some st) ys)"
    using assms(2) by (rule sorted_wrt_filter)
qed

text \<open>When a system runs, exactly the systems before it in its chain have run.\<close>

lemma place_in_prefix:
  assumes "filter (\<lambda>s. store_of s = Some st) (p @ s # q) = snapshot_chain st" "chain_place s = Some (st, n)"
  shows "length (filter (\<lambda>s. store_of s = Some st) p) = n"
proof -
  let ?l = "filter (\<lambda>s. store_of s = Some st) p"
  have "store_of s = Some st" using assms(2) by (simp add: store_of_def)
  then have e: "?l @ s # filter (\<lambda>s. store_of s = Some st) q = snapshot_chain st"
    using assms(1) by simp
  then have "length ?l < 3"
    using arg_cong [OF e, of length] unfolding length_append snapshot_chain_def by simp
  moreover have "snapshot_chain st ! length ?l = s"
    using e by (metis nth_append_length)
  ultimately show ?thesis
    using assms(2) by (auto simp: snapshot_chain_def less_Suc_eq numeral_3_eq_3)
qed

section \<open>One storage\<close>

text \<open>A storage after the first \<open>n\<close> systems of its chain; \<open>x\<close> is what the last one pushes.\<close>

fun chain_prefix ::
  "nat \<Rightarrow> nat option \<Rightarrow> i32 option \<Rightarrow> i32 \<Rightarrow> 'a \<Rightarrow> 'a ggrs_snapshots \<Rightarrow> 'a ggrs_snapshots res" where
  "chain_prefix n d c f x s =
     (if n = 0 then Inr s
      else if n = 1 then Inr (sync_depth d s)
      else if n = 2 then discard_old_snapshots c (sync_depth d s)
      else save_chain d c f x s)"

declare chain_prefix.simps [simp del]

lemma chain_prefix_sync:
  "chain_prefix 0 d c f x s = Inr t \<Longrightarrow> chain_prefix (Suc 0) d c f x s = Inr (sync_depth d t)"
  by (simp add: chain_prefix.simps)

lemma chain_prefix_discard:
  assumes "queue_ok s" "chain_prefix (Suc 0) d c f x s = Inr t"
  shows "\<exists>u. discard_old_snapshots c t = Inr u \<and> chain_prefix 2 d c f x s = Inr u"
  using assms discard_old_total [of t c] by (auto simp: chain_prefix.simps)

lemma chain_prefix_push:
  assumes "queue_ok s" "0 <=s f" "chain_prefix 2 d c f x s = Inr t"
  shows "\<exists>u. push f x t = Inr u \<and> chain_prefix 3 d c f x s = Inr u"
  using assms save_chain_total [OF assms(1,2), of d c x]
  by (auto simp: chain_prefix.simps save_chain_def)

text \<open>What a complete chain leaves: the new frame, and earlier frames that are not too old.\<close>

lemma chain_saves:
  assumes "queue_ok s" "0 <=s f" "0 < d" "chain_prefix 3 (Some d) c f x s = Inr t"
  shows "holds_at t f x" "newer_than t f = 0"
    and "\<lbrakk> g <s f; \<forall>c'. c = Some c' \<longrightarrow> \<not> g <s c'; Suc (newer_than s g) < d; holds_at s g y \<rbrakk>
      \<Longrightarrow> holds_at t g y \<and> newer_than t g \<le> Suc (newer_than s g)"
proof -
  let ?s = "set_depth d s"
  obtain m where m: "discard_old_snapshots c ?s = Inr m" "push f x m = Inr t"
    using assms(4) by (auto simp: chain_prefix.simps save_chain_def sync_depth_def)
  have s: "queue_ok ?s" "depth ?s = d" using assms(1) by simp_all
  have q: "queue_ok m" "depth m = d"
    using m(1) s gs.confirm_inv [OF s(1)] by (auto simp: discard_old_snapshots_def split: option.splits)
  show "holds_at t f x" "newer_than t f = 0"
    using gs.push_same [OF q(1) assms(2) m(2)] gs.push_inv [OF q(1) assms(2) m(2)]
      gs.push_rank_same [OF q(1) assms(2) m(2)] q(2) assms(3)
    by (simp_all add: holds_at_def)
  show "holds_at t g y \<and> newer_than t g \<le> Suc (newer_than s g)"
    if g: "g <s f" "\<forall>c'. c = Some c' \<longrightarrow> \<not> g <s c'" "Suc (newer_than s g) < d" "holds_at s g y"
  proof -
    have "peek m g = peek s g \<and> newer_than m g \<le> newer_than s g"
    proof (cases c)
      case None
      then show ?thesis using m(1) by (auto simp: discard_old_snapshots_def)
    next
      case (Some c')
      then have "confirm c' ?s = Inr m" using m(1) by (simp add: discard_old_snapshots_def)
      from gs.confirm_peek [OF s(1) this, of g] gs.confirm_rank [OF s(1) this, of g]
      show ?thesis using g(2) Some by simp
    qed
    then show ?thesis
      using gs.push_older [OF q(1) assms(2) m(2) g(1)] gs.push_rank [OF q(1) assms(2) m(2) g(1)]
        gs.push_inv [OF q(1) assms(2) m(2)] g(3,4) q(2)
      by (auto simp: holds_at_def)
  qed
qed

section \<open>All storages\<close>

fun load_of :: "('v, 's) save_store \<Rightarrow> ('v, 's) load_sys" where
  "load_of EntityStore = LoadEntities"
| "load_of ChildOfStore = LoadChildOf"
| "load_of OrderedStore = LoadOrdered"
| "load_of TimeStore = LoadTime"
| "load_of (CompStore t S) = LoadComponent t Mutable S"
| "load_of (ResStore i S) = LoadResource i S"

text \<open>The slots of the storages; the entities have one of their own.\<close>

definition store_slot :: "('v, 's) save_store \<Rightarrow> slot" where
  "store_slot st = slot_of (load_of st)"

fun progress ::
  "('w, 'v) ecs \<Rightarrow> i32 \<Rightarrow> ('w, 'v, 's, 't, 'i, 'x) world \<Rightarrow> nat \<Rightarrow> ('w, 'v, 's, 't, 'i, 'x) world \<Rightarrow>
     ('v, 's) save_store \<Rightarrow> bool" where
  "progress E f w n u EntityStore \<longleftrightarrow> queue_ok (entity_snapshots w) \<and>
     chain_prefix n (max_prediction_window w) (confirmed_frame_count w) f
       (new_snapshot (q_entities E (ecs_state w))) (entity_snapshots w) = Inr (entity_snapshots u)"
| "progress E f w n u ChildOfStore \<longleftrightarrow> queue_ok (childof_snapshots w) \<and>
     chain_prefix n (max_prediction_window w) (confirmed_frame_count w) f
       (new_snapshot (map (\<lambda>(r, c). (r, c)) (q_parents E (ecs_state w)))) (childof_snapshots w)
       = Inr (childof_snapshots u)"
| "progress E f w n u OrderedStore \<longleftrightarrow> queue_ok (ordered_snapshots w) \<and>
     chain_prefix n (max_prediction_window w) (confirmed_frame_count w) f
       (rollback_ordered_res w) (ordered_snapshots w) = Inr (ordered_snapshots u)"
| "progress E f w n u TimeStore \<longleftrightarrow> queue_ok (time_snapshots w) \<and>
     chain_prefix n (max_prediction_window w) (confirmed_frame_count w) f
       (ggrs_time w) (time_snapshots w) = Inr (time_snapshots u)"
| "progress E f w n u (CompStore t S) \<longleftrightarrow> queue_ok (comp_snapshots w t) \<and>
     chain_prefix n (max_prediction_window w) (confirmed_frame_count w) f
       (new_snapshot (map (\<lambda>(r, c). (r, store S c)) (q_components E (ecs_state w) t))) (comp_snapshots w t)
       = Inr (comp_snapshots u t)"
| "progress E f w n u (ResStore i S) \<longleftrightarrow> queue_ok (res_snapshots w i) \<and>
     chain_prefix n (max_prediction_window w) (confirmed_frame_count w) f
       (map_option (store S) (user_resource w i)) (res_snapshots w i) = Inr (res_snapshots u i)"

text \<open>Two worlds that differ in their storages only.\<close>

definition only_storages ::
  "('w, 'v, 's, 't, 'i, 'x) world \<Rightarrow> ('w, 'v, 's, 't, 'i, 'x) world \<Rightarrow> bool" where
  "only_storages w u \<longleftrightarrow> u = w\<lparr>entity_snapshots := entity_snapshots u, childof_snapshots := childof_snapshots u,
     comp_snapshots := comp_snapshots u, res_snapshots := res_snapshots u,
     ordered_snapshots := ordered_snapshots u, time_snapshots := time_snapshots u\<rparr>"

lemma only_storages_refl [simp]: "only_storages w w"
  by (simp add: only_storages_def)

lemma only_storagesD:
  assumes "only_storages w u"
  shows "ecs_state u = ecs_state w" "rollback_frame_count u = rollback_frame_count w"
    "confirmed_frame_count u = confirmed_frame_count w" "max_prediction_window u = max_prediction_window w"
    "rollback_ordered_res u = rollback_ordered_res w" "ggrs_time u = ggrs_time w"
    "user_resource u = user_resource w" "pending u = pending w" "checksum_res u = checksum_res w"
    "entity_map_res u = entity_map_res w" "schedules u = schedules w" "session_res u = session_res w"
  by (subst assms [unfolded only_storages_def], simp)+

lemma only_storages_step:
  assumes "only_storages w u"
  shows "only_storages w (u\<lparr>entity_snapshots := a\<rparr>)" "only_storages w (u\<lparr>childof_snapshots := b\<rparr>)"
    "only_storages w (u\<lparr>comp_snapshots := cc\<rparr>)" "only_storages w (u\<lparr>res_snapshots := r\<rparr>)"
    "only_storages w (u\<lparr>ordered_snapshots := oo\<rparr>)" "only_storages w (u\<lparr>time_snapshots := t\<rparr>)"
  unfolding only_storages_def by (subst (1) assms [unfolded only_storages_def], simp)+

lemma derived_clone_store: "store derived_clone = (\<lambda>x. x)"
  by (simp add: derived_clone_def clone_strategy_def)

lemma sync_step:
  assumes "only_storages w u" "progress E f w 0 u st"
  shows "only_storages w (run_sync_depth st u)" "progress E f w (Suc 0) (run_sync_depth st u) st"
    "store_slot st' \<noteq> store_slot st \<Longrightarrow> progress E f w n (run_sync_depth st u) st' = progress E f w n u st'"
proof -
  show "only_storages w (run_sync_depth st u)"
    using assms(1) by (cases st) (simp_all add: only_storages_step)
  show "progress E f w (Suc 0) (run_sync_depth st u) st"
    using assms(2) by (cases st) (simp_all add: chain_prefix_sync only_storagesD [OF assms(1)])
  show "store_slot st' \<noteq> store_slot st \<Longrightarrow> progress E f w n (run_sync_depth st u) st' = progress E f w n u st'"
    by (cases st; cases st') (simp_all add: store_slot_def)
qed

lemma discard_step:
  assumes "only_storages w u" "progress E f w (Suc 0) u st"
  shows "\<exists>u'. run_discard_old st u = Inr u' \<and> only_storages w u' \<and> progress E f w 2 u' st \<and>
    (\<forall>st' n. store_slot st' \<noteq> store_slot st \<longrightarrow> progress E f w n u' st' = progress E f w n u st')"
proof -
  note d = only_storagesD [OF assms(1)]
  have other: "progress E f w n u' st' = progress E f w n u st'"
    if "run_discard_old st u = Inr u'" "store_slot st' \<noteq> store_slot st" for u' st' n
    using that by (cases st; cases st') (auto simp: store_slot_def rbind_Inr_iff)
  have "\<exists>u'. run_discard_old st u = Inr u' \<and> only_storages w u' \<and> progress E f w 2 u' st"
    using assms(2) by (cases st)
      (auto dest!: chain_prefix_discard simp: d only_storages_step [OF assms(1)])
  then show ?thesis using other by blast
qed

lemma save_step:
  assumes "only_storages w u" "progress E f w 2 u st" "rollback_frame_count w = Some f" "0 <=s f"
  shows "\<exists>u'. run_save_store E st u = Inr u' \<and> only_storages w u' \<and> progress E f w 3 u' st \<and>
    (\<forall>st' n. store_slot st' \<noteq> store_slot st \<longrightarrow> progress E f w n u' st' = progress E f w n u st')"
proof -
  note d = only_storagesD [OF assms(1)]
  have other: "progress E f w n u' st' = progress E f w n u st'"
    if "run_save_store E st u = Inr u'" "store_slot st' \<noteq> store_slot st" for u' st' n
    using that by (cases st; cases st') (auto simp: store_slot_def rbind_Inr_iff)
  have "\<exists>u'. run_save_store E st u = Inr u' \<and> only_storages w u' \<and> progress E f w 3 u' st"
    using assms(2) by (cases st)
      (auto dest!: chain_prefix_push [OF _ assms(4)] simp: d assms(3) only_storages_step [OF assms(1)]
        save_entities_def save_childof_def save_components_def save_resource_def derived_clone_store
        option.map_ident)
  then show ?thesis using other by blast
qed

lemma save_stores_distinct:
  assumes "app_ok A"
  shows "distinct (map store_slot (save_stores A))"
proof -
  have c: "map store_slot (map (\<lambda>(t, m, S). CompStore t S) (comp_plugins A))
      = map (\<lambda>t. KeySlot (UserKey t)) (map fst (comp_plugins A))" by (auto simp: store_slot_def)
  have r: "map store_slot (map (\<lambda>(i, S). ResStore i S) (res_plugins A))
      = map ResSlot (map fst (res_plugins A))" by (auto simp: store_slot_def)
  have "distinct (map (\<lambda>t. KeySlot (UserKey t)) (map fst (comp_plugins A)))"
    "distinct (map ResSlot (map fst (res_plugins A)))"
    using assms by (auto simp: app_ok_def distinct_map intro: inj_onI simp del: map_map)
  then show ?thesis
    unfolding save_stores_def map_append distinct_append c r by (auto simp: store_slot_def)
qed

text \<open>
  The whole set, in any order that respects the chains: every storage has gone through its chain.
\<close>

lemma snapshot_stage:
  assumes "mset ys = mset (concat (map snapshot_chain sts))" "sorted_wrt (\<lambda>a b. \<not> save_before b a) ys"
    and "distinct (map store_slot sts)" "\<forall>st \<in> set sts. progress (app_ecs A) f w 0 w st"
    and "rollback_frame_count w = Some f" "0 <=s f"
  shows "\<exists>u. rfold (run_save A) ys w = Inr u \<and> only_storages w u \<and>
    (\<forall>st \<in> set sts. progress (app_ecs A) f w 3 u st)"
proof -
  let ?E = "app_ecs A" and ?done = "\<lambda>p st. length (filter (\<lambda>s. store_of s = Some st) p)"
  have dist: "distinct sts" using assms(3) by (simp add: distinct_map)
  note chain = chain_in_order [OF assms(1,2) dist]
  have "\<exists>u. rfold (run_save A) p w = Inr u \<and> only_storages w u \<and>
      (\<forall>st \<in> set sts. progress ?E f w (?done p st) u st)" if "\<exists>q. ys = p @ q" for p
    using that
  proof (induction p rule: rev_induct)
    case Nil
    then show ?case using assms(4) by simp
  next
    case (snoc s p)
    then obtain q where q: "ys = p @ s # q" by auto
    with snoc obtain u where u: "rfold (run_save A) p w = Inr u" "only_storages w u"
      "\<forall>st \<in> set sts. progress ?E f w (?done p st) u st" by blast
    have "s \<in> set (concat (map snapshot_chain sts))"
      using q mset_eq_setD [OF assms(1)] by auto
    then obtain st n where st: "st \<in> set sts" "chain_place s = Some (st, n)"
      by (auto simp: snapshot_chain_def)
    have n: "?done p st = n"
      using place_in_prefix [OF _ st(2), of p q] chain [OF st(1)] q by simp
    have here: "progress ?E f w n u st" using u(3) st(1) n by auto
    have "\<exists>u'. run_save A s u = Inr u' \<and> only_storages w u' \<and> progress ?E f w (Suc n) u' st \<and>
        (\<forall>st' m. store_slot st' \<noteq> store_slot st \<longrightarrow> progress ?E f w m u' st' = progress ?E f w m u st')"
    proof (cases s)
      case (SyncDepth st1)
      then show ?thesis using sync_step [OF u(2)] here st(2) by auto
    next
      case (DiscardOld st1)
      then show ?thesis using discard_step [OF u(2)] here st(2) by (auto simp: numeral_2_eq_2)
    next
      case (SaveStore st1)
      then show ?thesis using save_step [OF u(2) _ assms(5,6)] here st(2) by (auto simp: numeral_3_eq_3 numeral_2_eq_2)
    qed (use st(2) in auto)
    then obtain u' where u': "run_save A s u = Inr u'" "only_storages w u'" "progress ?E f w (Suc n) u' st"
      "\<forall>st' m. store_slot st' \<noteq> store_slot st \<longrightarrow> progress ?E f w m u' st' = progress ?E f w m u st'" by blast
    have "progress ?E f w (?done (p @ [s]) st') u' st'" if st': "st' \<in> set sts" for st'
    proof (cases "st' = st")
      case True
      then show ?thesis using u'(3) n st(2) by (simp add: store_of_def)
    next
      case False
      then have "store_slot st' \<noteq> store_slot st"
        using assms(3) st' st(1) by (auto simp: distinct_map dest: inj_onD)
      moreover have "?done (p @ [s]) st' = ?done p st'" using False st(2) by (simp add: store_of_def)
      ultimately show ?thesis using u'(4) u(3) st' by simp
    qed
    then show ?case
      using u(1) u'(1,2) by (intro exI [of _ u']) (simp add: rfold_append)
  qed
  from this [of ys] obtain u where u: "rfold (run_save A) ys w = Inr u" "only_storages w u"
    "\<forall>st \<in> set sts. progress ?E f w (?done ys st) u st" by auto
  have "?done ys st = 3" if "st \<in> set sts" for st
    unfolding chain [OF that] by (simp add: snapshot_chain_def)
  then show ?thesis using u by auto
qed

section \<open>What is stored afterwards\<close>

text \<open>Storages ready to save: each queue keeps its invariant.\<close>

fun storage_ok :: "('w, 'v, 's, 't, 'i, 'x) world \<Rightarrow> ('v, 's) save_store \<Rightarrow> bool" where
  "storage_ok w EntityStore \<longleftrightarrow> queue_ok (entity_snapshots w)"
| "storage_ok w ChildOfStore \<longleftrightarrow> queue_ok (childof_snapshots w)"
| "storage_ok w OrderedStore \<longleftrightarrow> queue_ok (ordered_snapshots w)"
| "storage_ok w TimeStore \<longleftrightarrow> queue_ok (time_snapshots w)"
| "storage_ok w (CompStore t S) \<longleftrightarrow> queue_ok (comp_snapshots w t)"
| "storage_ok w (ResStore i S) \<longleftrightarrow> queue_ok (res_snapshots w i)"

text \<open>How many snapshots of a storage are newer than frame \<open>g\<close>.\<close>

fun newer_in :: "('w, 'v, 's, 't, 'i, 'x) world \<Rightarrow> i32 \<Rightarrow> ('v, 's) save_store \<Rightarrow> nat" where
  "newer_in w g EntityStore = newer_than (entity_snapshots w) g"
| "newer_in w g ChildOfStore = newer_than (childof_snapshots w) g"
| "newer_in w g OrderedStore = newer_than (ordered_snapshots w) g"
| "newer_in w g TimeStore = newer_than (time_snapshots w) g"
| "newer_in w g (CompStore t S) = newer_than (comp_snapshots w t) g"
| "newer_in w g (ResStore i S) = newer_than (res_snapshots w i) g"

lemma progress_start: "progress E f w 0 w st = storage_ok w st"
  by (cases st) (simp_all add: chain_prefix.simps)

lemma progress_stored:
  assumes "progress E f w 3 u st" "0 <=s f" "max_prediction_window w = Some d" "0 < d"
  shows "stored E f w u (load_of st)" "newer_in u f st = 0"
proof -
  note saves = chain_saves(1,2) [OF _ assms(2,4)]
  show "stored E f w u (load_of st)"
    using assms(1) by (cases st) (simp_all add: assms(3), (elim conjE, rule saves(1), assumption, assumption)+)
  show "newer_in u f st = 0"
    using assms(1) by (cases st) (simp_all add: assms(3), (elim conjE, rule saves(2), assumption, assumption)+)
qed

lemma progress_keeps:
  assumes "progress E f w 3 u st" "0 <=s f" "max_prediction_window w = Some d" "0 < d"
    and "g <s f" "\<forall>c. confirmed_frame_count w = Some c \<longrightarrow> \<not> g <s c" "Suc (newer_in w g st) < d"
    and "stored E g w0 w (load_of st)"
  shows "stored E g w0 u (load_of st) \<and> newer_in u g st \<le> Suc (newer_in w g st)"
proof -
  note keeps = chain_saves(3) [OF _ assms(2,4) _ assms(5,6)]
  show ?thesis
    using assms(1,7,8)
    by (cases st) (simp_all add: assms(3), (elim conjE, rule keeps, assumption, assumption, assumption, assumption)+)
qed

end
