(* ===== verification/SaveChecksum.thy ===== *)
theory SaveChecksum
  imports SaveStores
begin

text \<open>
  The \<open>Checksum\<close> set of \<open>SaveWorld\<close> and the total. Each system updates the one entity that carries
  the part of its type, or queues the spawn of one; after the flush the world has exactly one part per
  system and the total is the exclusive or of what the systems computed.
\<close>

section \<open>What a system computes and where it writes it\<close>

fun sys_flag :: "('v, 's) save_sys \<Rightarrow> checksum_flag" where
  "sys_flag (ComponentChecksum t h) = CompFlag t"
| "sys_flag (ResourceChecksum i h) = ResFlag i"
| "sys_flag s = EntityFlag"

fun checksum_sys :: "('v, 's) save_sys \<Rightarrow> bool" where
  "checksum_sys EntityChecksum = True"
| "checksum_sys (ComponentChecksum t h) = True"
| "checksum_sys (ResourceChecksum i h) = True"
| "checksum_sys s = False"

fun sys_value ::
  "('w, 'v, 's, 't, 'i, 'x, 'h) app \<Rightarrow> ('w, 'v, 's, 't, 'i, 'x) world \<Rightarrow> ('v, 's) save_sys \<Rightarrow> u128 res" where
  "sys_value A w EntityChecksum =
     rbind (require ''RollbackOrdered'' (rollback_ordered_res w)) (\<lambda>ordered.
       Inr (entity_checksum (app_hasher A) (active_entities (app_ecs A) (ecs_state w)) ordered))"
| "sys_value A w (ComponentChecksum t h) =
     rbind (require ''RollbackOrdered'' (rollback_ordered_res w)) (\<lambda>ordered.
       component_checksum (app_hasher A) h ordered (q_checksum (app_ecs A) t (ecs_state w)))"
| "sys_value A w (ResourceChecksum i h) =
     rbind (require ''R'' (user_resource w i)) (\<lambda>resource. Inr (resource_checksum h resource))"
| "sys_value A w s = Inr 0"

lemma run_checksum_eq:
  assumes "checksum_sys s" "sys_value A w s = Inr x"
  shows "run_checksum A s w = Inr (put_part (upsert_part (app_ecs A) (sys_flag s)
    (next_reserved (app_ecs A) w 0) x (ecs_state w)) w)"
  using assms
  by (cases s) (auto simp: update_entity_checksum_def update_component_checksum_def
      update_resource_checksum_def rbind_Inr_iff simp del: split_paired_Ex)

lemma put_part_simps [simp]:
  "put_part (e, []) u = u\<lparr>ecs_state := e\<rparr>"
  "put_part (ecs_state u, cs) u = u\<lparr>pending := pending u @ map EcsCommand cs\<rparr>"
  by (cases u; simp add: put_part_def)+

text \<open>Stores that differ in the values of checksum parts only.\<close>

definition same_but_parts :: "('w, 'v) ecs \<Rightarrow> 'w \<Rightarrow> 'w \<Rightarrow> bool" where
  "same_but_parts E w u \<longleftrightarrow> ents E u = ents E w \<and> reserve E u = reserve E w \<and>
     (\<forall>k e. k \<noteq> PartKey \<longrightarrow> cget E u k e = cget E w k e) \<and>
     (\<forall>e. part_of E u e = None \<longleftrightarrow> part_of E w e = None)"

lemma same_but_parts_refl [simp]: "same_but_parts E w w"
  by (simp add: same_but_parts_def)

lemma same_but_parts_queries:
  assumes "same_but_parts E w u"
  shows "q_part E flag u = q_part E flag w" "active_entities E u = active_entities E w"
    "q_checksum E t u = q_checksum E t w" "rid_of E u = rid_of E w" "enabled E u = enabled E w"
    "comp_of E u t = comp_of E w t"
proof -
  note d = assms [unfolded same_but_parts_def]
  have k: "cget E u RollbackIdKey = cget E w RollbackIdKey" "cget E u DespawnedKey = cget E w DespawnedKey"
    "cget E u (FlagKey fl) = cget E w (FlagKey fl)" "cget E u (UserKey t) = cget E w (UserKey t)" for fl
    using d by auto
  show r: "rid_of E u = rid_of E w" "enabled E u = enabled E w" "comp_of E u t = comp_of E w t"
    by (auto simp: fun_eq_iff rid_of_def enabled_def comp_of_def k)
  show "q_part E flag u = q_part E flag w"
    using d by (simp add: q_part_def r k)
  show "active_entities E u = active_entities E w"
    using d by (simp add: active_entities_def r k)
  show "q_checksum E t u = q_checksum E t w"
    unfolding q_checksum_def rollback_rows_def r k using d by simp
qed

lemma sys_value_same:
  assumes "same_but_parts (app_ecs A) (ecs_state w) (ecs_state u)"
    and "rollback_ordered_res u = rollback_ordered_res w" "user_resource u = user_resource w"
  shows "sys_value A u s = sys_value A w s"
  using same_but_parts_queries [OF assms(1)] assms(2,3) by (cases s) simp_all

section \<open>The systems one after the other\<close>

text \<open>\<open>Query::single_mut\<close>: the one match, if there is exactly one.\<close>

definition single :: "'a list \<Rightarrow> 'a option" where
  "single xs = (case xs of [x] \<Rightarrow> Some x | _ \<Rightarrow> None)"

lemma single_Some: "single xs = Some x \<longleftrightarrow> xs = [x]"
  by (auto simp: single_def split: list.splits)

lemma upsert_single:
  "upsert_part E flag new x w = (case single (q_part E flag w) of
     Some e \<Rightarrow> (cset E PartKey e (PartVal x) w, [])
   | None \<Rightarrow> (w, [Spawn new [(PartKey, PartVal x), (FlagKey flag, Marker)]]))"
  by (simp add: upsert_part_def single_def split: list.split)

text \<open>The writes and the spawns of a list of systems, from the world before the first.\<close>

fun part_writes ::
  "('w, 'v, 's, 't, 'i, 'x, 'h) app \<Rightarrow> ('w, 'v, 's, 't, 'i, 'x) world \<Rightarrow> (('v, 's) save_sys \<times> u128) list \<Rightarrow>
     (entity \<times> u128) list" where
  "part_writes A w [] = []"
| "part_writes A w ((s, x) # ss) =
     (case single (q_part (app_ecs A) (sys_flag s) (ecs_state w)) of
        Some e \<Rightarrow> (e, x) # part_writes A w ss
      | None \<Rightarrow> part_writes A w ss)"

fun part_spawns ::
  "('w, 'v, 's, 't, 'i, 'x, 'h) app \<Rightarrow> ('w, 'v, 's, 't, 'i, 'x) world \<Rightarrow> nat \<Rightarrow> (('v, 's) save_sys \<times> u128) list \<Rightarrow>
     (entity \<times> checksum_flag \<times> u128) list" where
  "part_spawns A w n [] = []"
| "part_spawns A w n ((s, x) # ss) =
     (case single (q_part (app_ecs A) (sys_flag s) (ecs_state w)) of
        Some e \<Rightarrow> part_spawns A w n ss
      | None \<Rightarrow> (reserve (app_ecs A) (ecs_state w) n, sys_flag s, x) # part_spawns A w (Suc n) ss)"

definition spawn_of :: "entity \<times> checksum_flag \<times> u128 \<Rightarrow> ('v, 't) world_command" where
  "spawn_of = (\<lambda>(e, flag, x). EcsCommand (Spawn e [(PartKey, PartVal x), (FlagKey flag, Marker)]))"

definition write_parts :: "('w, 'v) ecs \<Rightarrow> (entity \<times> u128) list \<Rightarrow> 'w \<Rightarrow> 'w" where
  "write_parts E ws w = foldl (\<lambda>w (e, x). cset E PartKey e (PartVal x) w) w ws"

lemma write_parts_simps [simp]:
  "write_parts E [] w = w"
  "write_parts E ((e, x) # ws) w = write_parts E ws (cset E PartKey e (PartVal x) w)"
  by (simp_all add: write_parts_def)

lemma cset_part:
  assumes "ecs_laws E" "part_of E w e \<noteq> None"
  shows "same_but_parts E w (cset E PartKey e (PartVal x) w)"
    "part_of E (cset E PartKey e (PartVal x) w) e' = (if e' = e then Some x else part_of E w e')"
proof -
  obtain y where "cget E w PartKey e = Some y" using assms(2) by (auto simp: part_of_def split: option.splits)
  note set = ecs_cset [OF assms(1) this, of "PartVal x"]
  show p: "part_of E (cset E PartKey e (PartVal x) w) e' = (if e' = e then Some x else part_of E w e')" for e'
    by (simp add: part_of_def set)
  show "same_but_parts E w (cset E PartKey e (PartVal x) w)"
    using assms(2) by (auto simp: same_but_parts_def set p)
qed

lemma same_but_parts_trans: "same_but_parts E u v \<Longrightarrow> same_but_parts E v w \<Longrightarrow> same_but_parts E u w"
  by (simp add: same_but_parts_def)

lemma write_parts_same:
  assumes "ecs_laws E" "\<forall>(e, x) \<in> set ws. part_of E w e \<noteq> None"
  shows "same_but_parts E w (write_parts E ws w)"
    "part_of E (write_parts E ws w) e = (case map_of (rev ws) e of Some x \<Rightarrow> Some x | None \<Rightarrow> part_of E w e)"
proof -
  have "same_but_parts E w (write_parts E ws w) \<and> (\<forall>e. part_of E (write_parts E ws w) e
      = (case map_of (rev ws) e of Some x \<Rightarrow> Some x | None \<Rightarrow> part_of E w e))"
    using assms(2)
  proof (induction ws arbitrary: w)
    case (Cons r ws)
    obtain e x where r: "r = (e, x)" by (cases r)
    have e: "part_of E w e \<noteq> None" using Cons.prems by (simp add: r)
    note c = cset_part [OF assms(1) e, of x]
    have "\<forall>(e, x) \<in> set ws. part_of E (cset E PartKey (fst r) (PartVal (snd r)) w) e \<noteq> None"
      using Cons.prems c(2) by (auto simp: r)
    from Cons.IH [OF this] c show ?case
      by (auto simp: r map_add_def intro: same_but_parts_trans split: option.split)
  qed simp
  then show "same_but_parts E w (write_parts E ws w)"
    "part_of E (write_parts E ws w) e = (case map_of (rev ws) e of Some x \<Rightarrow> Some x | None \<Rightarrow> part_of E w e)"
    by blast+
qed

lemma part_writes_have_parts:
  "ecs_laws (app_ecs A) \<Longrightarrow> \<forall>(e, x) \<in> set (part_writes A w ss). part_of (app_ecs A) (ecs_state w) e \<noteq> None"
proof (induction ss)
  case (Cons r ss)
  obtain s x where r: "r = (s, x)" by (cases r)
  have "part_of (app_ecs A) (ecs_state w) e \<noteq> None"
    if "single (q_part (app_ecs A) (sys_flag s) (ecs_state w)) = Some e" for e
  proof -
    have "e \<in> set (q_part (app_ecs A) (sys_flag s) (ecs_state w))" using that by (simp add: single_Some)
    then show ?thesis using set_q_part [OF Cons.prems] by blast
  qed
  then show ?case
    using Cons by (cases "single (q_part (app_ecs A) (sys_flag s) (ecs_state w))") (auto simp: r)
qed simp

text \<open>Running the systems: all the direct writes, and the spawns in order.\<close>

lemma checksum_run:
  fixes w :: "('w, 'v, 's, 't, 'i, 'x) world"
  assumes "ecs_laws (app_ecs A)" "\<forall>(s, x) \<in> set ss. checksum_sys s \<and> sys_value A w s = Inr x"
    and "same_but_parts (app_ecs A) (ecs_state w) (ecs_state u)"
    and "rollback_ordered_res u = rollback_ordered_res w" "user_resource u = user_resource w"
    and "\<forall>c \<in> set (pending u). is_spawn c"
  shows "rfold (run_checksum A) (map fst ss) u = Inr (u\<lparr>
    ecs_state := write_parts (app_ecs A) (part_writes A w ss) (ecs_state u),
    pending := pending u @ map spawn_of (part_spawns A w (length (pending u)) ss)\<rparr>)"
  using assms(2-6)
proof (induction ss arbitrary: u)
  case Nil
  then show ?case by (cases u) simp
next
  case (Cons r ss)
  let ?E = "app_ecs A"
  obtain s x where r: "r = (s, x)" by (cases r)
  have s: "checksum_sys s" "sys_value A u s = Inr x"
    using Cons.prems(1) sys_value_same [OF Cons.prems(2-4), of s] by (auto simp: r)
  note q = same_but_parts_queries(1) [OF Cons.prems(2), of "sys_flag s"]
  have res: "reserve ?E (ecs_state u) = reserve ?E (ecs_state w)"
    using Cons.prems(2) by (simp add: same_but_parts_def)
  have n: "next_reserved ?E u 0 = reserve ?E (ecs_state w) (length (pending u))"
    using Cons.prems(5) by (simp add: next_reserved_def res filter_id_conv)
  show ?case
  proof (cases "single (q_part ?E (sys_flag s) (ecs_state w))")
    case (Some e)
    let ?u = "u\<lparr>ecs_state := cset ?E PartKey e (PartVal x) (ecs_state u)\<rparr>"
    have "e \<in> set (q_part ?E (sys_flag s) (ecs_state u))" using Some by (simp add: q single_Some)
    then have "part_of ?E (ecs_state u) e \<noteq> None" by (simp add: set_q_part [OF assms(1)])
    from cset_part(1) [OF assms(1) this] Cons.prems(2)
    have "same_but_parts ?E (ecs_state w) (ecs_state ?u)" by (auto intro: same_but_parts_trans)
    moreover have "run_checksum A s u = Inr ?u"
      using run_checksum_eq [OF s] Some by (simp add: q upsert_single)
    ultimately show ?thesis
      using Cons.IH [of ?u] Cons.prems Some by (simp add: r)
  next
    case None
    let ?new = "reserve ?E (ecs_state w) (length (pending u))"
    let ?c = "spawn_of (?new, sys_flag s, x) :: ('v, 't) world_command"
    let ?u = "u\<lparr>pending := pending u @ [?c]\<rparr>"
    have "run_checksum A s u = Inr ?u"
      using run_checksum_eq [OF s] None by (simp add: q n upsert_single spawn_of_def)
    moreover have "is_spawn ?c" by (simp add: spawn_of_def)
    ultimately show ?thesis
      using Cons.IH [of ?u] Cons.prems None by (simp add: r)
  qed
qed

section \<open>The flush\<close>

lemma spawn_parts:
  assumes "ecs_laws E" "distinct (map fst sp)" "fst ` set sp \<inter> set (ents E w) = {}"
  shows "\<exists>w'. apply_commands E (map (\<lambda>(e, flag, x). Spawn e [(PartKey, PartVal x), (FlagKey flag, Marker)]) sp)
      (w, o1) = (w', o1) \<and> set (ents E w') = fst ` set sp \<union> set (ents E w) \<and>
    (\<forall>k e. cget E w' k e = (case map_of sp e of
        Some (flag, x) \<Rightarrow> (if k = PartKey then Some (PartVal x) else if k = FlagKey flag then Some Marker else None)
      | None \<Rightarrow> cget E w k e))"
  using assms(2,3)
proof (induction sp arbitrary: w)
  case (Cons r sp)
  obtain e flag x where r: "r = (e, flag, x)" by (cases r)
  have "e \<notin> set (ents E w)" using Cons.prems(2) by (simp add: r)
  then obtain w2 where w2:
    "apply_commands E [Spawn e [(PartKey, PartVal x), (FlagKey flag, Marker)]] (w, o1) = (w2, o1)"
    "\<forall>k e'. cget E w2 k e' = (if e' = e then (if k = PartKey then Some (PartVal x)
       else if k = FlagKey flag then Some Marker else None) else cget E w k e')"
    "set (ents E w2) = insert e (set (ents E w))"
    by (rule spawn_part [OF assms(1)])
  have sp: "distinct (map fst sp)" "fst ` set sp \<inter> set (ents E w2) = {}" "map_of sp e = None"
    using Cons.prems by (auto simp: r w2(3) map_of_eq_None_iff)
  from Cons.IH [OF sp(1,2)] obtain w' where w':
    "apply_commands E (map (\<lambda>(e, flag, x). Spawn e [(PartKey, PartVal x), (FlagKey flag, Marker)]) sp) (w2, o1) = (w', o1)"
    "set (ents E w') = fst ` set sp \<union> set (ents E w2)"
    "\<forall>k e. cget E w' k e = (case map_of sp e of
        Some (flag, x) \<Rightarrow> (if k = PartKey then Some (PartVal x) else if k = FlagKey flag then Some Marker else None)
      | None \<Rightarrow> cget E w2 k e)"
    by blast
  show ?case
  proof (intro exI [of _ w'] conjI allI)
    show "apply_commands E (map (\<lambda>(e, flag, x). Spawn e [(PartKey, PartVal x), (FlagKey flag, Marker)]) (r # sp))
        (w, o1) = (w', o1)"
      using w2(1) w'(1) by (simp add: r)
    show "set (ents E w') = fst ` set (r # sp) \<union> set (ents E w)"
      using w'(2) w2(3) by (simp add: r)
    show "cget E w' k e' = (case map_of (r # sp) e' of
        Some (flag, x) \<Rightarrow> (if k = PartKey then Some (PartVal x) else if k = FlagKey flag then Some Marker else None)
      | None \<Rightarrow> cget E w k e')" for k e'
    proof (cases "e' = e")
      case True
      then show ?thesis using w'(3) w2(2) sp(3) by (simp add: r)
    next
      case False
      then show ?thesis using w'(3) w2(2) by (cases "map_of sp e'") (simp_all add: r)
    qed
  qed
qed simp

lemma spawns_range:
  "fst ` set (part_spawns A w n ss) \<subseteq> reserve (app_ecs A) (ecs_state w) ` {n..}"
proof (induction ss arbitrary: n)
  case (Cons r ss)
  have "reserve (app_ecs A) (ecs_state w) ` {Suc n..} \<subseteq> reserve (app_ecs A) (ecs_state w) ` {n..}" by auto
  moreover have "reserve (app_ecs A) (ecs_state w) n \<in> reserve (app_ecs A) (ecs_state w) ` {n..}" by simp
  ultimately show ?case
    using Cons [of n] Cons [of "Suc n"]
    by (cases r; cases "single (q_part (app_ecs A) (sys_flag (fst r)) (ecs_state w))") auto
qed simp

lemma spawns_fresh:
  assumes "ecs_laws (app_ecs A)"
  shows "distinct (map fst (part_spawns A w n ss))"
    "fst ` set (part_spawns A w n ss) \<inter> set (ents (app_ecs A) (ecs_state w)) = {}"
proof -
  show "distinct (map fst (part_spawns A w n ss))"
  proof (induction ss arbitrary: n)
    case (Cons r ss)
    have "reserve (app_ecs A) (ecs_state w) n \<notin> reserve (app_ecs A) (ecs_state w) ` {Suc n..}"
      by (auto simp: ecs_reserve(2) [OF assms])
    then have "reserve (app_ecs A) (ecs_state w) n \<notin> fst ` set (part_spawns A w (Suc n) ss)"
      using spawns_range [of A w "Suc n" ss] by blast
    then show ?case
      using Cons [of n] Cons [of "Suc n"]
      by (cases r; cases "single (q_part (app_ecs A) (sys_flag (fst r)) (ecs_state w))") simp_all
  qed simp
  show "fst ` set (part_spawns A w n ss) \<inter> set (ents (app_ecs A) (ecs_state w)) = {}"
  proof (intro equals0I)
    fix e assume e: "e \<in> fst ` set (part_spawns A w n ss) \<inter> set (ents (app_ecs A) (ecs_state w))"
    then obtain m where "e = reserve (app_ecs A) (ecs_state w) m" using spawns_range [of A w n ss] by auto
    then show False using e ecs_reserve(1) [OF assms, of "ecs_state w" m] by simp
  qed
qed

text \<open>
  The checksum parts of a world: at most one for each registered type, and no other.
\<close>

definition parts_ok :: "('w, 'v) ecs \<Rightarrow> checksum_flag set \<Rightarrow> 'w \<Rightarrow> bool" where
  "parts_ok E flags w \<longleftrightarrow> (\<forall>flag \<in> flags. length (q_part E flag w) \<le> 1) \<and>
     (\<forall>e. enabled E w e \<and> part_of E w e \<noteq> None \<longrightarrow> (\<exists>!flag. flag \<in> flags \<and> e \<in> set (q_part E flag w)))"

text \<open>All parts that the systems assign: the direct writes and the spawns.\<close>

definition part_values ::
  "('w, 'v, 's, 't, 'i, 'x, 'h) app \<Rightarrow> ('w, 'v, 's, 't, 'i, 'x) world \<Rightarrow> (('v, 's) save_sys \<times> u128) list \<Rightarrow>
     (entity \<times> u128) list" where
  "part_values A w ss = part_writes A w ss @ map (\<lambda>(e, flag, x). (e, x)) (part_spawns A w 0 ss)"

lemma mset_part_values: "mset (map snd (part_values A w ss)) = mset (map snd ss)"
proof -
  have "mset (map snd (part_writes A w ss)) + mset (map (\<lambda>(e, flag, x). x) (part_spawns A w n ss))
      = mset (map snd ss)" for n
  proof (induction ss arbitrary: n)
    case (Cons r ss)
    then show ?case
      by (cases r; cases "single (q_part (app_ecs A) (sys_flag (fst r)) (ecs_state w))") auto
  qed simp
  then show ?thesis by (simp add: part_values_def o_def case_prod_unfold)
qed

lemma fst_part_writes:
  "e \<in> fst ` set (part_writes A w ss) \<longleftrightarrow> (\<exists>(s, x) \<in> set ss. q_part (app_ecs A) (sys_flag s) (ecs_state w) = [e])"
  unfolding single_Some [symmetric]
proof (induction ss)
  case (Cons r ss)
  then show ?case
    by (cases r; cases "single (q_part (app_ecs A) (sys_flag (fst r)) (ecs_state w))") auto
qed simp

lemma part_spawns_flags:
  "flag \<in> (fst \<circ> snd) ` set (part_spawns A w n ss) \<longleftrightarrow>
     (\<exists>(s, x) \<in> set ss. sys_flag s = flag \<and> single (q_part (app_ecs A) flag (ecs_state w)) = None)"
proof (induction ss arbitrary: n)
  case (Cons r ss)
  then show ?case
    by (cases r; cases "single (q_part (app_ecs A) (sys_flag (fst r)) (ecs_state w))") auto
qed simp

lemma distinct_part_writes:
  assumes "ecs_laws (app_ecs A)" "parts_ok (app_ecs A) flags (ecs_state w)"
    and "distinct (map (sys_flag \<circ> fst) ss)" "(sys_flag \<circ> fst) ` set ss \<subseteq> flags"
  shows "distinct (map fst (part_writes A w ss))"
  using assms(3,4)
proof (induction ss)
  case (Cons r ss)
  obtain s x where r: "r = (s, x)" by (cases r)
  have "e \<notin> fst ` set (part_writes A w ss)"
    if e: "q_part (app_ecs A) (sys_flag s) (ecs_state w) = [e]" for e
  proof
    assume "e \<in> fst ` set (part_writes A w ss)"
    then obtain s' x' where s': "(s', x') \<in> set ss" "q_part (app_ecs A) (sys_flag s') (ecs_state w) = [e]"
      by (auto simp: fst_part_writes)
    have "e \<in> set (q_part (app_ecs A) (sys_flag s) (ecs_state w))" using e by simp
    then have "enabled (app_ecs A) (ecs_state w) e" "part_of (app_ecs A) (ecs_state w) e \<noteq> None"
      using set_q_part [OF assms(1)] by blast+
    moreover have "e \<in> set (q_part (app_ecs A) (sys_flag s') (ecs_state w))" using s'(2) by simp
    moreover have "sys_flag s \<in> flags" "sys_flag s' \<in> flags" using Cons.prems s'(1) by (auto simp: r)
    ultimately have "sys_flag s = sys_flag s'"
      using e assms(2) unfolding parts_ok_def by (metis list.set_intros(1))
    moreover have "sys_flag s' \<in> (sys_flag \<circ> fst) ` set ss" using s'(1) by force
    ultimately show False using Cons.prems(1) by (auto simp: r image_iff)
  qed
  then show ?case using Cons by (auto simp: r single_Some split: option.split)
qed simp

text \<open>The store after the flush.\<close>

definition flushed_parts ::
  "('w, 'v) ecs \<Rightarrow> 'w \<Rightarrow> (entity \<times> checksum_flag \<times> u128) list \<Rightarrow> (entity \<times> u128) list \<Rightarrow> 'w \<Rightarrow> bool" where
  "flushed_parts E w sp vs w' \<longleftrightarrow> set (ents E w') = fst ` set sp \<union> set (ents E w) \<and>
     (\<forall>k e. k \<noteq> PartKey \<longrightarrow> cget E w' k e = (case map_of sp e of
        Some (flag, x) \<Rightarrow> (if k = FlagKey flag then Some Marker else None)
      | None \<Rightarrow> cget E w k e)) \<and>
     (\<forall>e. part_of E w' e = (case map_of vs e of Some x \<Rightarrow> Some x | None \<Rightarrow> part_of E w e))"

lemma map_of_part_values:
  "map_of (map (\<lambda>(e, flag, x). (e, x)) sp) e = map_option snd (map_of sp e)"
  by (induction sp) auto

lemma spawned_not_written:
  assumes laws: "ecs_laws (app_ecs A)" and "map_of (part_spawns A w 0 ss) e = Some y"
  shows "map_of (part_writes A w ss) e = None"
proof -
  have "e \<in> fst ` set (part_spawns A w 0 ss)" using assms(2) by (force dest: map_of_SomeD)
  then have "e \<notin> set (ents (app_ecs A) (ecs_state w))" using spawns_fresh(2) [OF laws, of w 0 ss] by blast
  then have "part_of (app_ecs A) (ecs_state w) e = None" using ecs_dead [OF laws] by (simp add: part_of_def)
  then show ?thesis using part_writes_have_parts [OF laws, of w ss] by (fastforce simp: map_of_eq_None_iff)
qed

lemma checksum_flush:
  fixes w :: "('w, 'v, 's, 't, 'i, 'x) world"
  assumes laws: "ecs_laws (app_ecs A)" and vals: "\<forall>(s, x) \<in> set ss. checksum_sys s \<and> sys_value A w s = Inr x"
    and "pending w = []" "rollback_ordered_res w = Some ordered"
    and parts: "parts_ok (app_ecs A) ((sys_flag \<circ> fst) ` set ss) (ecs_state w)"
    and flags: "distinct (map (sys_flag \<circ> fst) ss)"
  shows "\<exists>e'. rfold (run_checksum A) (map fst ss @ [ChecksumFlush]) w = Inr (w\<lparr>ecs_state := e'\<rparr>) \<and>
    flushed_parts (app_ecs A) (ecs_state w) (part_spawns A w 0 ss) (part_values A w ss) e'"
proof -
  let ?E = "app_ecs A" and ?ws = "part_writes A w ss" and ?sp = "part_spawns A w 0 ss"
  let ?e1 = "write_parts ?E ?ws (ecs_state w)"
  let ?u = "w\<lparr>ecs_state := ?e1, pending := map spawn_of ?sp\<rparr>"
  let ?cs = "map (\<lambda>(e, flag, x). Spawn e [(PartKey, PartVal x), (FlagKey flag, Marker)]) ?sp :: 'v command list"
  have run1: "rfold (run_checksum A) (map fst ss) w = Inr ?u"
    using checksum_run [OF laws vals same_but_parts_refl refl refl] assms(3) by simp
  note wr = write_parts_same [OF laws part_writes_have_parts [OF laws]]
  have e1: "ents ?E ?e1 = ents ?E (ecs_state w)" using wr(1) by (simp add: same_but_parts_def)
  have "fst ` set ?sp \<inter> set (ents ?E ?e1) = {}" using spawns_fresh(2) [OF laws] by (simp add: e1)
  from spawn_parts [OF laws spawns_fresh(1) [OF laws] this]
  obtain e' where e': "apply_commands ?E ?cs (?e1, ordered) = (e', ordered)"
    "set (ents ?E e') = fst ` set ?sp \<union> set (ents ?E ?e1)"
    "\<forall>k e. cget ?E e' k e = (case map_of ?sp e of
        Some (flag, x) \<Rightarrow> (if k = PartKey then Some (PartVal x) else if k = FlagKey flag then Some Marker else None)
      | None \<Rightarrow> cget ?E ?e1 k e)"
    by blast
  have cs: "map spawn_of ?sp = (map EcsCommand ?cs :: ('v, 't) world_command list)"
    by (simp add: spawn_of_def case_prod_unfold)
  have "rfold (run_world_command ?E) (map EcsCommand ?cs) (?u\<lparr>pending := []\<rparr>)
      = Inr ((?u\<lparr>pending := []\<rparr>)\<lparr>ecs_state := e', rollback_ordered_res := Some ordered\<rparr>)"
    using assms(4) e'(1) by (intro run_ecs_commands) simp_all
  moreover have "(?u\<lparr>pending := []\<rparr>)\<lparr>ecs_state := e', rollback_ordered_res := Some ordered\<rparr> = w\<lparr>ecs_state := e'\<rparr>"
    using assms(3,4) by (cases w) simp
  ultimately have "apply_deferred ?E ?u = Inr (w\<lparr>ecs_state := e'\<rparr>)"
    by (simp add: apply_deferred_def cs)
  with run1 have run: "rfold (run_checksum A) (map fst ss @ [ChecksumFlush]) w = Inr (w\<lparr>ecs_state := e'\<rparr>)"
    by (simp add: rfold_append)
  have "distinct (map fst ?ws)" by (rule distinct_part_writes [OF laws parts flags]) simp
  then have ws: "map_of (rev ?ws) = map_of ?ws" by (rule map_of_rev_distinct)
  have other: "cget ?E e' k e = (case map_of ?sp e of
        Some (flag, x) \<Rightarrow> (if k = FlagKey flag then Some Marker else None) | None \<Rightarrow> cget ?E (ecs_state w) k e)"
    if "k \<noteq> PartKey" for k e
    using that e'(3) wr(1) by (simp add: same_but_parts_def split: option.split)
  note new = spawned_not_written [OF laws]
  have "part_of ?E e' e = (case map_of (part_values A w ss) e of Some x \<Rightarrow> Some x | None \<Rightarrow> part_of ?E (ecs_state w) e)" for e
  proof (cases "map_of ?sp e")
    case None
    then have "part_of ?E e' e = part_of ?E ?e1 e" by (simp add: part_of_def e'(3))
    then show ?thesis
      by (simp add: wr(2) ws part_values_def map_add_def map_of_part_values None split: option.split)
  next
    case (Some y)
    obtain fl x where y: "y = (fl, x)" by (cases y)
    have "part_of ?E e' e = Some x" by (simp add: part_of_def e'(3) Some y)
    then show ?thesis by (simp add: part_values_def map_add_def map_of_part_values Some y new [OF Some])
  qed
  then show ?thesis
    using run other e'(2) by (intro exI [of _ e']) (simp add: flushed_parts_def e1)
qed

section \<open>The total\<close>

lemma flushed_enabled:
  assumes "ecs_laws E" "flushed_parts E w sp vs w'" "fst ` set sp \<inter> set (ents E w) = {}"
  shows "enabled E w' e = enabled E w e" "cget E w' RollbackIdKey e = cget E w RollbackIdKey e"
    "k \<noteq> PartKey \<Longrightarrow> (\<And>flag. k \<noteq> FlagKey flag) \<Longrightarrow> cget E w' k e = cget E w k e"
proof -
  have get: "cget E w' k e = cget E w k e" if k: "k \<noteq> PartKey" "\<And>flag. k \<noteq> FlagKey flag" for k
  proof (cases "map_of sp e")
    case (Some y)
    then have "e \<in> fst ` set sp" by (force dest: map_of_SomeD)
    then have "cget E w k e = None" using assms(1,3) ecs_dead by fastforce
    then show ?thesis using assms(2) k Some by (auto simp: flushed_parts_def split: prod.split)
  qed (use assms(2) k in \<open>simp add: flushed_parts_def\<close>)
  then show "enabled E w' e = enabled E w e" "cget E w' RollbackIdKey e = cget E w RollbackIdKey e"
    "k \<noteq> PartKey \<Longrightarrow> (\<And>flag. k \<noteq> FlagKey flag) \<Longrightarrow> cget E w' k e = cget E w k e"
    by (simp_all add: enabled_def)
qed

lemma part_values_keys:
  assumes "ecs_laws (app_ecs A)" "parts_ok (app_ecs A) flags (ecs_state w)" "distinct (map (sys_flag \<circ> fst) ss)"
    and "(sys_flag \<circ> fst) ` set ss \<subseteq> flags"
  shows "distinct (map fst (part_values A w ss))"
proof -
  have "part_of (app_ecs A) (ecs_state w) e \<noteq> None" if "e \<in> fst ` set (part_writes A w ss)" for e
    using part_writes_have_parts [OF assms(1), of w ss] that by fastforce
  then have "fst ` set (part_writes A w ss) \<subseteq> set (ents (app_ecs A) (ecs_state w))"
    using ecs_dead [OF assms(1)] by (fastforce simp: part_of_def)
  then have "fst ` set (part_writes A w ss) \<inter> fst ` set (part_spawns A w 0 ss) = {}"
    using spawns_fresh(2) [OF assms(1), of w 0 ss] by blast
  moreover have "map fst (part_values A w ss) = map fst (part_writes A w ss) @ map fst (part_spawns A w 0 ss)"
    by (simp add: part_values_def case_prod_unfold)
  ultimately show ?thesis
    using distinct_part_writes [OF assms] spawns_fresh(1) [OF assms(1), of w 0 ss] by simp
qed

text \<open>After the flush, the entities with a part are those of the registered types.\<close>

lemma flushed_parts_iff:
  assumes laws: "ecs_laws (app_ecs A)" and parts: "parts_ok (app_ecs A) ((sys_flag \<circ> fst) ` set ss) (ecs_state w)"
    and f: "flushed_parts (app_ecs A) (ecs_state w) (part_spawns A w 0 ss) (part_values A w ss) e'"
  shows "enabled (app_ecs A) e' e \<and> part_of (app_ecs A) e' e \<noteq> None \<longleftrightarrow> e \<in> fst ` set (part_values A w ss)"
proof -
  let ?E = "app_ecs A" and ?w = "ecs_state w"
  note en = flushed_enabled(1) [OF laws f spawns_fresh(2) [OF laws]]
  have part: "part_of ?E e' e = (case map_of (part_values A w ss) e of Some x \<Rightarrow> Some x | None \<Rightarrow> part_of ?E ?w e)"
    using f by (simp add: flushed_parts_def)
  show ?thesis
  proof
    assume e: "e \<in> fst ` set (part_values A w ss)"
    then have p: "part_of ?E e' e \<noteq> None"
      by (simp add: part) (auto simp: weak_map_of_SomeI split: option.split dest: map_of_eq_None_iff [THEN iffD1])
    have "enabled ?E ?w e"
    proof (cases "e \<in> fst ` set (part_writes A w ss)")
      case True
      then obtain s x where "(s, x) \<in> set ss" "q_part ?E (sys_flag s) ?w = [e]" by (auto simp: fst_part_writes)
      then have "e \<in> set (q_part ?E (sys_flag s) ?w)" by simp
      then show ?thesis by (simp add: set_q_part [OF laws])
    next
      case False
      then have "e \<in> fst ` set (part_spawns A w 0 ss)" using e by (force simp: part_values_def)
      then have "e \<notin> set (ents ?E ?w)" using spawns_fresh(2) [OF laws, of w 0 ss] by blast
      then show ?thesis using ecs_dead [OF laws] by (simp add: enabled_def)
    qed
    with p show "enabled ?E e' e \<and> part_of ?E e' e \<noteq> None" by (simp add: en)
  next
    assume a: "enabled ?E e' e \<and> part_of ?E e' e \<noteq> None"
    show "e \<in> fst ` set (part_values A w ss)"
    proof (rule ccontr)
      assume n: "e \<notin> fst ` set (part_values A w ss)"
      then have "map_of (part_values A w ss) e = None" by (simp add: map_of_eq_None_iff)
      then have "part_of ?E ?w e \<noteq> None" using a by (simp add: part)
      then obtain flag where fl: "flag \<in> (sys_flag \<circ> fst) ` set ss" "e \<in> set (q_part ?E flag ?w)"
        using a parts unfolding parts_ok_def en by blast
      then have "length (q_part ?E flag ?w) \<le> 1" using parts unfolding parts_ok_def by blast
      then have "q_part ?E flag ?w = [e]" using fl(2) by (cases "q_part ?E flag ?w") auto
      then have "e \<in> fst ` set (part_writes A w ss)" using fl(1) by (force simp: fst_part_writes)
      with n show False by (auto simp: part_values_def)
    qed
  qed
qed

lemma q_all_parts_mset:
  assumes "ecs_laws E" "distinct (map fst vs)"
    and "\<And>e. enabled E w e \<and> part_of E w e \<noteq> None \<longleftrightarrow> e \<in> fst ` set vs"
    and "\<And>e x. (e, x) \<in> set vs \<Longrightarrow> part_of E w e = Some x"
  shows "mset (q_all_parts E w) = mset (map snd vs)"
proof -
  let ?P = "\<lambda>e. enabled E w e \<and> part_of E w e \<noteq> None"
  have "q_all_parts E w = map (\<lambda>e. the (part_of E w e)) (filter ?P xs)" if "xs = ents E w" for xs
  proof -
    have "List.map_filter (\<lambda>e. if enabled E w e then part_of E w e else None) xs
        = map (\<lambda>e. the (part_of E w e)) (filter ?P xs)" for xs
      by (induction xs) auto
    then show ?thesis by (simp add: q_all_parts_def that)
  qed
  then have q: "q_all_parts E w = map (\<lambda>e. the (part_of E w e)) (filter ?P (ents E w))" by simp
  have "set (filter ?P (ents E w)) = set (map fst vs)"
    using assms(3) ecs_dead [OF assms(1)] by (fastforce simp: part_of_def)
  then have "mset (filter ?P (ents E w)) = mset (map fst vs)"
    using assms(1,2) by (intro set_eq_iff_mset_eq_distinct [THEN iffD1]) simp_all
  then have "mset (q_all_parts E w) = mset (map (\<lambda>e. the (part_of E w e)) (map fst vs))"
    by (simp only: q mset_map)
  also have "map (\<lambda>e. the (part_of E w e)) (map fst vs) = map snd vs"
    using assms(4) by force
  finally show ?thesis .
qed

lemma checksum_total:
  assumes laws: "ecs_laws (app_ecs A)" and parts: "parts_ok (app_ecs A) ((sys_flag \<circ> fst) ` set ss) (ecs_state w)"
    and flags: "distinct (map (sys_flag \<circ> fst) ss)"
    and f: "flushed_parts (app_ecs A) (ecs_state w) (part_spawns A w 0 ss) (part_values A w ss) e'"
  shows "mset (q_all_parts (app_ecs A) e') = mset (map snd ss)"
proof -
  have d: "distinct (map fst (part_values A w ss))"
    by (rule part_values_keys [OF laws parts flags]) simp
  have "part_of (app_ecs A) e' e = Some x" if "(e, x) \<in> set (part_values A w ss)" for e x
    using f that d by (simp add: flushed_parts_def map_of_is_SomeI)
  then have "mset (q_all_parts (app_ecs A) e') = mset (map snd (part_values A w ss))"
    by (intro q_all_parts_mset [OF laws d flushed_parts_iff [OF laws parts f]])
  then show ?thesis by (simp only: mset_part_values)
qed

end
