(* ===== verification/SaveContract.thy ===== *)
theory SaveContract
  imports SaveChecksum
begin

text \<open>
  The contract of \<open>SaveWorld\<close>: in every order Bevy may choose, the schedule leaves the simulation
  as it was, records the checksum of the frame, and stores the frame in every storage without
  losing the frames of the prediction window.
\<close>

section \<open>One part per type, again\<close>

lemma set_q_part_flushed:
  assumes laws: "ecs_laws (app_ecs A)"
    and f: "flushed_parts (app_ecs A) (ecs_state w) (part_spawns A w 0 ss) (part_values A w ss) e'"
  shows "e \<in> set (q_part (app_ecs A) flag e') \<longleftrightarrow> e \<in> set (q_part (app_ecs A) flag (ecs_state w)) \<or>
    (\<exists>x. (e, flag, x) \<in> set (part_spawns A w 0 ss))"
proof -
  let ?E = "app_ecs A" and ?w = "ecs_state w" and ?sp = "part_spawns A w 0 ss"
  note same = flushed_enabled(1,2) [OF laws f spawns_fresh(2) [OF laws]]
  have part: "part_of ?E e' e = (case map_of (part_values A w ss) e of Some x \<Rightarrow> Some x | None \<Rightarrow> part_of ?E ?w e)"
    using f by (simp add: flushed_parts_def)
  have vs: "map_of (part_values A w ss) e = (case map_of ?sp e of Some (fl, x) \<Rightarrow> Some x | None \<Rightarrow> map_of (part_writes A w ss) e)"
    using spawned_not_written [OF laws, of w ss e]
    by (auto simp: part_values_def map_add_def map_of_part_values split: option.split)
  show ?thesis
  proof (cases "map_of ?sp e")
    case None
    have "part_of ?E ?w e \<noteq> None" if "map_of (part_writes A w ss) e = Some x" for x
      using part_writes_have_parts [OF laws, of w ss] map_of_SomeD [OF that] by fastforce
    then have "part_of ?E e' e = None \<longleftrightarrow> part_of ?E ?w e = None"
      by (simp add: part vs None split: option.split)
    moreover have "cget ?E e' (FlagKey flag) e = cget ?E ?w (FlagKey flag) e"
      using f None by (simp add: flushed_parts_def)
    moreover have "(e, flag, x) \<notin> set ?sp" for x using None by (force simp: map_of_eq_None_iff)
    ultimately show ?thesis by (simp add: set_q_part [OF laws] same)
  next
    case (Some y)
    obtain fl x where y: "y = (fl, x)" by (cases y)
    have "e \<in> fst ` set ?sp" using Some by (force dest: map_of_SomeD)
    then have "e \<notin> set (ents ?E ?w)" using spawns_fresh(2) [OF laws, of w 0 ss] by blast
    then have dead: "cget ?E ?w k e = None" for k using ecs_dead [OF laws] by simp
    have "(\<exists>x. (e, flag, x) \<in> set ?sp) \<longleftrightarrow> flag = fl"
      using Some map_of_is_SomeI [OF spawns_fresh(1) [OF laws, of w 0 ss]] by (auto simp: y dest: map_of_SomeD)
    moreover have "cget ?E e' (FlagKey flag) e \<noteq> None \<longleftrightarrow> flag = fl"
      using f Some by (simp add: flushed_parts_def y)
    moreover have "part_of ?E ?w e = None" "enabled ?E ?w e" by (simp_all add: part_of_def enabled_def dead)
    ultimately show ?thesis
      by (simp add: set_q_part [OF laws] same part vs Some y dead)
  qed
qed

lemma part_values_fst:
  "fst ` set (part_values A w ss) = fst ` set (part_writes A w ss) \<union> fst ` set (part_spawns A w 0 ss)"
  by (simp add: part_values_def image_Un image_image case_prod_unfold)

lemma distinct_spawn_flags:
  "distinct (map (sys_flag \<circ> fst) ss) \<Longrightarrow> distinct (map (fst \<circ> snd) (part_spawns A w n ss))"
proof (induction ss arbitrary: n)
  case (Cons r ss)
  obtain s x where r: "r = (s, x)" by (cases r)
  have "sys_flag s \<notin> (fst \<circ> snd) ` set (part_spawns A w m ss)" for m
    unfolding part_spawns_flags using Cons.prems by (force simp: r)
  then show ?case
    using Cons by (cases "single (q_part (app_ecs A) (sys_flag s) (ecs_state w))") (simp_all add: r)
qed simp

lemma flushed_parts_ok:
  assumes laws: "ecs_laws (app_ecs A)" and parts: "parts_ok (app_ecs A) ((sys_flag \<circ> fst) ` set ss) (ecs_state w)"
    and flags: "distinct (map (sys_flag \<circ> fst) ss)"
    and f: "flushed_parts (app_ecs A) (ecs_state w) (part_spawns A w 0 ss) (part_values A w ss) e'"
  shows "parts_ok (app_ecs A) ((sys_flag \<circ> fst) ` set ss) e'"
proof -
  let ?E = "app_ecs A" and ?w = "ecs_state w" and ?sp = "part_spawns A w 0 ss" and ?F = "(sys_flag \<circ> fst) ` set ss"
  note q = set_q_part_flushed [OF laws f]
  have old: "e \<notin> fst ` set ?sp" if "e \<in> set (q_part ?E flag ?w)" for e flag
  proof -
    have "e \<in> set (ents ?E ?w)" using that by (simp add: q_part_def)
    then show ?thesis using spawns_fresh(2) [OF laws, of w 0 ss] by blast
  qed
  have one: "e1 = e2" if fl: "flag \<in> ?F" and m: "e1 \<in> set (q_part ?E flag e')" "e2 \<in> set (q_part ?E flag e')" for flag e1 e2
  proof (cases "single (q_part ?E flag ?w)")
    case (Some e)
    then have "flag \<notin> (fst \<circ> snd) ` set ?sp" unfolding part_spawns_flags by auto
    then have "(e', flag, x) \<notin> set ?sp" for e' x by force
    then show ?thesis using m Some by (simp add: q single_Some)
  next
    case None
    have "length (q_part ?E flag ?w) \<le> 1" using parts fl unfolding parts_ok_def by blast
    then have "q_part ?E flag ?w = []"
      using None by (cases "q_part ?E flag ?w") (auto simp: single_def)
    then obtain x1 x2 where "(e1, flag, x1) \<in> set ?sp" "(e2, flag, x2) \<in> set ?sp"
      using m by (auto simp: q)
    moreover have "inj_on (fst \<circ> snd) (set ?sp)"
      using distinct_spawn_flags [OF flags, of A w 0] by (simp add: distinct_map)
    ultimately have "(e1, flag, x1) = (e2, flag, x2)" by (intro inj_onD [of "fst \<circ> snd" "set ?sp"]) simp_all
    then show ?thesis by simp
  qed
  have "length (q_part ?E flag e') \<le> 1" if "flag \<in> ?F" for flag
  proof -
    have "distinct (q_part ?E flag e')" using laws by (simp add: q_part_def)
    moreover have "\<exists>e. set (q_part ?E flag e') \<subseteq> {e}"
      using one [OF that] by (cases "q_part ?E flag e'") auto
    ultimately show ?thesis
      by (metis card_mono card.empty card_insert_disjoint distinct_card empty_iff finite.emptyI finite.insertI One_nat_def)
  qed
  moreover have "\<exists>!flag. flag \<in> ?F \<and> e \<in> set (q_part ?E flag e')"
    if e: "enabled ?E e' e \<and> part_of ?E e' e \<noteq> None" for e
  proof (cases "e \<in> fst ` set ?sp")
    case True
    then obtain flag x where sp: "(e, flag, x) \<in> set ?sp" by auto
    then have "flag \<in> (fst \<circ> snd) ` set ?sp" by force
    then have "flag \<in> ?F" unfolding part_spawns_flags by force
    moreover have "flag' = flag" if m: "e \<in> set (q_part ?E flag' e')" for flag'
    proof -
      have "e \<notin> set (q_part ?E flag' ?w)" using True old by blast
      then obtain x' where "(e, flag', x') \<in> set ?sp" using m by (auto simp: q)
      from map_of_is_SomeI [OF spawns_fresh(1) [OF laws] this] map_of_is_SomeI [OF spawns_fresh(1) [OF laws] sp]
      show ?thesis by simp
    qed
    moreover have "e \<in> set (q_part ?E flag e')" using sp by (auto simp: q)
    ultimately show ?thesis by (intro ex1I [of _ flag] conjI) (elim conjE; assumption | assumption | elim conjE; simp only:)+
  next
    case False
    have "e \<in> fst ` set (part_values A w ss)" using flushed_parts_iff [OF laws parts f] e by blast
    then have "e \<in> fst ` set (part_writes A w ss)" using False by (simp add: part_values_fst)
    then obtain s x where s: "(s, x) \<in> set ss" "q_part ?E (sys_flag s) ?w = [e]" by (auto simp: fst_part_writes)
    then have "e \<in> set (q_part ?E (sys_flag s) ?w)" by simp
    then have "enabled ?E ?w e \<and> part_of ?E ?w e \<noteq> None" by (simp add: set_q_part [OF laws])
    then have "\<exists>!flag. flag \<in> ?F \<and> e \<in> set (q_part ?E flag ?w)" using parts unfolding parts_ok_def by blast
    moreover have "e \<in> set (q_part ?E flag e') \<longleftrightarrow> e \<in> set (q_part ?E flag ?w)" for flag
      using False by (force simp: q)
    ultimately show ?thesis by simp
  qed
  ultimately show ?thesis unfolding parts_ok_def by blast
qed

section \<open>The whole schedule\<close>

text \<open>
  What a save asks of the world: storages whose queues keep their invariant, a positive prediction
  window, the resources the systems take, identities that are registered, and at most one checksum
  part per registered type.
\<close>

definition checksums_ok :: "('w, 'v, 's, 't, 'i, 'x, 'h) app \<Rightarrow> bool" where
  "checksums_ok A \<longleftrightarrow> distinct (map fst (comp_checksums A)) \<and> distinct (map fst (res_checksums A))"

definition part_flags :: "('w, 'v, 's, 't, 'i, 'x, 'h) app \<Rightarrow> checksum_flag set" where
  "part_flags A = sys_flag ` set (checksum_systems A)"

definition checksum_ready ::
  "('w, 'v, 's, 't, 'i, 'x, 'h) app \<Rightarrow> ('w, 'v, 's, 't, 'i, 'x) world \<Rightarrow> bool" where
  "checksum_ready A w \<longleftrightarrow> checksum_res w \<noteq> None \<and> parts_ok (app_ecs A) (part_flags A) (ecs_state w) \<and>
     (\<exists>ordered. rollback_ordered_res w = Some ordered \<and> ordered_ok ordered \<and>
        (\<forall>t \<in> fst ` set (comp_checksums A).
           \<forall>(r, c) \<in> set (q_checksum (app_ecs A) t (ecs_state w)). registered ordered r)) \<and>
     (\<forall>i \<in> fst ` set (res_checksums A). user_resource w i \<noteq> None)"

definition saveable ::
  "('w, 'v, 's, 't, 'i, 'x, 'h) app \<Rightarrow> ('w, 'v, 's, 't, 'i, 'x) world \<Rightarrow> i32 \<Rightarrow> nat \<Rightarrow> bool" where
  "saveable A w f d \<longleftrightarrow> pending w = [] \<and> rollback_frame_count w = Some f \<and> 0 <=s f \<and>
     max_prediction_window w = Some d \<and> 0 < d \<and> (\<forall>st \<in> set (save_stores A). storage_ok w st) \<and>
     checksum_ready A w"

text \<open>The checksum of the frame: the exclusive or of what each registered type contributes.\<close>

definition frame_checksum ::
  "('w, 'v, 's, 't, 'i, 'x, 'h) app \<Rightarrow> ('w, 'v, 's, 't, 'i, 'x) world \<Rightarrow> u128" where
  "frame_checksum A w = foldl (XOR) 0
     (map (\<lambda>s. case sys_value A w s of Inr x \<Rightarrow> x | Inl p \<Rightarrow> 0) (checksum_systems A))"

text \<open>
  The simulation is untouched: only checksum parts, the total and the storages may differ.
\<close>

definition same_simulation ::
  "('w, 'v, 's, 't, 'i, 'x, 'h) app \<Rightarrow> ('w, 'v, 's, 't, 'i, 'x) world \<Rightarrow> ('w, 'v, 's, 't, 'i, 'x) world \<Rightarrow> bool" where
  "same_simulation A w w' \<longleftrightarrow>
     only_storages (w\<lparr>ecs_state := ecs_state w', checksum_res := checksum_res w'\<rparr>) w' \<and>
     (\<forall>k e. k \<noteq> PartKey \<and> (\<forall>flag. k \<noteq> FlagKey flag) \<longrightarrow>
        cget (app_ecs A) (ecs_state w') k e = cget (app_ecs A) (ecs_state w) k e) \<and>
     (\<forall>flag e. e \<in> set (ents (app_ecs A) (ecs_state w)) \<longrightarrow>
        cget (app_ecs A) (ecs_state w') (FlagKey flag) e = cget (app_ecs A) (ecs_state w) (FlagKey flag) e)"

lemma checksum_systems_ok:
  assumes "checksums_ok A"
  shows "distinct (map sys_flag (checksum_systems A))" "\<forall>s \<in> set (checksum_systems A). checksum_sys s"
proof -
  have c: "map sys_flag (map (\<lambda>(t, h). ComponentChecksum t h) (comp_checksums A)) = map CompFlag (map fst (comp_checksums A))"
    by auto
  have r: "map sys_flag (map (\<lambda>(i, h). ResourceChecksum i h) (res_checksums A)) = map ResFlag (map fst (res_checksums A))"
    by auto
  have "distinct (map CompFlag (map fst (comp_checksums A)))" "distinct (map ResFlag (map fst (res_checksums A)))"
    using assms by (auto simp: checksums_ok_def distinct_map intro: inj_onI simp del: map_map)
  then show "distinct (map sys_flag (checksum_systems A))"
    unfolding checksum_systems_def list.map map_append distinct.simps distinct_append c r by auto
  show "\<forall>s \<in> set (checksum_systems A). checksum_sys s" by (auto simp: checksum_systems_def)
qed

lemma sys_values:
  assumes "checksum_ready A w" "s \<in> set (checksum_systems A)"
  shows "\<exists>x. sys_value A w s = Inr x"
proof -
  obtain ordered where o: "rollback_ordered_res w = Some ordered" "ordered_ok ordered"
    "\<forall>t \<in> fst ` set (comp_checksums A).
       \<forall>(r, c) \<in> set (q_checksum (app_ecs A) t (ecs_state w)). registered ordered r"
    using assms(1) unfolding checksum_ready_def by blast
  have "\<exists>x. sys_value A w (ComponentChecksum t h) = Inr x" if "(t, h) \<in> set (comp_checksums A)" for t h
  proof -
    have "\<forall>(r, c) \<in> set (q_checksum (app_ecs A) t (ecs_state w)). registered ordered r"
      using o(3) that by force
    from component_checksum_eq [OF keyed_registered [OF o(2) this], of "app_hasher A" h]
    show ?thesis by (simp add: o(1))
  qed
  moreover have "\<exists>x. sys_value A w (ResourceChecksum i h) = Inr x" if "(i, h) \<in> set (res_checksums A)" for i h
  proof -
    have "user_resource w i \<noteq> None" using assms(1) that unfolding checksum_ready_def by force
    then show ?thesis by auto
  qed
  ultimately show ?thesis using assms(2) o(1) by (auto simp: checksum_systems_def simp del: sys_value.simps(2,3))
qed

text \<open>The checksum set, the flush and the total.\<close>

lemma checksum_stage:
  assumes "app_ok A" "checksums_ok A" "mset cs = mset (checksum_systems A)"
    and "pending w = []" "checksum_ready A w"
  obtains e' where "rfold (run_save A) (cs @ [ChecksumFlush, TotalChecksum]) w
      = Inr (w\<lparr>ecs_state := e', checksum_res := Some (frame_checksum A w)\<rparr>)"
    "\<forall>k e. k \<noteq> PartKey \<and> (\<forall>flag. k \<noteq> FlagKey flag) \<longrightarrow>
       cget (app_ecs A) e' k e = cget (app_ecs A) (ecs_state w) k e"
    "\<forall>flag e. e \<in> set (ents (app_ecs A) (ecs_state w)) \<longrightarrow>
       cget (app_ecs A) e' (FlagKey flag) e = cget (app_ecs A) (ecs_state w) (FlagKey flag) e"
    "parts_ok (app_ecs A) (part_flags A) e'"
proof -
  let ?E = "app_ecs A" and ?v = "\<lambda>s. case sys_value A w s of Inr x \<Rightarrow> x | Inl p \<Rightarrow> 0"
  let ?ss = "map (\<lambda>s. (s, ?v s)) cs"
  have laws: "ecs_laws ?E" using assms(1) by (simp add: app_ok_def)
  have set: "set cs = set (checksum_systems A)" using assms(3) by (rule mset_eq_setD)
  have vals: "\<forall>(s, x) \<in> set ?ss. checksum_sys s \<and> sys_value A w s = Inr x"
    using checksum_systems_ok(2) [OF assms(2)] sys_values [OF assms(5)] by (force simp: set)
  obtain ordered where ord: "rollback_ordered_res w = Some ordered" using assms(5) unfolding checksum_ready_def by blast
  have F: "(sys_flag \<circ> fst) ` set ?ss = part_flags A" by (auto simp: part_flags_def set image_iff)
  have parts: "parts_ok ?E ((sys_flag \<circ> fst) ` set ?ss) (ecs_state w)"
    using assms(5) unfolding F checksum_ready_def by blast
  have "mset (map sys_flag cs) = mset (map sys_flag (checksum_systems A))" using assms(3) by simp
  then have "distinct (map sys_flag cs)" using checksum_systems_ok(1) [OF assms(2)] mset_eq_imp_distinct_iff by blast
  then have flags: "distinct (map (sys_flag \<circ> fst) ?ss)" by (simp add: o_def)
  obtain e' where e': "rfold (run_checksum A) (map fst ?ss @ [ChecksumFlush]) w = Inr (w\<lparr>ecs_state := e'\<rparr>)"
    "flushed_parts ?E (ecs_state w) (part_spawns A w 0 ?ss) (part_values A w ?ss) e'"
    using checksum_flush [OF laws vals assms(4) ord parts flags] by blast
  have "mset (q_all_parts ?E e') = mset (map ?v cs)"
    using checksum_total [OF laws parts flags e'(2)] by (simp add: o_def)
  also have "\<dots> = mset (map ?v (checksum_systems A))" using assms(3) by simp
  finally have total: "update_checksum (q_all_parts ?E e') = frame_checksum A w"
    unfolding update_checksum_def frame_checksum_def by (rule xor_fold_perm)
  have "run_save A s u = run_checksum A s u" if "checksum_sys s \<or> s = ChecksumFlush \<or> s = TotalChecksum" for s u
    using that by (cases s) auto
  then have "run_save A s u = run_checksum A s u" if "s \<in> set (cs @ [ChecksumFlush, TotalChecksum])" for s u
    using that checksum_systems_ok(2) [OF assms(2)] by (auto simp: set)
  then have "rfold (run_save A) (cs @ [ChecksumFlush, TotalChecksum]) w
      = rfold (run_checksum A) ((map fst ?ss @ [ChecksumFlush]) @ [TotalChecksum]) w"
    using rfold_cong [of "cs @ [ChecksumFlush, TotalChecksum]" "run_save A" "run_checksum A" w]
    by (simp add: o_def)
  also have "\<dots> = Inr (w\<lparr>ecs_state := e', checksum_res := Some (frame_checksum A w)\<rparr>)"
  proof -
    obtain y where y: "checksum_res w = Some y" using assms(5) unfolding checksum_ready_def by blast
    show ?thesis unfolding rfold_append [of _ "_ @ _"] e'(1) by (simp add: y total)
  qed
  finally have run: "rfold (run_save A) (cs @ [ChecksumFlush, TotalChecksum]) w
      = Inr (w\<lparr>ecs_state := e', checksum_res := Some (frame_checksum A w)\<rparr>)" .
  have old: "cget ?E e' (FlagKey flag) e = cget ?E (ecs_state w) (FlagKey flag) e"
    if "e \<in> set (ents ?E (ecs_state w))" for flag e
  proof -
    have "e \<notin> fst ` set (part_spawns A w 0 ?ss)" using that spawns_fresh(2) [OF laws] by blast
    then have "map_of (part_spawns A w 0 ?ss) e = None" by (simp add: map_of_eq_None_iff)
    then show ?thesis using e'(2) by (simp add: flushed_parts_def)
  qed
  show ?thesis
    using flushed_enabled(3) [OF laws e'(2) spawns_fresh(2) [OF laws]] old
      flushed_parts_ok [OF laws parts flags e'(2), unfolded F]
    by (intro that [OF run]) auto
qed

text \<open>A storage that holds a frame for each load system that reads it.\<close>

lemma stored_by_stores:
  assumes "\<forall>st \<in> set (save_stores A). stored E f w0 u (load_of st)"
  shows "\<forall>s \<in> set (load_systems A). stored E f w0 u s"
proof
  fix s assume s: "s \<in> set (load_systems A)"
  have comp: "stored E f w0 u (LoadComponent t m S)" if "(t, m, S) \<in> set (comp_plugins A)" for t m S
  proof -
    have "CompStore t S \<in> set (save_stores A)" using that by (force simp: save_stores_def)
    then show ?thesis using assms by fastforce
  qed
  have res: "stored E f w0 u (LoadResource i S)" if "(i, S) \<in> set (res_plugins A)" for i S
  proof -
    have "ResStore i S \<in> set (save_stores A)" using that by (force simp: save_stores_def)
    then show ?thesis using assms by fastforce
  qed
  show "stored E f w0 u s"
    using s assms comp res
    by (cases s) (auto simp: load_systems_def data_systems_def mapping_systems_def save_stores_def simp del: stored.simps(2,4))
qed

lemma stored_cong:
  "only_storages w u \<Longrightarrow> stored E f u u' s = stored E f w u' s"
  by (cases s) (simp_all add: only_storagesD)

text \<open>The effect of the schedule, with what it keeps of the frames already stored.\<close>

lemma save_effect:
  assumes "app_ok A" "checksums_ok A" "admissible save_before (save_systems A) xs" "saveable A w f d"
  obtains w' where "save_world A xs w = Inr w'" "same_simulation A w w'"
    "checksum_res w' = Some (frame_checksum A w)"
    "\<forall>s \<in> set (load_systems A). stored (app_ecs A) f w' w' s"
    "parts_ok (app_ecs A) (part_flags A) (ecs_state w')"
    "\<forall>st \<in> set (save_stores A). progress (app_ecs A) f (w\<lparr>ecs_state := ecs_state w',
       checksum_res := checksum_res w'\<rparr>) 3 w' st"
proof -
  let ?E = "app_ecs A"
  note s = assms(4) [unfolded saveable_def]
  obtain cs ys where xs: "xs = cs @ [ChecksumFlush, TotalChecksum] @ ys" "mset cs = mset (checksum_systems A)"
    "mset ys = mset (concat (map snapshot_chain (save_stores A)))" "sorted_wrt (\<lambda>a b. \<not> save_before b a) ys"
    by (rule save_order [OF assms(3)])
  obtain e' where e': "rfold (run_save A) (cs @ [ChecksumFlush, TotalChecksum]) w
      = Inr (w\<lparr>ecs_state := e', checksum_res := Some (frame_checksum A w)\<rparr>)"
    "\<forall>k e. k \<noteq> PartKey \<and> (\<forall>flag. k \<noteq> FlagKey flag) \<longrightarrow> cget ?E e' k e = cget ?E (ecs_state w) k e"
    "\<forall>flag e. e \<in> set (ents ?E (ecs_state w)) \<longrightarrow> cget ?E e' (FlagKey flag) e = cget ?E (ecs_state w) (FlagKey flag) e"
    "parts_ok ?E (part_flags A) e'"
    using s by (auto intro: checksum_stage [OF assms(1,2) xs(2)])
  define v where "v = w\<lparr>ecs_state := e', checksum_res := Some (frame_checksum A w)\<rparr>"
  have "storage_ok v st = storage_ok w st" for st :: "('b, 'c) save_store"
    by (cases st) (simp_all add: v_def)
  then have start: "\<forall>st \<in> set (save_stores A). progress ?E f v 0 v st" using s by (simp add: progress_start)
  have f: "rollback_frame_count v = Some f" "0 <=s f" "max_prediction_window v = Some d" "0 < d"
    using s by (simp_all add: v_def)
  obtain w' where w': "rfold (run_save A) ys v = Inr w'" "only_storages v w'"
    "\<forall>st \<in> set (save_stores A). progress ?E f v 3 w' st"
    using snapshot_stage [OF xs(3,4) save_stores_distinct [OF assms(1)] start f(1,2)] by blast
  note o = only_storagesD [OF w'(2)]
  have v: "v = w\<lparr>ecs_state := ecs_state w', checksum_res := checksum_res w'\<rparr>"
    using o by (simp add: v_def)
  have "pending w' = []" using o s by (simp add: v_def)
  then have run: "save_world A xs w = Inr w'"
    using e'(1) w'(1) unfolding save_world_def run_schedule_def xs(1) append.assoc [symmetric] rfold_append [of _ "_ @ _" ys]
    by (simp add: v_def apply_deferred_empty)
  have same: "same_simulation A w w'"
    using w'(2) e'(2,3) o(1) unfolding same_simulation_def v [symmetric] by (simp add: v_def)
  have "\<forall>st \<in> set (save_stores A). stored ?E f v w' (load_of st)"
    using w'(3) progress_stored(1) [OF _ f(2,3,4)] by blast
  from stored_by_stores [OF this] have st: "\<forall>s \<in> set (load_systems A). stored ?E f w' w' s"
    by (simp only: stored_cong [OF w'(2)])
  have c: "checksum_res w' = Some (frame_checksum A w)" and e: "ecs_state w' = e'"
    using o by (simp_all add: v_def)
  have parts: "parts_ok ?E (part_flags A) (ecs_state w')" unfolding e by (rule e'(4))
  have "\<forall>st \<in> set (save_stores A). progress ?E f (w\<lparr>ecs_state := ecs_state w',
      checksum_res := checksum_res w'\<rparr>) 3 w' st"
    using w'(3) by (subst (asm) v)
  from that [OF run same c st parts this] show ?thesis .
qed

text \<open>
  C5: Saving a frame, in any order of the systems: nothing panics, the simulation is untouched, the
  total checksum is the exclusive or of what the registered types contribute, every storage holds
  the frame, and there is again at most one checksum part per type.
\<close>

theorem save_world_stores:
  assumes "app_ok A" and "checksums_ok A" and "admissible save_before (save_systems A) xs" and "saveable A w f d"
  shows "\<exists>w'. save_world A xs w = Inr w' \<and> same_simulation A w w' \<and>
    checksum_res w' = Some (frame_checksum A w) \<and>
    (\<forall>s \<in> set (load_systems A). stored (app_ecs A) f w' w' s) \<and>
    parts_ok (app_ecs A) (part_flags A) (ecs_state w')"
  by (rule save_effect [OF assms]) (intro exI conjI)

end
