(* ===== verification/Resave.thy ===== *)
theory Resave
  imports SaveContract
begin

text \<open>
  The checksum of a frame is a function of the simulation: it does not depend on entity ids, on the
  order of queries or on how often the world went through a save and a load. This is what a sync
  test session and the peers of a session compare.
\<close>

section \<open>Worlds with the same simulation\<close>

text \<open>No rollback entity carries the flag of a checksum part.\<close>

definition unflagged :: "('w, 'v) ecs \<Rightarrow> 'w \<Rightarrow> bool" where
  "unflagged E w \<longleftrightarrow> (\<forall>e flag. rid_of E w e \<noteq> None \<longrightarrow> cget E w (FlagKey flag) e = None)"

text \<open>What is checksummed is also rolled back, and not rewritten by entity mapping.\<close>

definition checksums_restored :: "('w, 'v, 's, 't, 'i, 'x, 'h) app \<Rightarrow> bool" where
  "checksums_restored A \<longleftrightarrow>
     fst ` set (comp_checksums A) \<subseteq> fst ` set (comp_plugins A) - fst ` set (comp_map_plugins A) \<and>
     fst ` set (res_checksums A) \<subseteq> fst ` set (res_plugins A) - fst ` set (res_map_plugins A)"

lemma q_checksum_unflagged: "unflagged E w \<Longrightarrow> q_checksum E t w = q_components E w t"
  unfolding q_checksum_def q_components_def rollback_rows_def unflagged_def
  by (intro arg_cong [where f = "map _"] arg_cong2 [where f = List.map_filter] ext)
    (auto split: option.split)

lemma active_entities_ids:
  assumes "ecs_laws E" "unique_ids E w" "unflagged E w"
  shows "active_entities E w = card {r. \<exists>e. carries E w e r}"
proof -
  let ?es = "filter (\<lambda>e. enabled E w e \<and> rid_of E w e \<noteq> None \<and> cget E w (FlagKey EntityFlag) e = None) (ents E w)"
  have "e \<in> set ?es \<longleftrightarrow> (\<exists>r. carries E w e r)" for e
    using rid_live [OF assms(1), of w e] assms(3)
    by (cases "rid_of E w e") (auto simp: carries_def unflagged_def)
  then have "set ?es = {e. \<exists>r. carries E w e r}" by (simp only: set_eq_iff mem_Collect_eq simp_thms)
  moreover have "distinct ?es" using assms(1) by simp
  ultimately have "active_entities E w = card {e. \<exists>r. carries E w e r}"
    using distinct_card [of ?es] by (simp only: active_entities_def)
  moreover have "{r. \<exists>e. carries E w e r} = (\<lambda>e. the (rid_of E w e)) ` {e. \<exists>r. carries E w e r}"
    by (force simp: carries_def image_iff)
  moreover have "inj_on (\<lambda>e. the (rid_of E w e)) {e. \<exists>r. carries E w e r}"
    using assms(2) by (intro inj_onI) (auto simp: carries_def unique_ids_def)
  ultimately show ?thesis by (simp add: card_image)
qed

lemma mset_by_map_of:
  assumes "distinct (map fst xs)" "distinct (map fst ys)" "map_of xs = map_of ys"
  shows "mset xs = mset ys"
proof -
  have "set xs = set ys" using assms map_of_inject_set by blast
  then show ?thesis
    using assms(1,2) by (intro set_eq_iff_mset_eq_distinct [THEN iffD1]) (auto simp: distinct_map)
qed

text \<open>Worlds that agree on what the checksums read.\<close>

definition checksum_agree ::
  "('w, 'v, 's, 't, 'i, 'x, 'h) app \<Rightarrow> ('w, 'v, 's, 't, 'i, 'x) world \<Rightarrow> ('w, 'v, 's, 't, 'i, 'x) world \<Rightarrow> bool" where
  "checksum_agree A w0 w \<longleftrightarrow> (let E = app_ecs A in
     unique_ids E (ecs_state w0) \<and> unique_ids E (ecs_state w) \<and>
     unflagged E (ecs_state w0) \<and> unflagged E (ecs_state w) \<and>
     {r. \<exists>e. carries E (ecs_state w) e r} = {r. \<exists>e. carries E (ecs_state w0) e r} \<and>
     (\<forall>t \<in> fst ` set (comp_checksums A).
        map_of (q_components E (ecs_state w) t) = map_of (q_components E (ecs_state w0) t)) \<and>
     (\<forall>i \<in> fst ` set (res_checksums A). user_resource w i = user_resource w0 i) \<and>
     rollback_ordered_res w = rollback_ordered_res w0)"

lemma frame_checksum_agree:
  assumes "ecs_laws (app_ecs A)" "checksum_agree A w0 w" "checksum_ready A w0"
  shows "frame_checksum A w = frame_checksum A w0"
proof -
  let ?E = "app_ecs A"
  note a = assms(2) [unfolded checksum_agree_def Let_def]
  have u: "unique_ids ?E (ecs_state w0)" "unique_ids ?E (ecs_state w)"
    "unflagged ?E (ecs_state w0)" "unflagged ?E (ecs_state w)" using a by auto
  obtain ordered where o: "rollback_ordered_res w0 = Some ordered" "rollback_ordered_res w = Some ordered"
    "ordered_ok ordered"
    "\<forall>t \<in> fst ` set (comp_checksums A).
       \<forall>(r, c) \<in> set (q_checksum ?E t (ecs_state w0)). registered ordered r"
    using assms(3) a unfolding checksum_ready_def by auto
  have ents: "active_entities ?E (ecs_state w) = active_entities ?E (ecs_state w0)"
    using a by (simp add: active_entities_ids [OF assms(1)])
  have comp: "sys_value A w (ComponentChecksum t h) = sys_value A w0 (ComponentChecksum t h)"
    if t: "(t, h) \<in> set (comp_checksums A)" for t h
  proof -
    have "map_of (q_components ?E (ecs_state w) t) = map_of (q_components ?E (ecs_state w0) t)"
      using a t by force
    then have m: "mset (q_checksum ?E t (ecs_state w)) = mset (q_checksum ?E t (ecs_state w0))"
      using mset_by_map_of [OF q_components_get(2) [OF assms(1) u(2)] q_components_get(2) [OF assms(1) u(1)]]
      by (simp only: q_checksum_unflagged [OF u(3)] q_checksum_unflagged [OF u(4)])
    then have "set (q_checksum ?E t (ecs_state w)) = set (q_checksum ?E t (ecs_state w0))"
      by (rule mset_eq_setD)
    moreover have "\<forall>(r, c) \<in> set (q_checksum ?E t (ecs_state w0)). registered ordered r"
      using o(4) t by force
    ultimately have reg: "\<forall>(r, c) \<in> set (q_checksum ?E t (ecs_state w0)). registered ordered r"
      "\<forall>(r, c) \<in> set (q_checksum ?E t (ecs_state w)). registered ordered r" by simp_all
    have "mset (map (row_hash (app_hasher A) h) (keyed ordered (q_checksum ?E t (ecs_state w))))
        = mset (map (row_hash (app_hasher A) h) (keyed ordered (q_checksum ?E t (ecs_state w0))))"
      using m by (simp add: keyed_def)
    from xor_fold_perm [OF this, of 0] show ?thesis
      by (simp add: o(1,2) component_checksum_eq [OF keyed_registered [OF o(3) reg(1)]]
          component_checksum_eq [OF keyed_registered [OF o(3) reg(2)]])
  qed
  have "sys_value A w s = sys_value A w0 s" if "s \<in> set (checksum_systems A)" for s
    using that comp a ents o(1,2) by (auto simp: checksum_systems_def simp del: sys_value.simps(2))
  then show ?thesis unfolding frame_checksum_def by (simp cong: map_cong)
qed

section \<open>Save, load, save again\<close>

lemma same_simulation_agree:
  assumes "ecs_laws (app_ecs A)" "same_simulation A w w1" "unique_ids (app_ecs A) (ecs_state w)"
  shows "carries (app_ecs A) (ecs_state w1) = carries (app_ecs A) (ecs_state w)"
    "unique_ids (app_ecs A) (ecs_state w1)"
    "map_of (q_components (app_ecs A) (ecs_state w1) t) = map_of (q_components (app_ecs A) (ecs_state w) t)"
    "user_resource w1 = user_resource w" "rollback_ordered_res w1 = rollback_ordered_res w"
proof -
  let ?E = "app_ecs A"
  have k: "cget ?E (ecs_state w1) k e = cget ?E (ecs_state w) k e"
    if "k \<noteq> PartKey" "\<forall>flag. k \<noteq> FlagKey flag" for k e
    using assms(2) that unfolding same_simulation_def by blast
  note o = only_storagesD [OF assms(2) [unfolded same_simulation_def, THEN conjunct1]]
  have r: "rid_of ?E (ecs_state w1) = rid_of ?E (ecs_state w)"
    "enabled ?E (ecs_state w1) = enabled ?E (ecs_state w)"
    "comp_of ?E (ecs_state w1) t = comp_of ?E (ecs_state w) t"
    by (simp_all add: fun_eq_iff rid_of_def enabled_def comp_of_def k)
  show c: "carries ?E (ecs_state w1) = carries ?E (ecs_state w)"
    by (simp add: fun_eq_iff carries_def r)
  show u: "unique_ids ?E (ecs_state w1)" using assms(3) by (simp add: unique_ids_def r)
  show "map_of (q_components ?E (ecs_state w1) t) = map_of (q_components ?E (ecs_state w) t)"
  proof
    fix i
    have "map_of (q_components ?E (ecs_state w1) t) i = Some x
        \<longleftrightarrow> map_of (q_components ?E (ecs_state w) t) i = Some x" for x
      by (simp only: q_components_get(1) [OF assms(1) u] q_components_get(1) [OF assms(1,3)] c r)
    then show "map_of (q_components ?E (ecs_state w1) t) i = map_of (q_components ?E (ecs_state w) t) i"
      by (metis option.exhaust)
  qed
  show "user_resource w1 = user_resource w" "rollback_ordered_res w1 = rollback_ordered_res w"
    using o by simp_all
qed

lemma restored_checksum_agree:
  assumes "ecs_laws (app_ecs A)" "checksums_restored A" "same_simulation A w w1" "restored_world A w1 w3"
    and "unique_ids (app_ecs A) (ecs_state w)" "unflagged (app_ecs A) (ecs_state w)"
    "unflagged (app_ecs A) (ecs_state w3)"
  shows "checksum_agree A w w3"
  using same_simulation_agree [OF assms(1,3,5)] assms(2,4-)
  unfolding checksum_agree_def restored_world_def checksums_restored_def Let_def
  by (auto simp: subset_iff)

text \<open>
  C8: Rolling back does not change what a frame hashes to. If frame \<open>f\<close> of the world \<open>w\<close> is saved, the
  world moves on to some \<open>w2\<close> whose storages still hold that frame, and \<open>f\<close> is loaded and saved
  again, with the systems of the three schedules in any order Bevy may choose, the second save
  computes the checksum of the first. This is the equality a sync test session checks and the
  peers of a session compare.
\<close>

theorem resave_same_checksum:
  assumes "app_ok A" and "checksums_ok A" and "checksums_restored A"
    and "admissible save_before (save_systems A) xs" and "admissible load_before (load_systems A) ys"
    and "admissible save_before (save_systems A) zs"
    and "saveable A w f d" and "unique_ids (app_ecs A) (ecs_state w)"
    and "unflagged (app_ecs A) (ecs_state w)" and "save_world A xs w = Inr w1"
    and "pending w2 = []" and "rollback_frame_count w2 = Some f" and "entity_map_res w2 \<noteq> None"
    and "rollback_ordered_res w2 \<noteq> None"
    and "\<forall>s \<in> set (load_systems A). stored (app_ecs A) f w1 w2 s"
    and "loadable (app_ecs A) (ecs_state w1) (resurrect_entities (app_ecs A) f (ecs_state w2))"
    and "load_world A ys w2 = Inr w3" and "saveable A w3 f d'" and "unflagged (app_ecs A) (ecs_state w3)"
  shows "\<exists>w4. save_world A zs w3 = Inr w4 \<and> checksum_res w4 = checksum_res w1 \<and> checksum_res w4 \<noteq> None"
proof -
  have laws: "ecs_laws (app_ecs A)" using assms(1) by (simp add: app_ok_def)
  obtain u where u: "save_world A xs w = Inr u" "same_simulation A w u" "checksum_res u = Some (frame_checksum A w)"
    by (rule save_effect [OF assms(1,2,4,7)])
  have w1: "u = w1" using u(1) assms(10) by simp
  have "restored_world A w1 w3"
    using load_effect [OF assms(1,5,11-16)] assms(17) by auto
  then have "checksum_agree A w w3"
    using u(2) by (intro restored_checksum_agree [OF laws assms(3) _ _ assms(8,9,19)]) (simp_all add: w1)
  then have "frame_checksum A w3 = frame_checksum A w"
    using assms(7) by (intro frame_checksum_agree [OF laws]) (simp_all add: saveable_def)
  moreover obtain w4 where "save_world A zs w3 = Inr w4" "checksum_res w4 = Some (frame_checksum A w3)"
    by (rule save_effect [OF assms(1,2,6,18)])
  ultimately show ?thesis using u(3) w1 by simp
qed

end
