(* ===== verification/SaveExample.thy ===== *)
theory SaveExample
  imports Resave
begin

text \<open>
  A frame is saved, the game goes on (a component changes, an entity is despawned, a resource is
  removed), the frame is loaded and saved again. All worlds are computed from the schedules.
\<close>

lemma demo_saves_admissible: "admissible save_before (save_systems demo_app) (save_systems demo_app)"
  by (simp add: admissible_def save_before_def save_systems_def checksum_systems_def snapshot_chain_def save_stores_def demo_app_def)

lemma demo_q: "q_part table_ecs flag saved_table = []"
  by (simp add: q_part_def table_ecs_def t_ents_def saved_table_def t_get_def part_of_def)

lemma saved_world_saveable: "saveable demo_app saved_world 1 8"
proof -
  have "q_checksum table_ecs 0 saved_table = [(RollbackId 2, 5)]" by code_simp
  then have "\<forall>(r, c) \<in> set (q_checksum table_ecs 0 saved_table). registered order_a r"
    by (simp add: order_a_def)
  moreover have "part_of table_ecs saved_table e = None" for e
    by (simp add: part_of_def table_ecs_def saved_get)
  moreover have "ordered_ok order_a"
    by (simp add: ordered_ok_def order_a_def push_ordered_def default_ordered_def hm_insert_def)
  ultimately have "checksum_ready demo_app saved_world"
    by (simp add: checksum_ready_def parts_ok_def saved_world_def plain_world_def demo_app_def demo_q)
  moreover have "0 <=s (1 :: i32)" by code_simp
  ultimately show ?thesis
    by (simp add: saveable_def saved_world_def plain_world_def save_stores_def demo_app_def)
qed

definition demo_load_order :: "(int, int) load_sys list" where
  "demo_load_order = [ResurrectEntities, LoadEntities, EntityFlush, LoadResource 0 copy_strategy,
      LoadTime, LoadChildOf, LoadComponent 0 Mutable copy_strategy, LoadOrdered, DataFlush]"

definition saved_once :: demo_world_state where
 "saved_once = (case save_world demo_app (save_systems demo_app) saved_world of Inr x \<Rightarrow> x | Inl _ \<Rightarrow> saved_world)"
definition played_on :: demo_world_state where
  "played_on = saved_once\<lparr>ecs_state := t_despawn 3 (t_insert (UserKey 0) 2 (UserVal 9) (ecs_state saved_once)), user_resource := (\<lambda>_. None)\<rparr>"
definition rolled_back :: demo_world_state where
  "rolled_back = (case load_world demo_app demo_load_order played_on of Inr x \<Rightarrow> x | Inl _ \<Rightarrow> saved_world)"

definition parts_table :: "(entity \<times> (ckey \<times> int cval) list) list" where
  "parts_table = [(4, [(PartKey, PartVal 6791), (FlagKey EntityFlag, Marker)]),
     (5, [(PartKey, PartVal 6949), (FlagKey (CompFlag 0), Marker)]),
     (6, [(PartKey, PartVal 7), (FlagKey (ResFlag 0), Marker)])]"

lemma saved_once_state: "ecs_state saved_once = \<lparr>table_rows = table_rows saved_table @ parts_table, next_id = 7\<rparr>"
  by code_simp

lemma played_on_state: "ecs_state played_on = \<lparr>table_rows = (2, [(RollbackIdKey, IdVal (RollbackId 2)),
    (UserKey 0, UserVal 9)]) # parts_table, next_id = 7\<rparr>"
  by code_simp

lemma rolled_back_state: "ecs_state rolled_back = \<lparr>table_rows = (2, [(RollbackIdKey, IdVal (RollbackId 2)),
    (UserKey 0, UserVal 5)]) # parts_table @ [(7, [(RollbackIdKey, IdVal (RollbackId 3)), (RollbackKey, Marker),
       (ChildOfKey, ParentVal 2)])], next_id = 8\<rparr>"
  by code_simp

lemma rolled_back_storages:
  "queue_ok (entity_snapshots rolled_back)" "queue_ok (childof_snapshots rolled_back)"
  "queue_ok (ordered_snapshots rolled_back)" "queue_ok (time_snapshots rolled_back)"
  "queue_ok (comp_snapshots rolled_back 0)" "queue_ok (res_snapshots rolled_back 0)"
  by code_simp+

lemma rolled_back_resources:
  "checksum_res rolled_back = Some 421" "rollback_ordered_res rolled_back = Some order_a"
  "user_resource rolled_back 0 = Some 7" "max_prediction_window rolled_back = Some 8"
  "pending rolled_back = []" "rollback_frame_count rolled_back = Some 1"
  "q_checksum table_ecs 0 (ecs_state rolled_back) = [(RollbackId 2, 5)]"
  by code_simp+

lemma parts_table_get:
  "t_get (ecs_state saved_once) k e = (if e < 4 then t_get saved_table k e else
     if e = 4 then map_of [(PartKey, PartVal 6791), (FlagKey EntityFlag, Marker)] k else
     if e = 5 then map_of [(PartKey, PartVal 6949), (FlagKey (CompFlag 0), Marker)] k else
     if e = 6 then map_of [(PartKey, PartVal 7), (FlagKey (ResFlag 0), Marker)] k else None)"
  "t_get (ecs_state played_on) k e = (if e = 2 then (if k = RollbackIdKey then Some (IdVal (RollbackId 2))
       else if k = UserKey 0 then Some (UserVal 9) else None) else
     if e < 4 then None else t_get (ecs_state saved_once) k e)"
  "t_get (ecs_state rolled_back) k e = (if e = 3 then None else
     if e = 7 then map_of [(RollbackIdKey, IdVal (RollbackId 3)), (RollbackKey, Marker),
       (ChildOfKey, ParentVal 2)] k else t_get (ecs_state saved_once) k e)"
  by (auto simp: t_get_def saved_once_state played_on_state rolled_back_state saved_table_def parts_table_def)

lemma rolled_back_saveable: "saveable demo_app rolled_back 1 8"
proof -
  have q: "q_part table_ecs EntityFlag (ecs_state rolled_back) = [4]"
    "q_part table_ecs (CompFlag 0) (ecs_state rolled_back) = [5]"
    "q_part table_ecs (ResFlag 0) (ecs_state rolled_back) = [6]"
    by code_simp+
  have flags: "part_flags demo_app = {EntityFlag, CompFlag 0, ResFlag 0}"
    by (simp add: part_flags_def checksum_systems_def demo_app_def)
  have parts: "e \<in> {4, 5, 6}" if "part_of table_ecs (ecs_state rolled_back) e \<noteq> None" for e
    using that by (simp add: part_of_def parts_table_get saved_get split: if_splits)
  have one: "\<exists>!flag. flag \<in> {EntityFlag, CompFlag 0, ResFlag 0} \<and> e \<in> set (q_part table_ecs flag (ecs_state rolled_back))"
    if "e \<in> {4, 5, 6}" for e
    using that by (auto simp: q)
  have len: "\<forall>flag \<in> {EntityFlag, CompFlag 0, ResFlag 0}. length (q_part table_ecs flag (ecs_state rolled_back)) \<le> 1"
    by (simp add: q)
  have "parts_ok table_ecs {EntityFlag, CompFlag 0, ResFlag 0} (ecs_state rolled_back)"
    unfolding parts_ok_def by (rule conjI [OF len]) (intro allI impI one parts, elim conjE)
  moreover have "ordered_ok order_a"
    by (simp add: ordered_ok_def order_a_def push_ordered_def default_ordered_def hm_insert_def)
  moreover have "registered order_a (RollbackId 2)" by (simp add: order_a_def)
  moreover have "0 <=s (1 :: i32)" by code_simp
  ultimately show ?thesis
    unfolding saveable_def checksum_ready_def flags
    by (simp add: rolled_back_storages rolled_back_resources demo_app_def save_stores_def)
qed


text \<open>Only the identities, the markers and the hierarchy of the later table matter for a load.\<close>

lemma later_loadable:
  assumes "\<forall>k \<in> {RollbackIdKey, DespawnedKey, ChildOfKey}. t_get b k = t_get (ecs_state played_on) k"
    and "resurrect_entities table_ecs 1 b = b"
  shows "loadable table_ecs (ecs_state saved_once) (resurrect_entities table_ecs 1 b)"
proof -
  let ?a = "ecs_state saved_once"
  have b: "t_get b RollbackIdKey = t_get (ecs_state played_on) RollbackIdKey"
    "t_get b DespawnedKey = t_get (ecs_state played_on) DespawnedKey"
    "t_get b ChildOfKey = t_get (ecs_state played_on) ChildOfKey"
    using assms(1) by simp_all
  note get = parts_table_get saved_get b
  have c: "carries table_ecs ?a e r \<longleftrightarrow> e = 2 \<and> r = RollbackId 2 \<or> e = 3 \<and> r = RollbackId 3"
    "carries table_ecs b e r \<longleftrightarrow> e = 2 \<and> r = RollbackId 2" for e r
    by (auto simp: carries_def rid_of_def enabled_def get split: if_splits)
  have u: "unique_ids table_ecs ?a" "unique_ids table_ecs b"
    by (auto simp: unique_ids_def rid_of_def get split: if_splits)
  have "parents_tracked table_ecs ?a"
    unfolding parents_tracked_def by (auto simp: c parent_of_def get split: if_splits)
  moreover have below: "below table_ecs b p e \<Longrightarrow> e = p" for p e
    by (induction rule: below.induct) (auto simp: get split: if_splits)
  have "reconcilable table_ecs b (new_snapshot (q_entities table_ecs ?a))"
    unfolding reconcilable_def
  proof (intro conjI allI impI)
    show "hm_get (new_snapshot (q_entities table_ecs ?a)) r = None"
      if "rid_of table_ecs b e = Some r \<and> \<not> enabled table_ecs b e" for e r
      using that by (auto simp: enabled_def get split: if_splits)
    show "hm_get (new_snapshot (q_entities table_ecs ?a)) r = None"
      if "carries table_ecs b p q \<and> hm_get (new_snapshot (q_entities table_ecs ?a)) q = None
        \<and> below table_ecs b p e \<and> carries table_ecs b e r" for p q e r
      using that below [of p e] by (auto simp: c)
  qed
  moreover have "no_reuse table_ecs b (new_snapshot (q_entities table_ecs ?a))"
    unfolding no_reuse_def saved_entities(1) [OF table_ecs_laws u(1)] c
    by (auto simp: rid_of_def get split: if_splits)
  ultimately show ?thesis
    unfolding loadable_def assms(2) using u by (auto simp: c)
qed

lemma played_on_loadable:
  "loadable table_ecs (ecs_state saved_once) (resurrect_entities table_ecs 1 (ecs_state played_on))"
proof (rule later_loadable)
  show "resurrect_entities table_ecs 1 (ecs_state played_on) = ecs_state played_on" by code_simp
qed simp

theorem save_world_stores_witness:
  "\<exists>w'. save_world demo_app (save_systems demo_app) saved_world = Inr w' \<and>
     checksum_res w' = Some (frame_checksum demo_app saved_world)"
proof -
  have a: "app_ok demo_app" "checksums_ok demo_app"
    by (simp_all add: app_ok_def demo_app_def strategy_ok_copy checksums_ok_def)
  show ?thesis
    using save_world_stores [OF a demo_saves_admissible saved_world_saveable] by blast
qed

theorem resave_same_checksum_witness:
  "\<exists>w4. save_world demo_app (save_systems demo_app) rolled_back = Inr w4 \<and> checksum_res w4 = Some 421"
proof -
  have a: "app_ok demo_app" "checksums_ok demo_app" "checksums_restored demo_app"
    by (simp_all add: app_ok_def demo_app_def strategy_ok_copy checksums_ok_def checksums_restored_def)
  have l: "admissible load_before (load_systems demo_app) demo_load_order"
    by (simp add: demo_load_order_def admissible_def load_before_def load_systems_def data_systems_def
        mapping_systems_def demo_app_def)
  obtain u where u: "save_world demo_app (save_systems demo_app) saved_world = Inr u"
    "\<forall>s \<in> set (load_systems demo_app). stored (app_ecs demo_app) 1 u u s"
    by (rule save_effect [OF a(1,2) demo_saves_admissible saved_world_saveable])
  have once: "saved_once = u" by (simp add: saved_once_def u(1))
  have p: "played_on = saved_once\<lparr>ecs_state := ecs_state played_on, pending := [], user_resource := (\<lambda>_. None),
      rollback_ordered_res := rollback_ordered_res saved_once, ggrs_time := ggrs_time saved_once\<rparr>"
  proof -
    have "pending saved_once = []" by code_simp
    then show ?thesis by (simp add: played_on_def)
  qed
  have st: "\<forall>s \<in> set (load_systems demo_app). stored (app_ecs demo_app) 1 saved_once played_on s"
  proof
    show "stored (app_ecs demo_app) 1 saved_once played_on s" if "s \<in> set (load_systems demo_app)" for s
      using that u(2) unfolding once [symmetric] by (subst p) (simp only: stored_flushed)
  qed
  have res: "pending played_on = []" "rollback_frame_count played_on = Some 1"
    "entity_map_res played_on \<noteq> None" "rollback_ordered_res played_on \<noteq> None"
    "checksum_res saved_once = Some 421"
    by code_simp+
  have ld: "loadable (app_ecs demo_app) (ecs_state saved_once)
      (resurrect_entities (app_ecs demo_app) 1 (ecs_state played_on))"
    using played_on_loadable by (simp add: demo_app_def)
  have un: "unique_ids (app_ecs demo_app) (ecs_state saved_world)"
    "unflagged (app_ecs demo_app) (ecs_state saved_world)"
    "unflagged (app_ecs demo_app) (ecs_state rolled_back)"
    by (auto simp: demo_app_def unique_ids_def unflagged_def rid_of_def saved_world_def plain_world_def
        parts_table_get saved_get split: if_splits)
  obtain w3 where "load_world demo_app demo_load_order played_on = Inr w3"
    using load_effect [OF a(1) l res(1-4) st ld] by blast
  then have "load_world demo_app demo_load_order played_on = Inr rolled_back"
    by (simp add: rolled_back_def)
  from resave_same_checksum [OF a demo_saves_admissible l demo_saves_admissible saved_world_saveable un(1,2)
      u(1) [folded once] res(1-4) st ld this rolled_back_saveable un(3)]
  show ?thesis by (simp only: res(5)) blast
qed

end
