(* ===== verification/AdvanceSchedule.thy ===== *)
theory AdvanceSchedule
  imports SaveExample
begin

text \<open>
  The \<open>AdvanceWorld\<close> schedule: the clock of the frame, the despawns of confirmed frames, the user's
  \<open>GgrsSchedule\<close>, and the virtual clock again, in the chain of sets of \<open>src/snapshot/set.rs\<close>. The
  first \<open>ApplyDeferred\<close> is ordered after \<open>First\<close> and before \<open>Main\<close> only, so it may run on either
  side of the despawns.
\<close>

section \<open>Systems and sets\<close>

datatype advance_world_systems = FirstSet | DespawnConfirmedSet | MainSet | LastSet

datatype adv_sys =
    UpdateTime
  | ReplaceWithGgrs
  | FirstFlush
  | DespawnConfirmed
  | RunGgrsSchedule
  | MainFlush
  | ReplaceWithVirtual

fun advance_set :: "adv_sys \<Rightarrow> advance_world_systems option" where
  "advance_set UpdateTime = Some FirstSet"
| "advance_set ReplaceWithGgrs = Some FirstSet"
| "advance_set DespawnConfirmed = Some DespawnConfirmedSet"
| "advance_set RunGgrsSchedule = Some MainSet"
| "advance_set ReplaceWithVirtual = Some LastSet"
| "advance_set s = None"

fun advance_set_rank :: "advance_world_systems \<Rightarrow> nat" where
  "advance_set_rank FirstSet = 0"
| "advance_set_rank DespawnConfirmedSet = 1"
| "advance_set_rank MainSet = 2"
| "advance_set_rank LastSet = 3"

text \<open>
  A system precedes another when its set comes earlier in the chain, when the two are chained by the
  plugin, or when the \<open>after\<close> and \<open>before\<close> of an \<open>ApplyDeferred\<close> say so.
\<close>

fun advance_before :: "adv_sys \<Rightarrow> adv_sys \<Rightarrow> bool" where
  "advance_before a FirstFlush \<longleftrightarrow> advance_set a = Some FirstSet"
| "advance_before FirstFlush b \<longleftrightarrow> b \<in> {RunGgrsSchedule, MainFlush, ReplaceWithVirtual}"
| "advance_before a MainFlush \<longleftrightarrow> advance_set a \<noteq> None \<and> advance_set a \<noteq> Some LastSet"
| "advance_before MainFlush b \<longleftrightarrow> advance_set b = Some LastSet"
| "advance_before UpdateTime ReplaceWithGgrs = True"
| "advance_before a b \<longleftrightarrow>
     advance_set_rank (the (advance_set a)) < advance_set_rank (the (advance_set b))"

definition advance_systems :: "adv_sys list" where
  "advance_systems = [FirstFlush, MainFlush, DespawnConfirmed, RunGgrsSchedule, UpdateTime, ReplaceWithGgrs,
     ReplaceWithVirtual]"

section \<open>Running them\<close>

definition run_update_time ::
  "'t time_ops \<Rightarrow> ('w, 'v, 's, 't, 'i, 'x) world \<Rightarrow> ('w, 'v, 's, 't, 'i, 'x) world res" where
  "run_update_time T w =
     rbind (require ''Time<GgrsTime>'' (ggrs_time w)) (\<lambda>time.
     rbind (require ''RollbackFrameRate'' (frame_rate w)) (\<lambda>framerate.
     rbind (require ''RollbackFrameCount'' (rollback_frame_count w)) (\<lambda>frame.
     rbind (update_time T framerate frame time) (\<lambda>t.
       Inr (w\<lparr>ggrs_time := Some t\<rparr>)))))"

definition run_replace_with_ggrs ::
  "'t time_ops \<Rightarrow> ('w, 'v, 's, 't, 'i, 'x) world \<Rightarrow> ('w, 'v, 's, 't, 'i, 'x) world res" where
  "run_replace_with_ggrs T w =
     rbind (require ''Time'' (default_time w)) (\<lambda>d.
     rbind (require ''Time<GgrsTime>'' (ggrs_time w)) (\<lambda>t.
       Inr (w\<lparr>default_time := Some (replace_default_with_ggrs T t d)\<rparr>)))"

definition run_replace_with_virtual ::
  "'t time_ops \<Rightarrow> ('w, 'v, 's, 't, 'i, 'x) world \<Rightarrow> ('w, 'v, 's, 't, 'i, 'x) world res" where
  "run_replace_with_virtual T w =
     rbind (require ''Time'' (default_time w)) (\<lambda>d.
     rbind (require ''Time<Virtual>'' (virtual_time w)) (\<lambda>v.
       Inr (w\<lparr>default_time := Some (replace_default_with_virtual T v d)\<rparr>)))"

definition run_despawn_confirmed ::
  "('w, 'v) ecs \<Rightarrow> ('w, 'v, 's, 't, 'i, 'x) world \<Rightarrow> ('w, 'v, 's, 't, 'i, 'x) world res" where
  "run_despawn_confirmed E w =
     rbind (require ''ConfirmedFrameCount'' (confirmed_frame_count w)) (\<lambda>confirmed.
       let (e, local) = despawn_confirmed_entities E confirmed (last_confirmed w) (ecs_state w)
       in Inr (w\<lparr>ecs_state := e, last_confirmed := local\<rparr>))"

fun run_advance ::
  "('w, 'v, 's, 't, 'i, 'x, 'h) app \<Rightarrow> adv_sys \<Rightarrow> ('w, 'v, 's, 't, 'i, 'x) world \<Rightarrow>
     ('w, 'v, 's, 't, 'i, 'x) world res" where
  "run_advance A UpdateTime w = run_update_time (app_time A) w"
| "run_advance A ReplaceWithGgrs w = run_replace_with_ggrs (app_time A) w"
| "run_advance A FirstFlush w = apply_deferred (app_ecs A) w"
| "run_advance A DespawnConfirmed w = run_despawn_confirmed (app_ecs A) w"
| "run_advance A RunGgrsSchedule w = ggrs_schedule A w"
| "run_advance A MainFlush w = apply_deferred (app_ecs A) w"
| "run_advance A ReplaceWithVirtual w = run_replace_with_virtual (app_time A) w"

definition advance_world ::
  "('w, 'v, 's, 't, 'i, 'x, 'h) app \<Rightarrow> adv_sys list \<Rightarrow> ('w, 'v, 's, 't, 'i, 'x) world \<Rightarrow>
     ('w, 'v, 's, 't, 'i, 'x) world res" where
  "advance_world A systems w = run_schedule (app_ecs A) (run_advance A) systems w"

section \<open>The two orders\<close>

fun adv_rank :: "adv_sys \<Rightarrow> nat" where
  "adv_rank UpdateTime = 0"
| "adv_rank ReplaceWithGgrs = 1"
| "adv_rank FirstFlush = 2"
| "adv_rank DespawnConfirmed = 2"
| "adv_rank RunGgrsSchedule = 3"
| "adv_rank MainFlush = 4"
| "adv_rank ReplaceWithVirtual = 5"

lemma advance_before_rank: "advance_before a b \<longleftrightarrow> adv_rank a < adv_rank b"
  by (cases a; cases b) simp_all

lemma mset_pair: "mset xs = {#x, y#} \<Longrightarrow> xs = [x, y] \<or> xs = [y, x]"
  by (cases xs) (auto simp: add_eq_conv_ex dest: mset_singleton)

lemma advance_orders:
  assumes "admissible advance_before advance_systems xs"
  obtains ys where "xs = [UpdateTime, ReplaceWithGgrs] @ ys @ [RunGgrsSchedule, MainFlush, ReplaceWithVirtual]"
    "ys = [FirstFlush, DespawnConfirmed] \<or> ys = [DespawnConfirmed, FirstFlush]"
proof -
  have perm: "mset xs = mset advance_systems"
    and sorted: "sorted_wrt (\<lambda>a b. \<not> adv_rank b < adv_rank a) xs"
    using assms by (simp_all add: admissible_def advance_before_rank)
  have "adv_rank s < 6" for s by (cases s) simp_all
  then have "xs = concat (map (\<lambda>r. filter (\<lambda>x. adv_rank x = r) xs) [0..<6])"
    by (intro sorted_stages [OF sorted]) simp
  also have "[0..<6] = [0, 1, 2, 3, 4, 5]" by code_simp
  finally have xs: "xs = concat (map (\<lambda>r. filter (\<lambda>x. adv_rank x = r) xs) [0, 1, 2, 3, 4, 5])" .
  have stage: "mset (filter (\<lambda>x. adv_rank x = r) xs) = mset (filter (\<lambda>x. adv_rank x = r) advance_systems)" for r
    using perm by (simp add: mset_filter)
  have "filter (\<lambda>x. adv_rank x = 0) xs = [UpdateTime]" "filter (\<lambda>x. adv_rank x = 1) xs = [ReplaceWithGgrs]"
    "filter (\<lambda>x. adv_rank x = 3) xs = [RunGgrsSchedule]" "filter (\<lambda>x. adv_rank x = 4) xs = [MainFlush]"
    "filter (\<lambda>x. adv_rank x = 5) xs = [ReplaceWithVirtual]"
    by (rule mset_singleton, subst stage, simp add: advance_systems_def)+
  moreover have "mset (filter (\<lambda>x. adv_rank x = 2) xs) = {#FirstFlush, DespawnConfirmed#}"
    by (subst stage) (simp add: advance_systems_def)
  ultimately show ?thesis
    using xs mset_pair [of "filter (\<lambda>x. adv_rank x = 2) xs"]
    by (intro that [of "filter (\<lambda>x. adv_rank x = 2) xs"]) simp_all
qed

section \<open>What \<open>GgrsSchedule\<close> sees, and what is left after it\<close>

text \<open>The world at the start of the \<open>Main\<close> set, and the rest of the schedule.\<close>

definition frame_world ::
  "('w, 'v, 's, 't, 'i, 'x, 'h) app \<Rightarrow> i32 \<Rightarrow> 't \<Rightarrow> ('w, 'v, 's, 't, 'i, 'x) world \<Rightarrow>
     ('w, 'v, 's, 't, 'i, 'x) world" where
  "frame_world A confirmed t w = w\<lparr>ggrs_time := Some t, default_time := Some (as_generic (app_time A) t),
     ecs_state := fst (despawn_confirmed_entities (app_ecs A) confirmed (last_confirmed w) (ecs_state w)),
     last_confirmed := confirmed\<rparr>"

definition after_main ::
  "('w, 'v, 's, 't, 'i, 'x, 'h) app \<Rightarrow> ('w, 'v, 's, 't, 'i, 'x) world \<Rightarrow>
     ('w, 'v, 's, 't, 'i, 'x) world res" where
  "after_main A w = rbind (apply_deferred (app_ecs A) w) (\<lambda>w1.
     rbind (run_replace_with_virtual (app_time A) w1) (apply_deferred (app_ecs A)))"

lemma despawn_confirmed_local:
  "snd (despawn_confirmed_entities E confirmed local w) = confirmed"
  by (simp add: despawn_confirmed_entities_def)

lemma advance_effect:
  assumes "admissible advance_before advance_systems xs" and "pending w = []"
    and "ggrs_time w = Some t0" and "frame_rate w = Some rate" and "rollback_frame_count w = Some f"
    and "default_time w = Some d" and "confirmed_frame_count w = Some c"
    and "update_time (app_time A) rate f t0 = Inr t"
  shows "advance_world A xs w = rbind (ggrs_schedule A (frame_world A c t w)) (after_main A)"
proof -
  let ?first = "w\<lparr>ggrs_time := Some t, default_time := Some (as_generic (app_time A) t)\<rparr>"
  obtain ys where xs: "xs = [UpdateTime, ReplaceWithGgrs] @ ys @ [RunGgrsSchedule, MainFlush, ReplaceWithVirtual]"
    "ys = [FirstFlush, DespawnConfirmed] \<or> ys = [DespawnConfirmed, FirstFlush]"
    by (rule advance_orders [OF assms(1)])
  have dc: "run_despawn_confirmed (app_ecs A) ?first = Inr (frame_world A c t w)"
    using despawn_confirmed_local [of "app_ecs A" c "last_confirmed w" "ecs_state w"]
    by (simp add: run_despawn_confirmed_def assms(7) frame_world_def case_prod_beta)
  have first: "rfold (run_advance A) [UpdateTime, ReplaceWithGgrs] w = Inr ?first"
    using assms(3-6,8)
    by (simp add: run_update_time_def run_replace_with_ggrs_def replace_default_with_ggrs_def)
  have mid: "rfold (run_advance A) ys ?first = Inr (frame_world A c t w)"
    using xs(2) dc assms(2) by (auto simp: apply_deferred_empty frame_world_def)
  show ?thesis
    unfolding advance_world_def run_schedule_def xs(1) rfold_append first mid rbind_simps after_main_def
    by (simp add: rbind_assoc)
qed

text \<open>
  C13: A frame, in every order Bevy may choose. The user's schedule runs once, on a world in which the
  entities of confirmed frames are gone and the default clock reads the time of the frame, with the
  step since the frame before; then its commands are applied and the virtual clock is put back.
  Nothing outside the user's schedule panics before it starts.
\<close>

theorem advance_world_frame:
  assumes "admissible advance_before advance_systems xs" and "time_laws (app_time A)" and "generic_laws (app_time A)"
    and "pending w = []" and "ggrs_time w = Some t0" and "frame_rate w = Some rate" and "0 < rate"
    and "rollback_frame_count w = Some f" and "0 <=s f" and "elapsed (app_time A) t0 \<le> frame_nanos rate f"
    and "default_time w = Some d" and "confirmed_frame_count w = Some c"
  shows "\<exists>t. advance_world A xs w = rbind (ggrs_schedule A (frame_world A c t w)) (after_main A) \<and>
    map_option (elapsed (app_time A)) (default_time (frame_world A c t w)) = Some (frame_nanos rate f) \<and>
    map_option (delta (app_time A)) (default_time (frame_world A c t w))
      = Some (frame_nanos rate f - elapsed (app_time A) t0)"
proof -
  have "rate \<noteq> 0" using assms(7) by auto
  moreover obtain t where "advance_to (app_time A) (frame_nanos rate f) t0 = Inr t"
    "elapsed (app_time A) t = frame_nanos rate f"
    "delta (app_time A) t = frame_nanos rate f - elapsed (app_time A) t0"
    using time_advance [OF assms(2,10)] by blast
  ultimately show ?thesis
    using assms(3) advance_effect [OF assms(1,4,5,6,8,11,12)]
    by (auto simp: update_time_eq [OF assms(9)] frame_world_def generic_laws_def)
qed

theorem advance_world_frame_witness:
  "\<exists>t. advance_world demo_app [UpdateTime, ReplaceWithGgrs, DespawnConfirmed, FirstFlush, RunGgrsSchedule,
      MainFlush, ReplaceWithVirtual] saved_world
    = rbind (ggrs_schedule demo_app (frame_world demo_app (- 1) t saved_world)) (after_main demo_app) \<and>
    map_option fst (default_time (frame_world demo_app (- 1) t saved_world)) = Some 16666666"
proof -
  let ?xs = "[UpdateTime, ReplaceWithGgrs, DespawnConfirmed, FirstFlush, RunGgrsSchedule, MainFlush, ReplaceWithVirtual]"
  have a: "admissible advance_before advance_systems ?xs"
    by (simp add: admissible_def advance_systems_def)
  have n: "frame_nanos 60 1 = 16666666" by (simp add: frame_nanos_def)
  have b: "time_laws (app_time demo_app)" "generic_laws (app_time demo_app)"
    "pending saved_world = []" "ggrs_time saved_world = Some (16, 16)" "frame_rate saved_world = Some 60"
    "(0 :: u64) < 60" "rollback_frame_count saved_world = Some 1" "(0 :: i32) <=s 1"
    "elapsed (app_time demo_app) (16, 16) \<le> frame_nanos 60 1"
    "default_time saved_world = Some (0, 0)" "confirmed_frame_count saved_world = Some (- 1)"
    by (simp_all add: demo_app_def saved_world_def plain_world_def n word_sle_eq)
  from advance_world_frame [OF a b] show ?thesis by (auto simp: n demo_app_def)
qed

end
