(* ===== verification/RollbackApp.thy ===== *)
theory RollbackApp
  imports AdvanceSchedule
begin

text \<open>
  How an app is put together: the \<open>build\<close> of every plugin of the crate, and the methods of
  \<open>src/snapshot/rollback_app.rs\<close> that a game calls to register its types. What they leave behind is
  compared with the records the schedules run on: \<open>load_systems\<close>, \<open>save_systems\<close> and
  \<open>advance_systems\<close> hold exactly the systems that were added.
\<close>

section \<open>The app being built\<close>

datatype strategy_kind = ByCopy | ByClone | ByReflect

text \<open>Bevy knows a plugin by its type name, the type parameters included.\<close>

datatype plugin_name =
    GgrsPlugin | SnapshotPlugin | SnapshotSetPlugin | EntitySnapshotPlugin | OrderedSnapshotPlugin
  | ChildOfSnapshotPlugin | RollbackDespawnPlugin | ChecksumPlugin | EntityChecksumPlugin
  | GgrsTimePlugin | TimeSnapshotPlugin
  | ComponentSnapshotPlugin strategy_kind nat
  | ImmutableComponentSnapshotPlugin strategy_kind nat
  | ResourceSnapshotPlugin strategy_kind nat
  | ComponentMapEntitiesPlugin nat
  | ResourceMapEntitiesPlugin nat
  | ComponentChecksumPlugin nat
  | ResourceChecksumPlugin nat

datatype schedule_label = RollbackLabel label | GgrsSchedule | ReadInputs | PreUpdate | UserLabel nat

text \<open>A storage is a resource per type and stored type.\<close>

datatype stored_type = AsTarget | AsReflect

fun stored_as :: "strategy_kind \<Rightarrow> stored_type" where
  "stored_as ByReflect = AsReflect"
| "stored_as k = AsTarget"

datatype app_resource =
    RollbackOrderedR | RollbackFrameCountR | ConfirmedFrameCountR | MaxPredictionWindowR
  | LocalPlayersR | FixedTimestepDataR | RollbackEntityMapR | ChecksumR | GgrsTimeR
  | EntitySnapshotsR | ChildOfSnapshotsR | OrderedSnapshotsR | TimeSnapshotsR
  | ComponentSnapshotsR nat stored_type | ResourceSnapshotsR nat stored_type

record ('v, 's) bevy_app =
  plugin_registry :: "plugin_name list"
  app_resources :: "app_resource list"
  app_schedules :: "schedule_label list"
  load_regs :: "('v, 's) load_sys list"
  save_regs :: "('v, 's) save_sys list"
  advance_regs :: "adv_sys list"
  disabling :: "ckey list"
  requires_rollback :: "nat list"
  single_threaded :: "schedule_label list"
  ambiguity_errors :: "schedule_label list"
  driven_by :: "schedule_label list"          \<comment> \<open>the schedules that run \<open>run_ggrs_schedules\<close>\<close>

definition empty_app :: "('v, 's) bevy_app" where
  "empty_app = \<lparr>plugin_registry = [], app_resources = [], app_schedules = [PreUpdate], load_regs = [],
     save_regs = [], advance_regs = [], disabling = [], requires_rollback = [], single_threaded = [],
     ambiguity_errors = [], driven_by = []\<rparr>"

text \<open>A plugin that is already there panics; its name is entered before its \<open>build\<close> runs.\<close>

definition add_plugin ::
  "plugin_name \<Rightarrow> (('v, 's) bevy_app \<Rightarrow> ('v, 's) bevy_app res) \<Rightarrow> ('v, 's) bevy_app \<Rightarrow> ('v, 's) bevy_app res" where
  "add_plugin name build b =
     (if name \<in> set (plugin_registry b) then Inl DuplicatedPlugin
      else build (b\<lparr>plugin_registry := plugin_registry b @ [name]\<rparr>))"

text \<open>\<open>init_resource\<close> and \<open>init_schedule\<close> leave what is there.\<close>

definition init_resource :: "app_resource \<Rightarrow> ('v, 's) bevy_app \<Rightarrow> ('v, 's) bevy_app" where
  "init_resource r b = b\<lparr>app_resources := List.insert r (app_resources b)\<rparr>"

definition init_schedule :: "schedule_label \<Rightarrow> ('v, 's) bevy_app \<Rightarrow> ('v, 's) bevy_app" where
  "init_schedule l b = b\<lparr>app_schedules := List.insert l (app_schedules b)\<rparr>"

definition add_load :: "('v, 's) load_sys list \<Rightarrow> ('v, 's) bevy_app \<Rightarrow> ('v, 's) bevy_app" where
  "add_load xs b = b\<lparr>load_regs := load_regs b @ xs\<rparr>"

definition add_save :: "('v, 's) save_sys list \<Rightarrow> ('v, 's) bevy_app \<Rightarrow> ('v, 's) bevy_app" where
  "add_save xs b = b\<lparr>save_regs := save_regs b @ xs\<rparr>"

definition add_advance :: "adv_sys list \<Rightarrow> ('v, 's) bevy_app \<Rightarrow> ('v, 's) bevy_app" where
  "add_advance xs b = b\<lparr>advance_regs := advance_regs b @ xs\<rparr>"

section \<open>The plugins\<close>

text \<open>The order of sets is \<open>load_before\<close>, \<open>save_before\<close> and \<open>advance_before\<close>.\<close>

definition snapshot_set_build :: "('v, 's) bevy_app \<Rightarrow> ('v, 's) bevy_app res" where
  "snapshot_set_build b =
     Inr (add_advance [MainFlush] (add_advance [FirstFlush] (add_load [DataFlush] (add_load [EntityFlush] b))))"

definition entity_snapshot_build :: "('v, 's) bevy_app \<Rightarrow> ('v, 's) bevy_app res" where
  "entity_snapshot_build b =
     Inr (add_load [LoadEntities] (add_save (snapshot_chain EntityStore)
       (init_resource RollbackEntityMapR (init_resource EntitySnapshotsR b))))"

definition childof_snapshot_build :: "('v, 's) bevy_app \<Rightarrow> ('v, 's) bevy_app res" where
  "childof_snapshot_build b =
     Inr (add_load [LoadChildOf] (add_save (snapshot_chain ChildOfStore) (init_resource ChildOfSnapshotsR b)))"

definition component_snapshot_build ::
  "strategy_kind \<Rightarrow> nat \<Rightarrow> ('v, 's) strategy \<Rightarrow> ('v, 's) bevy_app \<Rightarrow> ('v, 's) bevy_app res" where
  "component_snapshot_build k t S b =
     Inr (add_load [LoadComponent t Mutable S] (add_save (snapshot_chain (CompStore t S))
       (init_resource (ComponentSnapshotsR t (stored_as k)) b)))"

definition immutable_component_snapshot_build ::
  "strategy_kind \<Rightarrow> nat \<Rightarrow> ('v, 's) strategy \<Rightarrow> ('v, 's) bevy_app \<Rightarrow> ('v, 's) bevy_app res" where
  "immutable_component_snapshot_build k t S b =
     Inr (add_load [LoadComponent t Immutable S] (add_save (snapshot_chain (CompStore t S))
       (init_resource (ComponentSnapshotsR t (stored_as k)) b)))"

text \<open>\<open>ResourceSnapshotPlugin\<close>, for a user type, for \<open>RollbackOrdered\<close> and for the clock.\<close>

definition resource_snapshot_build ::
  "app_resource \<Rightarrow> ('v, 's) save_store \<Rightarrow> ('v, 's) load_sys \<Rightarrow> ('v, 's) bevy_app \<Rightarrow> ('v, 's) bevy_app res" where
  "resource_snapshot_build r st ld b = Inr (add_load [ld] (add_save (snapshot_chain st) (init_resource r b)))"

definition despawn_build :: "('v, 's) bevy_app \<Rightarrow> ('v, 's) bevy_app res" where
  "despawn_build b =
     Inr (add_advance [DespawnConfirmed] (add_load [ResurrectEntities] (b\<lparr>disabling := DespawnedKey # disabling b\<rparr>)))"

definition component_map_build ::
  "nat \<Rightarrow> ((entity \<Rightarrow> entity) \<Rightarrow> 'v \<Rightarrow> 'v) \<Rightarrow> ('v, 's) bevy_app \<Rightarrow> ('v, 's) bevy_app res" where
  "component_map_build t h b = Inr (add_load [MapComponent t h] b)"

definition resource_map_build ::
  "nat \<Rightarrow> ((entity \<Rightarrow> entity) \<Rightarrow> 'v \<Rightarrow> 'v) \<Rightarrow> ('v, 's) bevy_app \<Rightarrow> ('v, 's) bevy_app res" where
  "resource_map_build i h b = Inr (add_load [MapResource i h] b)"

definition checksum_build :: "('v, 's) bevy_app \<Rightarrow> ('v, 's) bevy_app res" where
  "checksum_build b = Inr (add_save [TotalChecksum] (init_resource ChecksumR b))"

definition entity_checksum_build :: "('v, 's) bevy_app \<Rightarrow> ('v, 's) bevy_app res" where
  "entity_checksum_build b = Inr (add_save [EntityChecksum] b)"

definition component_checksum_build :: "nat \<Rightarrow> ('v \<Rightarrow> u64) \<Rightarrow> ('v, 's) bevy_app \<Rightarrow> ('v, 's) bevy_app res" where
  "component_checksum_build t h b = Inr (add_save [ComponentChecksum t h] b)"

definition resource_checksum_build :: "nat \<Rightarrow> ('v \<Rightarrow> u64) \<Rightarrow> ('v, 's) bevy_app \<Rightarrow> ('v, 's) bevy_app res" where
  "resource_checksum_build i h b = Inr (add_save [ResourceChecksum i h] b)"

definition snapshot_build :: "('v, 's) bevy_app \<Rightarrow> ('v, 's) bevy_app res" where
  "snapshot_build b =
     rbind (add_plugin SnapshotSetPlugin snapshot_set_build b) (\<lambda>b1.
     let b2 = init_resource ConfirmedFrameCountR (init_resource RollbackFrameCountR (init_resource RollbackOrderedR b1));
         b3 = init_schedule (RollbackLabel AdvanceWorld) (init_schedule (RollbackLabel SaveWorld)
                (init_schedule (RollbackLabel LoadWorld) b2))
     in rbind (add_plugin EntitySnapshotPlugin entity_snapshot_build b3) (\<lambda>b4.
        rbind (add_plugin OrderedSnapshotPlugin (resource_snapshot_build OrderedSnapshotsR OrderedStore LoadOrdered) b4) (\<lambda>b5.
        rbind (add_plugin ChildOfSnapshotPlugin childof_snapshot_build b5)
          (add_plugin RollbackDespawnPlugin despawn_build))))"

definition ggrs_time_build :: "('v, 's) bevy_app \<Rightarrow> ('v, 's) bevy_app res" where
  "ggrs_time_build b =
     rbind (add_plugin TimeSnapshotPlugin (resource_snapshot_build TimeSnapshotsR TimeStore LoadTime)
              (init_resource GgrsTimeR b)) (\<lambda>b1.
       Inr (add_advance [ReplaceWithVirtual] (add_advance [UpdateTime, ReplaceWithGgrs] b1)))"

text \<open>The plugin of \<open>src/lib.rs\<close> is a value: the schedule it drives the session in.\<close>

record ggrs_plugin =
  plugin_schedule :: schedule_label

definition ggrs_plugin_new :: "schedule_label \<Rightarrow> ggrs_plugin" where
  "ggrs_plugin_new schedule = \<lparr>plugin_schedule = schedule\<rparr>"

definition ggrs_plugin_default :: ggrs_plugin where
  "ggrs_plugin_default = \<lparr>plugin_schedule = PreUpdate\<rparr>"

definition ggrs_build :: "ggrs_plugin \<Rightarrow> ('v, 's) bevy_app \<Rightarrow> ('v, 's) bevy_app res" where
  "ggrs_build self b =
     rbind (add_plugin SnapshotPlugin snapshot_build b) (\<lambda>b1.
     let b2 = init_resource FixedTimestepDataR (init_resource LocalPlayersR (init_resource MaxPredictionWindowR b1));
         b3 = init_schedule ReadInputs b2;
         b4 = (init_schedule (RollbackLabel AdvanceWorld) b3)\<lparr>single_threaded := RollbackLabel AdvanceWorld # single_threaded b3\<rparr>;
         b5 = (init_schedule GgrsSchedule b4)\<lparr>ambiguity_errors := GgrsSchedule # ambiguity_errors b4\<rparr>;
         b6 = add_advance [RunGgrsSchedule] b5;
         b7 = b6\<lparr>driven_by := plugin_schedule self # driven_by b6\<rparr>
     in rbind (add_plugin ChecksumPlugin checksum_build b7) (\<lambda>b8.
        rbind (add_plugin EntityChecksumPlugin entity_checksum_build b8)
          (add_plugin GgrsTimePlugin ggrs_time_build)))"

definition ggrs_app :: "ggrs_plugin \<Rightarrow> ('v, 's) bevy_app res" where
  "ggrs_app self = add_plugin GgrsPlugin (ggrs_build self) empty_app"

section \<open>The methods of \<open>RollbackApp\<close>\<close>

text \<open>
  What a registered type brings along: its three snapshot strategies, its \<open>Hash\<close> and its
  \<open>MapEntities\<close>.
\<close>

record ('v, 's, 'h) user_type =
  by_copy :: "('v, 's) strategy"
  by_clone :: "('v, 's) strategy"
  by_reflect :: "('v, 's) strategy"
  hash_into :: "'v \<Rightarrow> 'h \<Rightarrow> 'h"
  map_entities :: "(entity \<Rightarrow> entity) \<Rightarrow> 'v \<Rightarrow> 'v"

type_synonym ('v, 's) app_call = "('v, 's) bevy_app \<Rightarrow> ('v, 's) bevy_app res"

definition rollback_component_with_reflect :: "('v, 's, 'h) user_type \<Rightarrow> nat \<Rightarrow> ('v, 's) app_call" where
  "rollback_component_with_reflect U t =
     add_plugin (ComponentSnapshotPlugin ByReflect t) (component_snapshot_build ByReflect t (by_reflect U))"

definition rollback_immutable_component_with_reflect :: "('v, 's, 'h) user_type \<Rightarrow> nat \<Rightarrow> ('v, 's) app_call" where
  "rollback_immutable_component_with_reflect U t =
     add_plugin (ImmutableComponentSnapshotPlugin ByReflect t)
       (immutable_component_snapshot_build ByReflect t (by_reflect U))"

definition rollback_resource_with_reflect :: "('v, 's, 'h) user_type \<Rightarrow> nat \<Rightarrow> ('v, 's) app_call" where
  "rollback_resource_with_reflect U i =
     add_plugin (ResourceSnapshotPlugin ByReflect i)
       (resource_snapshot_build (ResourceSnapshotsR i (stored_as ByReflect)) (ResStore i (by_reflect U))
          (LoadResource i (by_reflect U)))"

definition rollback_component_with_copy :: "('v, 's, 'h) user_type \<Rightarrow> nat \<Rightarrow> ('v, 's) app_call" where
  "rollback_component_with_copy U t =
     add_plugin (ComponentSnapshotPlugin ByCopy t) (component_snapshot_build ByCopy t (by_copy U))"

definition rollback_immutable_component_with_copy :: "('v, 's, 'h) user_type \<Rightarrow> nat \<Rightarrow> ('v, 's) app_call" where
  "rollback_immutable_component_with_copy U t =
     add_plugin (ImmutableComponentSnapshotPlugin ByCopy t)
       (immutable_component_snapshot_build ByCopy t (by_copy U))"

definition rollback_resource_with_copy :: "('v, 's, 'h) user_type \<Rightarrow> nat \<Rightarrow> ('v, 's) app_call" where
  "rollback_resource_with_copy U i =
     add_plugin (ResourceSnapshotPlugin ByCopy i)
       (resource_snapshot_build (ResourceSnapshotsR i (stored_as ByCopy)) (ResStore i (by_copy U))
          (LoadResource i (by_copy U)))"

definition rollback_component_with_clone :: "('v, 's, 'h) user_type \<Rightarrow> nat \<Rightarrow> ('v, 's) app_call" where
  "rollback_component_with_clone U t =
     add_plugin (ComponentSnapshotPlugin ByClone t) (component_snapshot_build ByClone t (by_clone U))"

definition rollback_immutable_component_with_clone :: "('v, 's, 'h) user_type \<Rightarrow> nat \<Rightarrow> ('v, 's) app_call" where
  "rollback_immutable_component_with_clone U t =
     add_plugin (ImmutableComponentSnapshotPlugin ByClone t)
       (immutable_component_snapshot_build ByClone t (by_clone U))"

definition rollback_resource_with_clone :: "('v, 's, 'h) user_type \<Rightarrow> nat \<Rightarrow> ('v, 's) app_call" where
  "rollback_resource_with_clone U i =
     add_plugin (ResourceSnapshotPlugin ByClone i)
       (resource_snapshot_build (ResourceSnapshotsR i (stored_as ByClone)) (ResStore i (by_clone U))
          (LoadResource i (by_clone U)))"

definition checksum_component_with_hash :: "'h hasher \<Rightarrow> ('v, 's, 'h) user_type \<Rightarrow> nat \<Rightarrow> ('v, 's) app_call" where
  "checksum_component_with_hash H U t =
     add_plugin (ComponentChecksumPlugin t) (component_checksum_build t (default_hasher H (hash_into U)))"

definition update_component_with_map_entities :: "('v, 's, 'h) user_type \<Rightarrow> nat \<Rightarrow> ('v, 's) app_call" where
  "update_component_with_map_entities U t =
     add_plugin (ComponentMapEntitiesPlugin t) (component_map_build t (map_entities U))"

definition checksum_resource_with_hash :: "'h hasher \<Rightarrow> ('v, 's, 'h) user_type \<Rightarrow> nat \<Rightarrow> ('v, 's) app_call" where
  "checksum_resource_with_hash H U i =
     add_plugin (ResourceChecksumPlugin i) (resource_checksum_build i (default_hasher H (hash_into U)))"

definition update_resource_with_map_entities :: "('v, 's, 'h) user_type \<Rightarrow> nat \<Rightarrow> ('v, 's) app_call" where
  "update_resource_with_map_entities U i =
     add_plugin (ResourceMapEntitiesPlugin i) (resource_map_build i (map_entities U))"

definition checksum_component :: "('v \<Rightarrow> u64) \<Rightarrow> nat \<Rightarrow> ('v, 's) app_call" where
  "checksum_component hasher t = add_plugin (ComponentChecksumPlugin t) (component_checksum_build t hasher)"

definition checksum_resource :: "('v \<Rightarrow> u64) \<Rightarrow> nat \<Rightarrow> ('v, 's) app_call" where
  "checksum_resource hasher i = add_plugin (ResourceChecksumPlugin i) (resource_checksum_build i hasher)"

text \<open>Requiring \<open>Rollback\<close> twice of the same type panics in Bevy as well.\<close>

definition require_rollback :: "nat \<Rightarrow> ('v, 's) app_call" where
  "require_rollback t b =
     (if t \<in> set (requires_rollback b) then Inl DuplicatedRequirement
      else Inr (b\<lparr>requires_rollback := requires_rollback b @ [t]\<rparr>))"

end
