(* ===== verification/Registration.thy ===== *)
theory Registration
  imports RollbackApp
begin

text \<open>
  A game is a sequence of registrations on top of \<open>GgrsPlugin\<close>. The theorems say when the sequence is
  accepted, that the schedules then hold exactly the systems the model of the schedules runs, and
  that the resulting app meets the requirements of \<open>LoadWorld\<close> and \<open>SaveWorld\<close>.
\<close>

section \<open>Sequences of registrations\<close>

datatype 'v registration =
    SnapshotComponent strategy_kind nat
  | SnapshotImmutable strategy_kind nat
  | SnapshotResource strategy_kind nat
  | HashComponent nat
  | HashResource nat
  | HashComponentWith nat "'v \<Rightarrow> u64"
  | HashResourceWith nat "'v \<Rightarrow> u64"
  | MapComponentEntities nat
  | MapResourceEntities nat

fun register ::
  "'h hasher \<Rightarrow> (nat \<Rightarrow> ('v, 's, 'h) user_type) \<Rightarrow> (nat \<Rightarrow> ('v, 's, 'h) user_type) \<Rightarrow> 'v registration \<Rightarrow>
     ('v, 's) app_call" where
  "register H C R (SnapshotComponent ByCopy t) = rollback_component_with_copy (C t) t"
| "register H C R (SnapshotComponent ByClone t) = rollback_component_with_clone (C t) t"
| "register H C R (SnapshotComponent ByReflect t) = rollback_component_with_reflect (C t) t"
| "register H C R (SnapshotImmutable ByCopy t) = rollback_immutable_component_with_copy (C t) t"
| "register H C R (SnapshotImmutable ByClone t) = rollback_immutable_component_with_clone (C t) t"
| "register H C R (SnapshotImmutable ByReflect t) = rollback_immutable_component_with_reflect (C t) t"
| "register H C R (SnapshotResource ByCopy i) = rollback_resource_with_copy (R i) i"
| "register H C R (SnapshotResource ByClone i) = rollback_resource_with_clone (R i) i"
| "register H C R (SnapshotResource ByReflect i) = rollback_resource_with_reflect (R i) i"
| "register H C R (HashComponent t) = checksum_component_with_hash H (C t) t"
| "register H C R (HashResource i) = checksum_resource_with_hash H (R i) i"
| "register H C R (HashComponentWith t h) = checksum_component h t"
| "register H C R (HashResourceWith i h) = checksum_resource h i"
| "register H C R (MapComponentEntities t) = update_component_with_map_entities (C t) t"
| "register H C R (MapResourceEntities i) = update_resource_with_map_entities (R i) i"

fun plugin_of :: "'v registration \<Rightarrow> plugin_name" where
  "plugin_of (SnapshotComponent k t) = ComponentSnapshotPlugin k t"
| "plugin_of (SnapshotImmutable k t) = ImmutableComponentSnapshotPlugin k t"
| "plugin_of (SnapshotResource k i) = ResourceSnapshotPlugin k i"
| "plugin_of (HashComponent t) = ComponentChecksumPlugin t"
| "plugin_of (HashResource i) = ResourceChecksumPlugin i"
| "plugin_of (HashComponentWith t h) = ComponentChecksumPlugin t"
| "plugin_of (HashResourceWith i h) = ResourceChecksumPlugin i"
| "plugin_of (MapComponentEntities t) = ComponentMapEntitiesPlugin t"
| "plugin_of (MapResourceEntities i) = ResourceMapEntitiesPlugin i"

text \<open>What one registration adds to the schedules.\<close>

fun strategy_by :: "('v, 's, 'h) user_type \<Rightarrow> strategy_kind \<Rightarrow> ('v, 's) strategy" where
  "strategy_by U ByCopy = by_copy U"
| "strategy_by U ByClone = by_clone U"
| "strategy_by U ByReflect = by_reflect U"

section \<open>The app record of a built app\<close>

definition app_of ::
  "('w, 'v, 's, 't, 'i, 'x, 'h) app \<Rightarrow> ('v, 's) bevy_app \<Rightarrow> ('w, 'v, 's, 't, 'i, 'x, 'h) app" where
  "app_of base b = base\<lparr>
     comp_plugins := List.map_filter (\<lambda>s. case s of LoadComponent t m S \<Rightarrow> Some (t, m, S) | _ \<Rightarrow> None) (load_regs b),
     res_plugins := List.map_filter (\<lambda>s. case s of LoadResource i S \<Rightarrow> Some (i, S) | _ \<Rightarrow> None) (load_regs b),
     comp_map_plugins := List.map_filter (\<lambda>s. case s of MapComponent t h \<Rightarrow> Some (t, h) | _ \<Rightarrow> None) (load_regs b),
     res_map_plugins := List.map_filter (\<lambda>s. case s of MapResource i h \<Rightarrow> Some (i, h) | _ \<Rightarrow> None) (load_regs b),
     comp_checksums := List.map_filter (\<lambda>s. case s of ComponentChecksum t h \<Rightarrow> Some (t, h) | _ \<Rightarrow> None) (save_regs b),
     res_checksums := List.map_filter (\<lambda>s. case s of ResourceChecksum i h \<Rightarrow> Some (i, h) | _ \<Rightarrow> None) (save_regs b)\<rparr>"

text \<open>
  The schedules of the builder hold the systems of the app record: Bevy itself adds the sync point
  before the total checksum.
\<close>

definition schedules_agree ::
  "('w, 'v, 's, 't, 'i, 'x, 'h) app \<Rightarrow> ('v, 's) bevy_app \<Rightarrow> bool" where
  "schedules_agree base b \<longleftrightarrow>
     mset (load_regs b) = mset (load_systems (app_of base b)) \<and>
     mset (ChecksumFlush # save_regs b) = mset (save_systems (app_of base b)) \<and>
     mset (advance_regs b) = mset advance_systems"

lemma admissible_mset: "mset xs = mset ys \<Longrightarrow> admissible before xs = admissible before ys"
  by (simp add: admissible_def fun_eq_iff)

text \<open>The core plugins.\<close>

definition core_plugins :: "plugin_name list" where
  "core_plugins = [GgrsPlugin, SnapshotPlugin, SnapshotSetPlugin, EntitySnapshotPlugin, OrderedSnapshotPlugin,
     ChildOfSnapshotPlugin, RollbackDespawnPlugin, ChecksumPlugin, EntityChecksumPlugin, GgrsTimePlugin,
     TimeSnapshotPlugin]"

declare snapshot_set_build_def [build_defs] entity_snapshot_build_def [build_defs]
  childof_snapshot_build_def [build_defs] component_snapshot_build_def [build_defs]
  immutable_component_snapshot_build_def [build_defs] resource_snapshot_build_def [build_defs]
  despawn_build_def [build_defs] component_map_build_def [build_defs] resource_map_build_def [build_defs]
  checksum_build_def [build_defs] entity_checksum_build_def [build_defs]
  component_checksum_build_def [build_defs] resource_checksum_build_def [build_defs]
  snapshot_build_def [build_defs] ggrs_time_build_def [build_defs] ggrs_build_def [build_defs]

declare init_resource_def [builder_defs] init_schedule_def [builder_defs] add_load_def [builder_defs]
  add_save_def [builder_defs] add_advance_def [builder_defs]

lemma ggrs_app_built:
  obtains b where "ggrs_app self = Inr b" "plugin_registry b = core_plugins"
    "load_regs b = [EntityFlush, DataFlush, LoadEntities, LoadOrdered, LoadChildOf, ResurrectEntities, LoadTime]"
    "save_regs b = concat (map snapshot_chain [EntityStore, OrderedStore, ChildOfStore]) @
       [TotalChecksum, EntityChecksum] @ snapshot_chain TimeStore"
    "advance_regs b = [FirstFlush, MainFlush, DespawnConfirmed, RunGgrsSchedule, UpdateTime, ReplaceWithGgrs, ReplaceWithVirtual]"
    "driven_by b = [plugin_schedule self]" "disabling b = [DespawnedKey]"
    "set (app_resources b) = {RollbackOrderedR, RollbackFrameCountR, ConfirmedFrameCountR, MaxPredictionWindowR,
       LocalPlayersR, FixedTimestepDataR, RollbackEntityMapR, ChecksumR, GgrsTimeR, EntitySnapshotsR,
       ChildOfSnapshotsR, OrderedSnapshotsR, TimeSnapshotsR}"
proof -
  note defs = ggrs_app_def add_plugin_def empty_app_def build_defs builder_defs core_plugins_def Let_def
  have "\<exists>b. ggrs_app self = Inr b \<and> plugin_registry b = core_plugins \<and>
    load_regs b = [EntityFlush, DataFlush, LoadEntities, LoadOrdered, LoadChildOf, ResurrectEntities, LoadTime] \<and>
    save_regs b = concat (map snapshot_chain [EntityStore, OrderedStore, ChildOfStore]) @
       [TotalChecksum, EntityChecksum] @ snapshot_chain TimeStore \<and>
    advance_regs b = [FirstFlush, MainFlush, DespawnConfirmed, RunGgrsSchedule, UpdateTime, ReplaceWithGgrs, ReplaceWithVirtual] \<and>
    driven_by b = [plugin_schedule self] \<and> disabling b = [DespawnedKey] \<and>
    set (app_resources b) = {RollbackOrderedR, RollbackFrameCountR, ConfirmedFrameCountR, MaxPredictionWindowR,
       LocalPlayersR, FixedTimestepDataR, RollbackEntityMapR, ChecksumR, GgrsTimeR, EntitySnapshotsR,
       ChildOfSnapshotsR, OrderedSnapshotsR, TimeSnapshotsR}"
    by (simp add: defs) auto
  then show ?thesis using that by blast
qed

section \<open>One registration\<close>

fun loads_of ::
  "(nat \<Rightarrow> ('v, 's, 'h) user_type) \<Rightarrow> (nat \<Rightarrow> ('v, 's, 'h) user_type) \<Rightarrow> 'v registration \<Rightarrow> ('v, 's) load_sys list" where
  "loads_of C R (SnapshotComponent k t) = [LoadComponent t Mutable (strategy_by (C t) k)]"
| "loads_of C R (SnapshotImmutable k t) = [LoadComponent t Immutable (strategy_by (C t) k)]"
| "loads_of C R (SnapshotResource k i) = [LoadResource i (strategy_by (R i) k)]"
| "loads_of C R (MapComponentEntities t) = [MapComponent t (map_entities (C t))]"
| "loads_of C R (MapResourceEntities i) = [MapResource i (map_entities (R i))]"
| "loads_of C R r = []"

fun saves_of ::
  "'h hasher \<Rightarrow> (nat \<Rightarrow> ('v, 's, 'h) user_type) \<Rightarrow> (nat \<Rightarrow> ('v, 's, 'h) user_type) \<Rightarrow> 'v registration \<Rightarrow>
     ('v, 's) save_sys list" where
  "saves_of H C R (SnapshotComponent k t) = snapshot_chain (CompStore t (strategy_by (C t) k))"
| "saves_of H C R (SnapshotImmutable k t) = snapshot_chain (CompStore t (strategy_by (C t) k))"
| "saves_of H C R (SnapshotResource k i) = snapshot_chain (ResStore i (strategy_by (R i) k))"
| "saves_of H C R (HashComponent t) = [ComponentChecksum t (default_hasher H (hash_into (C t)))]"
| "saves_of H C R (HashResource i) = [ResourceChecksum i (default_hasher H (hash_into (R i)))]"
| "saves_of H C R (HashComponentWith t h) = [ComponentChecksum t h]"
| "saves_of H C R (HashResourceWith i h) = [ResourceChecksum i h]"
| "saves_of H C R r = []"

declare rollback_component_with_copy_def [call_defs] rollback_component_with_clone_def [call_defs]
  rollback_component_with_reflect_def [call_defs] rollback_immutable_component_with_copy_def [call_defs]
  rollback_immutable_component_with_clone_def [call_defs]
  rollback_immutable_component_with_reflect_def [call_defs] rollback_resource_with_copy_def [call_defs]
  rollback_resource_with_clone_def [call_defs] rollback_resource_with_reflect_def [call_defs]
  checksum_component_with_hash_def [call_defs] checksum_resource_with_hash_def [call_defs]
  checksum_component_def [call_defs] checksum_resource_def [call_defs]
  update_component_with_map_entities_def [call_defs] update_resource_with_map_entities_def [call_defs]

lemma register_step:
  "register H C R r b = Inr b' \<Longrightarrow> plugin_of r \<notin> set (plugin_registry b) \<and>
     plugin_registry b' = plugin_registry b @ [plugin_of r] \<and>
     load_regs b' = load_regs b @ loads_of C R r \<and> save_regs b' = save_regs b @ saves_of H C R r \<and>
     advance_regs b' = advance_regs b"
  "plugin_of r \<in> set (plugin_registry b) \<Longrightarrow> register H C R r b = Inl DuplicatedPlugin"
  "plugin_of r \<notin> set (plugin_registry b) \<Longrightarrow> \<exists>b'. register H C R r b = Inr b'"
  by (cases "(H, C, R, r)" rule: register.cases;
      auto simp: call_defs build_defs builder_defs add_plugin_def split: if_splits)+

lemma register_all:
  assumes "rfold (register H C R) rs b = Inr b'"
  shows "plugin_registry b' = plugin_registry b @ map plugin_of rs"
    "load_regs b' = load_regs b @ concat (map (loads_of C R) rs)"
    "save_regs b' = save_regs b @ concat (map (saves_of H C R) rs)" "advance_regs b' = advance_regs b"
    "distinct (plugin_registry b) \<Longrightarrow> distinct (plugin_registry b')"
proof -
  have "plugin_registry b' = plugin_registry b @ map plugin_of rs \<and>
    load_regs b' = load_regs b @ concat (map (loads_of C R) rs) \<and>
    save_regs b' = save_regs b @ concat (map (saves_of H C R) rs) \<and> advance_regs b' = advance_regs b \<and>
    (distinct (plugin_registry b) \<longrightarrow> distinct (plugin_registry b'))"
    using assms
  proof (induction rs arbitrary: b)
    case (Cons r rs)
    then obtain b1 where b1: "register H C R r b = Inr b1" "rfold (register H C R) rs b1 = Inr b'"
      by (auto simp: rbind_Inr_iff)
    note ih = Cons.IH [OF b1(2)] and st = register_step(1) [OF b1(1)]
    have "distinct (plugin_registry b) \<longrightarrow> distinct (plugin_registry b1)" using st by simp
    then have "distinct (plugin_registry b) \<longrightarrow> distinct (plugin_registry b')" using ih by blast
    moreover have "plugin_registry b' = plugin_registry b @ map plugin_of (r # rs) \<and>
      load_regs b' = load_regs b @ concat (map (loads_of C R) (r # rs)) \<and>
      save_regs b' = save_regs b @ concat (map (saves_of H C R) (r # rs)) \<and> advance_regs b' = advance_regs b"
      using ih st by simp
    ultimately show ?case by blast
  qed simp
  then show "plugin_registry b' = plugin_registry b @ map plugin_of rs"
    "load_regs b' = load_regs b @ concat (map (loads_of C R) rs)"
    "save_regs b' = save_regs b @ concat (map (saves_of H C R) rs)" "advance_regs b' = advance_regs b"
    "distinct (plugin_registry b) \<Longrightarrow> distinct (plugin_registry b')" by blast+
qed

lemma register_succeeds:
  "(\<exists>b'. rfold (register H C R) rs b = Inr b') \<longleftrightarrow>
     distinct (map plugin_of rs) \<and> set (map plugin_of rs) \<inter> set (plugin_registry b) = {}"
  "(\<nexists>b'. rfold (register H C R) rs b = Inr b') \<Longrightarrow> rfold (register H C R) rs b = Inl DuplicatedPlugin"
proof (induction rs arbitrary: b)
  case (Cons r rs)
  case 1
  show ?case
  proof (cases "plugin_of r \<in> set (plugin_registry b)")
    case True
    then show ?thesis using register_step(2) [OF True, of H C R] by auto
  next
    case False
    then obtain b1 where b1: "register H C R r b = Inr b1" using register_step(3) by blast
    from register_step(1) [OF b1] show ?thesis by (simp add: b1 Cons.IH(1) disjoint_iff) blast
  qed
  case 2
  show ?case
  proof (cases "plugin_of r \<in> set (plugin_registry b)")
    case False
    then obtain b1 where b1: "register H C R r b = Inr b1" using register_step(3) by blast
    then show ?thesis using 2 Cons.IH(2) [of b1] by simp
  qed (simp add: register_step(2))
qed auto

section \<open>The schedules that result\<close>

fun comp_reg :: "(nat \<Rightarrow> ('v, 's, 'h) user_type) \<Rightarrow> 'v registration \<Rightarrow> (nat \<times> mutability \<times> ('v, 's) strategy) option" where
  "comp_reg C (SnapshotComponent k t) = Some (t, Mutable, strategy_by (C t) k)"
| "comp_reg C (SnapshotImmutable k t) = Some (t, Immutable, strategy_by (C t) k)"
| "comp_reg C r = None"

fun res_reg :: "(nat \<Rightarrow> ('v, 's, 'h) user_type) \<Rightarrow> 'v registration \<Rightarrow> (nat \<times> ('v, 's) strategy) option" where
  "res_reg R (SnapshotResource k i) = Some (i, strategy_by (R i) k)"
| "res_reg R r = None"

lemma schedules_agree_step:
  assumes "schedules_agree base b" "register H C R r b = Inr b'"
  shows "schedules_agree base b'"
  using assms(1) register_step(1) [OF assms(2)] unfolding schedules_agree_def
  by (cases r) (simp_all add: app_of_def map_filter_append List.map_filter_simps load_systems_def data_systems_def
      mapping_systems_def save_systems_def checksum_systems_def save_stores_def snapshot_chain_def)

lemma schedules_agree_core:
  fixes b :: "('v, 's) bevy_app"
  assumes "ggrs_app self = Inr b"
  shows "schedules_agree base b" "plugin_registry b = core_plugins"
proof -
  obtain b' :: "('v, 's) bevy_app" where b': "ggrs_app self = Inr b'" "plugin_registry b' = core_plugins"
    "load_regs b' = [EntityFlush, DataFlush, LoadEntities, LoadOrdered, LoadChildOf, ResurrectEntities, LoadTime]"
    "save_regs b' = concat (map snapshot_chain [EntityStore, OrderedStore, ChildOfStore]) @
       [TotalChecksum, EntityChecksum] @ snapshot_chain TimeStore"
    "advance_regs b' = [FirstFlush, MainFlush, DespawnConfirmed, RunGgrsSchedule, UpdateTime, ReplaceWithGgrs, ReplaceWithVirtual]"
    by (rule ggrs_app_built [of self])
  have "b' = b" using assms b'(1) by simp
  then show "schedules_agree base b" "plugin_registry b = core_plugins"
    using b'(2-)
    by (simp_all add: schedules_agree_def app_of_def List.map_filter_simps load_systems_def data_systems_def
        advance_systems_def mapping_systems_def save_systems_def checksum_systems_def save_stores_def
        snapshot_chain_def)
qed

lemma schedules_agree_all:
  assumes "schedules_agree base b" "rfold (register H C R) rs b = Inr b'"
  shows "schedules_agree base b'"
  using assms
proof (induction rs arbitrary: b)
  case (Cons r rs)
  then obtain b1 where "register H C R r b = Inr b1" "rfold (register H C R) rs b1 = Inr b'"
    by (auto simp: rbind_Inr_iff)
  then show ?case using Cons.IH [of b1] schedules_agree_step [OF Cons.prems(1)] by blast
qed simp

lemma plugin_of_not_core: "plugin_of r \<notin> set core_plugins"
  by (cases r) (simp_all add: core_plugins_def)

text \<open>
  C16: A game may register any types in any order, but no plugin twice: a sequence of registrations on
  top of \<open>GgrsPlugin\<close> is accepted exactly when their plugins are distinct, and otherwise panics. In
  particular a type has one checksum, hashed by \<open>Hash\<close> or by a function, not both.
\<close>

theorem registrations_accepted:
  assumes "ggrs_app self = Inr b0"
  shows "if distinct (map plugin_of rs) then \<exists>b. rfold (register H C R) rs b0 = Inr b
    else rfold (register H C R) rs b0 = Inl DuplicatedPlugin"
proof -
  have "set (map plugin_of rs) \<inter> set (plugin_registry b0) = {}"
    unfolding schedules_agree_core(2) [OF assms] by (auto simp: plugin_of_not_core)
  then show ?thesis
    using register_succeeds [of H C R rs b0] by (cases "distinct (map plugin_of rs)") simp_all
qed

text \<open>
  C17: The schedules of the built app hold exactly the systems the model runs: an order Bevy may
  choose for the registered systems is one that \<open>load_world\<close>, \<open>save_world\<close> and \<open>advance_world\<close> quantify
  over.
\<close>

theorem registered_schedules:
  assumes "ggrs_app self = Inr b0" and "rfold (register H C R) rs b0 = Inr b"
  shows "admissible load_before (load_regs b) = admissible load_before (load_systems (app_of base b)) \<and>
    admissible save_before (ChecksumFlush # save_regs b) = admissible save_before (save_systems (app_of base b)) \<and>
    admissible advance_before (advance_regs b) = admissible advance_before advance_systems"
  using schedules_agree_all [OF schedules_agree_core(1) [OF assms(1)] assms(2), of base]
  unfolding schedules_agree_def by (auto intro: admissible_mset)

section \<open>What the app satisfies\<close>

lemma map_filter_concat:
  "(\<And>x. List.map_filter f (g x) = (case h x of Some y \<Rightarrow> [y] | None \<Rightarrow> [])) \<Longrightarrow>
     List.map_filter f (concat (map g xs)) = List.map_filter h xs"
  by (induction xs) (simp_all add: map_filter_append List.map_filter_simps split: option.split)

lemma registered_types:
  fixes b :: "('v, 's) bevy_app" and base :: "('w, 'v, 's, 't, 'i, 'x, 'h) app"
  assumes "ggrs_app self = Inr b0" "rfold (register H C R) rs b0 = Inr b"
  shows "comp_plugins (app_of base b) = List.map_filter (comp_reg C) rs"
    "res_plugins (app_of base b) = List.map_filter (res_reg R) rs"
    "map (ComponentChecksumPlugin \<circ> fst) (comp_checksums (app_of base b))
       = filter (\<lambda>p. \<exists>t. p = ComponentChecksumPlugin t) (map plugin_of rs)"
    "map (ResourceChecksumPlugin \<circ> fst) (res_checksums (app_of base b))
       = filter (\<lambda>p. \<exists>i. p = ResourceChecksumPlugin i) (map plugin_of rs)"
    "distinct (map plugin_of rs)"
proof -
  obtain b' :: "('v, 's) bevy_app" where b': "ggrs_app self = Inr b'" "plugin_registry b' = core_plugins"
    "load_regs b' = [EntityFlush, DataFlush, LoadEntities, LoadOrdered, LoadChildOf, ResurrectEntities, LoadTime]"
    "save_regs b' = concat (map snapshot_chain [EntityStore, OrderedStore, ChildOfStore]) @
       [TotalChecksum, EntityChecksum] @ snapshot_chain TimeStore"
    by (rule ggrs_app_built [of self])
  have "b' = b0" using assms(1) b'(1) by simp
  note b0 = b'(2-) [unfolded this] and all = register_all [OF assms(2)]
  show "comp_plugins (app_of base b) = List.map_filter (comp_reg C) rs"
    by (simp add: app_of_def all(2) b0 List.map_filter_simps map_filter_append)
      (rule map_filter_concat, case_tac x; simp add: List.map_filter_simps)
  show "res_plugins (app_of base b) = List.map_filter (res_reg R) rs"
    by (simp add: app_of_def all(2) b0 List.map_filter_simps map_filter_append)
      (rule map_filter_concat, case_tac x; simp add: List.map_filter_simps)
  have c: "map (ComponentChecksumPlugin \<circ> fst) (List.map_filter (\<lambda>s. case s of ComponentChecksum t h \<Rightarrow> Some (t, h) | _ \<Rightarrow> None)
        (concat (map (saves_of H C R) rs)))
      = filter (\<lambda>p. \<exists>t. p = ComponentChecksumPlugin t) (map plugin_of rs)"
  proof (induction rs)
    case (Cons r rs)
    then show ?case
      by (cases r) (simp_all add: map_filter_append List.map_filter_simps snapshot_chain_def)
  qed (simp add: List.map_filter_simps)
  then show "map (ComponentChecksumPlugin \<circ> fst) (comp_checksums (app_of base b))
       = filter (\<lambda>p. \<exists>t. p = ComponentChecksumPlugin t) (map plugin_of rs)"
    by (simp add: app_of_def all(3) b0 List.map_filter_simps map_filter_append snapshot_chain_def)
  have "map (ResourceChecksumPlugin \<circ> fst) (List.map_filter (\<lambda>s. case s of ResourceChecksum t h \<Rightarrow> Some (t, h) | _ \<Rightarrow> None)
        (concat (map (saves_of H C R) rs)))
      = filter (\<lambda>p. \<exists>t. p = ResourceChecksumPlugin t) (map plugin_of rs)"
  proof (induction rs)
    case (Cons r rs)
    then show ?case
      by (cases r) (simp_all add: map_filter_append List.map_filter_simps snapshot_chain_def)
  qed (simp add: List.map_filter_simps)
  then show "map (ResourceChecksumPlugin \<circ> fst) (res_checksums (app_of base b))
       = filter (\<lambda>p. \<exists>i. p = ResourceChecksumPlugin i) (map plugin_of rs)"
    by (simp add: app_of_def all(3) b0 List.map_filter_simps map_filter_append snapshot_chain_def)
  have "distinct (plugin_registry b0)" unfolding b0 core_plugins_def by simp
  then show "distinct (map plugin_of rs)" using all(1,5) by simp
qed

lemma distinct_map_fst: "distinct (map (f \<circ> fst) xs) \<Longrightarrow> distinct (map fst xs)"
  by (metis distinct_map map_map)

text \<open>The third-party part of an app obeys its documentation.\<close>

definition base_ok :: "('w, 'v, 's, 't, 'i, 'x, 'h) app \<Rightarrow> bool" where
  "base_ok base \<longleftrightarrow> ecs_laws (app_ecs base) \<and> orders_ok (app_orders base) \<and> any_order (app_map_order base)"

lemma strategy_by_ok:
  "strategy_ok (by_copy U) \<Longrightarrow> strategy_ok (by_clone U) \<Longrightarrow> strategy_ok (by_reflect U) \<Longrightarrow> strategy_ok (strategy_by U k)"
  by (cases k) simp_all


section \<open>An example\<close>

text \<open>A component rolled back by \<open>Copy\<close> and hashed, a resource by \<open>Clone\<close>; then the component again.\<close>

definition demo_type :: "(int, int, u64) user_type" where
  "demo_type = \<lparr>by_copy = copy_strategy, by_clone = derived_clone, by_reflect = copy_strategy,
     hash_into = (\<lambda>v h. h + word_of_int v), map_entities = (\<lambda>_ v. v)\<rparr>"

abbreviation demo_register :: "int registration \<Rightarrow> (int, int) app_call" where
  "demo_register \<equiv> register toy_hasher (\<lambda>_. demo_type) (\<lambda>_. demo_type)"

definition demo_registrations :: "int registration list" where
  "demo_registrations = [SnapshotComponent ByCopy 0, HashComponent 0, SnapshotResource ByClone 0]"

definition demo_ggrs_app :: "(int, int) bevy_app" where
  "demo_ggrs_app = (case ggrs_app ggrs_plugin_default of Inr b \<Rightarrow> b | Inl _ \<Rightarrow> empty_app)"

lemma demo_ggrs_app: "ggrs_app ggrs_plugin_default = Inr demo_ggrs_app"
proof -
  obtain b :: "(int, int) bevy_app" where "ggrs_app ggrs_plugin_default = Inr b"
    by (rule ggrs_app_built [of ggrs_plugin_default])
  then show ?thesis by (simp add: demo_ggrs_app_def)
qed

theorem registrations_accepted_witness:
  "(\<exists>b. rfold demo_register demo_registrations demo_ggrs_app = Inr b) \<and>
   rfold demo_register (demo_registrations @ [HashComponentWith 0 word_of_int]) demo_ggrs_app = Inl DuplicatedPlugin"
  using registrations_accepted [OF demo_ggrs_app, of demo_registrations toy_hasher "\<lambda>_. demo_type" "\<lambda>_. demo_type"]
    registrations_accepted [OF demo_ggrs_app, of "demo_registrations @ [HashComponentWith 0 word_of_int]"
      toy_hasher "\<lambda>_. demo_type" "\<lambda>_. demo_type"]
  by (simp add: demo_registrations_def)

lemma demo_built:
  obtains b where "rfold demo_register demo_registrations demo_ggrs_app = Inr b"
  using register_succeeds(1) [of toy_hasher "\<lambda>_. demo_type" "\<lambda>_. demo_type" demo_registrations demo_ggrs_app]
  by (auto simp: schedules_agree_core(2) [OF demo_ggrs_app] demo_registrations_def core_plugins_def)

theorem registered_schedules_witness:
  "\<exists>b. rfold demo_register demo_registrations demo_ggrs_app = Inr b \<and>
     admissible save_before (ChecksumFlush # save_regs b) = admissible save_before (save_systems (app_of demo_app b))"
proof -
  obtain b where b: "rfold demo_register demo_registrations demo_ggrs_app = Inr b" by (rule demo_built)
  then show ?thesis using registered_schedules [OF demo_ggrs_app b, where base = demo_app] by blast
qed


end
