(* ===== verification/Requests.thy ===== *)
theory Requests
  imports AdvanceSchedule
begin

text \<open>
  \<open>handle_requests\<close> of \<open>src/schedule_systems.rs\<close>: the requests of a session are answered with the three
  schedules, which are taken out of the world for the time of the call. A request to save fills a
  cell of the session with the checksum of the frame.
\<close>

section \<open>The schedules leave the world and come back\<close>

definition extract_schedule :: "label \<Rightarrow> ('w, 'v, 's, 't, 'i, 'x) world \<Rightarrow> ('w, 'v, 's, 't, 'i, 'x) world res" where
  "extract_schedule l w =
     (if l \<in> set (schedules w) then Inr (w\<lparr>schedules := removeAll l (schedules w)\<rparr>)
      else Inl (MissingSchedule l))"

definition insert_schedule :: "label \<Rightarrow> ('w, 'v, 's, 't, 'i, 'x) world \<Rightarrow> ('w, 'v, 's, 't, 'i, 'x) world res" where
  "insert_schedule l w =
     (if l \<in> set (schedules w) then Inl (DuplicatedSchedule l)
      else Inr (w\<lparr>schedules := l # schedules w\<rparr>))"

section \<open>What a request finds\<close>

definition request_frame :: "('w, 'v, 's, 't, 'i, 'x) world \<Rightarrow> i32" where
  "request_frame w = (case rollback_frame_count w of Some f \<Rightarrow> f | None \<Rightarrow> 0)"

definition session_window :: "('x, 'i) session_ops \<Rightarrow> 'x session option \<Rightarrow> nat option" where
  "session_window G session =
     (case session of
        Some (P2P s) \<Rightarrow> Some (max_prediction G s)
      | Some (SyncTest s) \<Rightarrow> Some (max_prediction G s)
      | Some (Spectator s) \<Rightarrow> Some 0
      | None \<Rightarrow> None)"

text \<open>\<open>as i32\<close> truncates, and the subtraction is checked.\<close>

definition checked_sub :: "i32 \<Rightarrow> i32 \<Rightarrow> i32 res" where
  "checked_sub a b = (if - (2 ^ 31) \<le> sint a - sint b \<and> sint a - sint b < 2 ^ 31 then Inr (a - b) else Inl Overflow)"

definition checked_add :: "i32 \<Rightarrow> i32 \<Rightarrow> i32 res" where
  "checked_add a b = (if - (2 ^ 31) \<le> sint a + sint b \<and> sint a + sint b < 2 ^ 31 then Inr (a + b) else Inl Overflow)"

definition session_confirmed :: "('x, 'i) session_ops \<Rightarrow> i32 \<Rightarrow> 'x session option \<Rightarrow> i32 option res" where
  "session_confirmed G current session =
     (case session of
        Some (P2P s) \<Rightarrow> Inr (Some (confirmed_frame G s))
      | Some (SyncTest s) \<Rightarrow>
          rbind (checked_sub current (of_nat (check_distance G s))) (\<lambda>current.
            Inr (if 0 <=s current then Some current else None))
      | Some (Spectator s) \<Rightarrow> Inr (Some current)
      | None \<Rightarrow> Inr None)"

text \<open>Before every request: the prediction window and the confirmed frame, where the session says.\<close>

definition prepare_request ::
  "('x, 'i) session_ops \<Rightarrow> ('w, 'v, 's, 't, 'i, 'x) world \<Rightarrow> ('w, 'v, 's, 't, 'i, 'x) world res" where
  "prepare_request G w =
     rbind (session_confirmed G (request_frame w) (session_res w)) (\<lambda>confirmed.
     let w1 = (case session_window G (session_res w) of
                 Some m \<Rightarrow> w\<lparr>max_prediction_window := Some m\<rparr> | None \<Rightarrow> w)
     in Inr (case confirmed of Some c \<Rightarrow> w1\<lparr>confirmed_frame_count := Some c\<rparr> | None \<Rightarrow> w1))"

section \<open>One request\<close>

text \<open>The cell belongs to the session; filling it updates the session's state.\<close>

definition save_cell ::
  "('x, 'i) session_ops \<Rightarrow> nat \<Rightarrow> i32 \<Rightarrow> u128 option \<Rightarrow> ('w, 'v, 's, 't, 'i, 'x) world \<Rightarrow>
     ('w, 'v, 's, 't, 'i, 'x) world" where
  "save_cell G cell frame checksum w =
     w\<lparr>session_res := map_option (map_session (cell_save G cell frame checksum)) (session_res w)\<rparr>"

text \<open>The orders in which Bevy runs the systems of the three schedules.\<close>

record ('v, 's) run_orders =
  load_order :: "('v, 's) load_sys list"
  save_order :: "('v, 's) save_sys list"
  advance_order :: "adv_sys list"

definition orders_admissible :: "('w, 'v, 's, 't, 'i, 'x, 'h) app \<Rightarrow> ('v, 's) run_orders \<Rightarrow> bool" where
  "orders_admissible A os \<longleftrightarrow> admissible load_before (load_systems A) (load_order os) \<and>
     admissible save_before (save_systems A) (save_order os) \<and>
     admissible advance_before advance_systems (advance_order os)"

fun answer_request ::
  "('w, 'v, 's, 't, 'i, 'x, 'h) app \<Rightarrow> ('v, 's) run_orders \<Rightarrow> 'i ggrs_request \<Rightarrow>
     ('w, 'v, 's, 't, 'i, 'x) world \<Rightarrow> ('w, 'v, 's, 't, 'i, 'x) world res" where
  "answer_request A os (SaveGameState cell frame) w =
     rbind (save_world A (save_order os) w) (\<lambda>w1.
       Inr (save_cell (app_session A) cell frame (checksum_res w1) w1))"
| "answer_request A os (LoadGameState frame) w =
     rbind (require ''RollbackFrameCount'' (rollback_frame_count w)) (\<lambda>_.
       load_world A (load_order os) (w\<lparr>rollback_frame_count := Some frame\<rparr>))"
| "answer_request A os (AdvanceFrame inputs) w =
     rbind (require ''RollbackFrameCount'' (rollback_frame_count w)) (\<lambda>frame_count.
     rbind (checked_add frame_count 1) (\<lambda>frame.
     rbind (advance_world A (advance_order os)
              (w\<lparr>rollback_frame_count := Some frame, player_inputs := Some inputs\<rparr>)) (\<lambda>w1.
       Inr (w1\<lparr>player_inputs := None\<rparr>))))"

definition handle_request ::
  "('w, 'v, 's, 't, 'i, 'x, 'h) app \<Rightarrow> ('v, 's) run_orders \<times> 'i ggrs_request \<Rightarrow>
     ('w, 'v, 's, 't, 'i, 'x) world \<Rightarrow> ('w, 'v, 's, 't, 'i, 'x) world res" where
  "handle_request A = (\<lambda>(os, request) w.
     rbind (prepare_request (app_session A) w) (answer_request A os request))"

text \<open>The schedules may run in another order at every request: \<open>orders\<close> gives the order at each.\<close>

definition handle_requests ::
  "('w, 'v, 's, 't, 'i, 'x, 'h) app \<Rightarrow> (nat \<Rightarrow> ('v, 's) run_orders) \<Rightarrow> 'i ggrs_request list \<Rightarrow>
     ('w, 'v, 's, 't, 'i, 'x) world \<Rightarrow> ('w, 'v, 's, 't, 'i, 'x) world res" where
  "handle_requests A orders requests w =
     rbind (extract_schedule LoadWorld w) (\<lambda>w1.
     rbind (extract_schedule SaveWorld w1) (\<lambda>w2.
     rbind (extract_schedule AdvanceWorld w2) (\<lambda>w3.
     rbind (rfold (handle_request A) (map (\<lambda>(n, r). (orders n, r)) (enumerate 0 requests)) w3) (\<lambda>w4.
     rbind (insert_schedule LoadWorld w4) (\<lambda>w5.
     rbind (insert_schedule SaveWorld w5)
       (insert_schedule AdvanceWorld))))))"

section \<open>What the schedules leave alone\<close>

text \<open>The storages, and the resources that steer the session.\<close>

definition storages ::
  "('w, 'v, 's, 't, 'i, 'x) world \<Rightarrow> entity component_snapshot ggrs_snapshots \<times> entity component_snapshot ggrs_snapshots
     \<times> rollback_ordered option ggrs_snapshots \<times> 't option ggrs_snapshots
     \<times> (nat \<Rightarrow> 's component_snapshot ggrs_snapshots) \<times> (nat \<Rightarrow> 's option ggrs_snapshots)" where
  "storages w = (entity_snapshots w, childof_snapshots w, ordered_snapshots w, time_snapshots w,
     comp_snapshots w, res_snapshots w)"

definition control ::
  "('w, 'v, 's, 't, 'i, 'x) world \<Rightarrow> i32 option \<times> i32 option \<times> nat option \<times> label list \<times> 'x session option" where
  "control w = (rollback_frame_count w, confirmed_frame_count w, max_prediction_window w, schedules w, session_res w)"

declare storages_def [outer_defs] control_def [outer_defs]

lemma command_outer:
  assumes "run_world_command E c w = Inr w'"
  shows "storages w' = storages w" "control w' = control w" "pending w' = pending w"
  using assms
  by (cases c; auto simp: run_ecs_command_def outer_defs Let_def split: option.splits prod.splits if_splits)+

lemma apply_deferred_outer:
  assumes "apply_deferred E w = Inr w'"
  shows "storages w' = storages w" "control w' = control w" "pending w' = []"
proof -
  have "storages w' = storages w \<and> control w' = control w \<and> pending w' = []"
    using assms unfolding apply_deferred_def
    by (rule rfold_invariant) (auto simp: outer_defs dest: command_outer [unfolded outer_defs])
  then show "storages w' = storages w" "control w' = control w" "pending w' = []" by simp_all
qed

lemma run_schedule_outer:
  assumes "run_schedule E run xs w = Inr w'"
    and "\<And>x u u'. x \<in> set xs \<Longrightarrow> run x u = Inr u' \<Longrightarrow> P u' = P u" "\<And>u u'. apply_deferred E u = Inr u' \<Longrightarrow> P u' = P u"
  shows "P w' = P w" "pending w' = []"
proof -
  obtain u where u: "rfold run xs w = Inr u" "apply_deferred E u = Inr w'"
    using assms(1) by (auto simp: run_schedule_def rbind_Inr_iff)
  have "P u = P w" using u(1) by (rule rfold_invariant) (simp_all add: assms(2))
  then show "P w' = P w" using assms(3) [OF u(2)] by simp
  show "pending w' = []" by (rule apply_deferred_outer(3) [OF u(2)])
qed

lemma run_load_control:
  assumes "run_load A s w = Inr w'"
  shows "control w' = control w"
proof (cases s)
  case (LoadComponent t m S)
  then show ?thesis using assms by (cases m) (auto simp: rbind_Inr_iff control_def)
qed (use assms in \<open>auto simp: rbind_Inr_iff control_def dest: apply_deferred_outer(2) [unfolded control_def]\<close>)

text \<open>What a load does not touch besides.\<close>

definition outside_load ::
  "('w, 'v, 's, 't, 'i, 'x) world \<Rightarrow> u128 option \<times> u64 option \<times> 't option \<times> 't option \<times> i32 option \<times> 'x session option" where
  "outside_load w = (checksum_res w, frame_rate w, default_time w, virtual_time w, confirmed_frame_count w, session_res w)"

lemma command_outside:
  "run_world_command E c w = Inr w' \<Longrightarrow> outside_load w' = outside_load w"
  by (cases c) (auto simp: run_ecs_command_def outside_load_def Let_def split: option.splits prod.splits if_splits)

lemma apply_deferred_outside:
  assumes "apply_deferred E w = Inr w'"
  shows "outside_load w' = outside_load w"
proof -
  have "rfold (run_world_command E) (pending w) (w\<lparr>pending := []\<rparr>) = Inr w'"
    using assms by (simp add: apply_deferred_def)
  then have "outside_load w' = outside_load (w\<lparr>pending := []\<rparr>)"
    by (rule rfold_invariant) (auto dest: command_outside)
  then show ?thesis by (simp add: outside_load_def)
qed

lemma run_load_outside:
  assumes "run_load A s w = Inr w'"
  shows "outside_load w' = outside_load w"
proof (cases s)
  case (LoadComponent t m S)
  then show ?thesis using assms by (cases m) (auto simp: rbind_Inr_iff outside_load_def)
qed (use assms in \<open>auto simp: rbind_Inr_iff outside_load_def dest: apply_deferred_outside [unfolded outside_load_def]\<close>)

lemma load_world_outside:
  "load_world A xs w = Inr w' \<Longrightarrow> outside_load w' = outside_load w"
  unfolding load_world_def
  by (rule run_schedule_outer(1) [where P = outside_load]) (auto dest: run_load_outside apply_deferred_outside)

lemma run_checksum_outer:
  "run_checksum A s w = Inr w' \<Longrightarrow> storages w' = storages w \<and> control w' = control w"
  by (cases s) (auto simp: rbind_Inr_iff outer_defs put_part_def case_prod_beta dest: apply_deferred_outer(1,2) [unfolded outer_defs])

lemma run_save_control:
  assumes "run_save A s w = Inr w'"
  shows "control w' = control w"
proof (cases "chain_place s")
  case None
  then have "run_checksum A s w = Inr w'" using assms by (cases s) simp_all
  then show ?thesis by (simp add: run_checksum_outer)
next
  case (Some p)
  then obtain st where "s = SyncDepth st \<or> s = DiscardOld st \<or> s = SaveStore st" by (cases s) auto
  then show ?thesis using assms by (cases st) (auto simp: control_def rbind_Inr_iff)
qed

text \<open>The user's schedule does not touch what belongs to the crate.\<close>

definition tame ::
  "(('w, 'v, 's, 't, 'i, 'x) world \<Rightarrow> ('w, 'v, 's, 't, 'i, 'x) world res) \<Rightarrow> bool" where
  "tame run \<longleftrightarrow> (\<forall>w w'. run w = Inr w' \<longrightarrow> storages w' = storages w \<and> control w' = control w)"

lemma run_advance_outer:
  assumes "tame (ggrs_schedule A)" "run_advance A s w = Inr w'"
  shows "storages w' = storages w \<and> control w' = control w"
  using assms
  by (cases s) (auto simp: tame_def rbind_Inr_iff outer_defs run_update_time_def run_replace_with_ggrs_def
      run_replace_with_virtual_def run_despawn_confirmed_def case_prod_beta
      dest: apply_deferred_outer(1,2) [unfolded outer_defs])

lemma schedule_outer:
  "load_world A xs w = Inr w' \<Longrightarrow> control w' = control w \<and> pending w' = []"
  "save_world A ys w = Inr w' \<Longrightarrow> control w' = control w \<and> pending w' = []"
  "tame (ggrs_schedule A) \<Longrightarrow> advance_world A zs w = Inr w' \<Longrightarrow>
     control w' = control w \<and> storages w' = storages w \<and> pending w' = []"
  unfolding load_world_def save_world_def advance_world_def
  by (auto dest: run_schedule_outer [where P = control] run_schedule_outer [where P = storages]
      run_load_control run_save_control run_advance_outer apply_deferred_outer)

section \<open>The schedules come back\<close>

lemma prepare_outer:
  assumes "prepare_request G w = Inr w'"
  shows "schedules w' = schedules w" "session_res w' = session_res w" "storages w' = storages w"
    "rollback_frame_count w' = rollback_frame_count w" "pending w' = pending w" "ecs_state w' = ecs_state w"
  using assms by (auto simp: prepare_request_def rbind_Inr_iff storages_def Let_def split: option.splits)

lemma handle_request_schedules:
  assumes "tame (ggrs_schedule A)" "handle_request A r w = Inr w'"
  shows "schedules w' = schedules w"
proof -
  obtain os q where r: "r = (os, q)" by (cases r)
  obtain v where v: "prepare_request (app_session A) w = Inr v" "answer_request A os q v = Inr w'"
    using assms(2) by (auto simp: handle_request_def r rbind_Inr_iff)
  have "schedules w' = schedules v"
    using v(2) schedule_outer [where A = A] assms(1)
    by (cases q) (fastforce simp: rbind_Inr_iff control_def save_cell_def)+
  then show ?thesis using prepare_outer(1) [OF v(1)] by simp
qed



end
