(* ===== verification/Prediction.thy ===== *)
theory Prediction
  imports Requests
begin

text \<open>
  Prediction and rollback, over the requests of a session: a frame that was saved stays in every
  storage while the session advances and saves later frames within its prediction window, and the
  request to load it restores the world as it was saved, whatever was played in between.
\<close>

section \<open>A frame that is kept\<close>

text \<open>Every storage holds frame \<open>g\<close> of the world \<open>w0\<close>, with at most \<open>n\<close> newer frames before it.\<close>

definition kept_frame ::
  "('w, 'v, 's, 't, 'i, 'x, 'h) app \<Rightarrow> i32 \<Rightarrow> ('w, 'v, 's, 't, 'i, 'x) world \<Rightarrow> ('w, 'v, 's, 't, 'i, 'x) world \<Rightarrow>
     nat \<Rightarrow> bool" where
  "kept_frame A g w0 w n \<longleftrightarrow>
     (\<forall>st \<in> set (save_stores A). stored (app_ecs A) g w0 w (load_of st) \<and> newer_in w g st \<le> n)"

lemma stored_storages:
  "storages w' = storages w \<Longrightarrow> stored E g w0 w' (load_of st) = stored E g w0 w (load_of st)"
  "storages w' = storages w \<Longrightarrow> newer_in w' g st = newer_in w g st"
  by (cases st; simp add: storages_def)+

lemma kept_frame_storages:
  assumes "storages w' = storages w"
  shows "kept_frame A g w0 w' n = kept_frame A g w0 w n"
  by (simp only: kept_frame_def stored_storages [OF assms])

lemma kept_loadable: "kept_frame A g w0 w n \<Longrightarrow> \<forall>s \<in> set (load_systems A). stored (app_ecs A) g w0 w s"
  by (rule stored_by_stores) (simp add: kept_frame_def)

lemma kept_storage_ok: "stored E g w0 w (load_of st) \<Longrightarrow> storage_ok w st"
  by (cases st) (simp_all add: holds_at_def)

text \<open>Saving a later frame keeps it, even when the save is not known to succeed beforehand.\<close>

lemma save_keeps_frame:
  assumes "app_ok A" "admissible save_before (save_systems A) xs" "save_world A xs w = Inr w'"
    and "kept_frame A g w0 w n" "rollback_frame_count w = Some f" "0 <=s f" "g <s f"
    and "max_prediction_window w = Some d" "Suc n < d" "\<forall>c. confirmed_frame_count w = Some c \<longrightarrow> \<not> g <s c"
  shows "kept_frame A g w0 w' (Suc n)"
proof -
  let ?E = "app_ecs A"
  obtain cs ys where xs: "xs = cs @ [ChecksumFlush, TotalChecksum] @ ys" "mset cs = mset (checksum_systems A)"
    "mset ys = mset (concat (map snapshot_chain (save_stores A)))" "sorted_wrt (\<lambda>a b. \<not> save_before b a) ys"
    by (rule save_order [OF assms(2)])
  let ?cs = "cs @ [ChecksumFlush, TotalChecksum]"
  obtain v u where v: "rfold (run_save A) ?cs w = Inr v" and u: "rfold (run_save A) ys v = Inr u"
    and w': "apply_deferred ?E u = Inr w'"
    using assms(3) unfolding save_world_def run_schedule_def xs(1) append.assoc [symmetric] rfold_append [of _ ?cs ys]
    by (auto simp: rbind_Inr_iff)
  have "chain_place s = None" if "s \<in> set ?cs" for s
    using that mset_eq_setD [OF xs(2)] by (auto simp: checksum_systems_def)
  then have "run_save A s x = run_checksum A s x" if "s \<in> set ?cs" for s x
    using that by (cases s) fastforce+
  then have "storages v = storages w \<and> control v = control w"
    by (intro rfold_invariant [OF v, where P = "\<lambda>x. storages x = storages w \<and> control x = control w"])
      (auto dest: run_checksum_outer)
  then have vw: "storages v = storages w" "control v = control w" by simp_all
  then have k: "kept_frame A g w0 v n" and c: "rollback_frame_count v = Some f" "max_prediction_window v = Some d"
    "\<forall>c. confirmed_frame_count v = Some c \<longrightarrow> \<not> g <s c"
    using assms(4,5,8,10) by (simp_all add: kept_frame_storages [OF vw(1)] control_def)
  have "progress ?E f v 0 v st" if "st \<in> set (save_stores A)" for st
  proof -
    have "stored ?E g w0 v (load_of st)" using k that unfolding kept_frame_def by blast
    then show ?thesis unfolding progress_start by (rule kept_storage_ok)
  qed
  then obtain u' where u': "rfold (run_save A) ys v = Inr u'" "\<forall>st \<in> set (save_stores A). progress ?E f v 3 u' st"
    using snapshot_stage [OF xs(3,4) save_stores_distinct [OF assms(1)] _ c(1) assms(6)] by blast
  have "stored ?E g w0 u (load_of st) \<and> newer_in u g st \<le> Suc n" if st: "st \<in> set (save_stores A)" for st
  proof -
    have p: "progress ?E f v 3 u st" using u' u st by auto
    have n: "stored ?E g w0 v (load_of st)" "newer_in v g st \<le> n" using k st by (simp_all add: kept_frame_def)
    have d: "Suc (newer_in v g st) < d" "0 < d" using n(2) assms(9) by simp_all
    from progress_keeps [OF p assms(6) c(2) d(2) assms(7) c(3) d(1) n(1)] n(2) show ?thesis by linarith
  qed
  then have "kept_frame A g w0 u (Suc n)" by (simp add: kept_frame_def)
  then show ?thesis by (simp only: kept_frame_storages [OF apply_deferred_outer(1) [OF w']])
qed

section \<open>A session that protects a frame\<close>

text \<open>
  Filling a cell changes nothing else about a session. A session protects \<open>g\<close> for \<open>n\<close> frames when it
  keeps a prediction window of \<open>d\<close> and confirms nothing after \<open>g\<close> at the frames up to \<open>g + n\<close>.
\<close>

definition cells_only :: "('x, 'i) session_ops \<Rightarrow> bool" where
  "cells_only G \<longleftrightarrow> (\<forall>c f x s. max_prediction G (cell_save G c f x s) = max_prediction G s \<and>
     confirmed_frame G (cell_save G c f x s) = confirmed_frame G s \<and>
     check_distance G (cell_save G c f x s) = check_distance G s)"

definition protects :: "('x, 'i) session_ops \<Rightarrow> i32 \<Rightarrow> nat \<Rightarrow> nat \<Rightarrow> 'x session \<Rightarrow> bool" where
  "protects G g d n s \<longleftrightarrow> session_window G (Some s) = Some d \<and>
     (\<forall>f c. sint g \<le> sint f \<and> sint f \<le> sint g + int n \<and> session_confirmed G f (Some s) = Inr (Some c) \<longrightarrow>
        \<not> g <s c)"

lemma protects_p2p:
  "max_prediction G s = d \<Longrightarrow> \<not> g <s confirmed_frame G s \<Longrightarrow> protects G g d n (P2P s)"
  by (simp add: protects_def session_window_def session_confirmed_def)

lemma protects_cell: "cells_only G \<Longrightarrow> protects G g d n (map_session (cell_save G c f x) s) = protects G g d n s"
  by (cases s) (simp_all add: protects_def session_window_def session_confirmed_def cells_only_def)

section \<open>Steps of prediction\<close>

definition predicting ::
  "('w, 'v, 's, 't, 'i, 'x, 'h) app \<Rightarrow> i32 \<Rightarrow> ('w, 'v, 's, 't, 'i, 'x) world \<Rightarrow> nat \<Rightarrow> nat \<Rightarrow> nat \<Rightarrow> i32 \<Rightarrow>
     ('w, 'v, 's, 't, 'i, 'x) world \<Rightarrow> bool" where
  "predicting A g w0 d N n f w \<longleftrightarrow> kept_frame A g w0 w n \<and> rollback_frame_count w = Some f \<and>
     sint g \<le> sint f \<and> sint f \<le> sint g + int N \<and> pending w = [] \<and>
     (\<exists>s. session_res w = Some s \<and> protects (app_session A) g d N s) \<and>
     (\<forall>c. confirmed_frame_count w = Some c \<longrightarrow> \<not> g <s c)"

lemma prepare_form:
  assumes "prepare_request G w = Inr v" "session_res w = Some s" "protects G g d N s"
    and "rollback_frame_count w = Some f" "sint g \<le> sint f" "sint f \<le> sint g + int N"
  obtains c where "v = w\<lparr>max_prediction_window := Some d, confirmed_frame_count := c\<rparr>"
    "(\<exists>c'. c = Some c' \<and> \<not> g <s c') \<or> c = confirmed_frame_count w"
proof -
  obtain c where c: "session_confirmed G f (Some s) = Inr c"
    "v = (let w1 = w\<lparr>max_prediction_window := Some d\<rparr> in case c of Some c \<Rightarrow> w1\<lparr>confirmed_frame_count := Some c\<rparr> | None \<Rightarrow> w1)"
    using assms(1-4)
    by (auto simp: prepare_request_def request_frame_def rbind_Inr_iff protects_def Let_def split: option.splits)
  show ?thesis
  proof (cases c)
    case None
    then have "v = w\<lparr>max_prediction_window := Some d, confirmed_frame_count := confirmed_frame_count w\<rparr>"
      by (simp add: c(2))
    then show ?thesis using that by blast
  next
    case (Some c')
    then have "\<not> g <s c'" using assms(3,5,6) c(1) by (auto simp: protects_def)
    moreover have "v = w\<lparr>max_prediction_window := Some d, confirmed_frame_count := Some c'\<rparr>"
      by (simp add: c(2) Some Let_def)
    ultimately show ?thesis using that by blast
  qed
qed

lemma predicting_prepare:
  assumes "predicting A g w0 d N n f w" "prepare_request (app_session A) w = Inr v"
  shows "predicting A g w0 d N n f v" "max_prediction_window v = Some d"
    "ecs_state v = ecs_state w" "entity_map_res v = entity_map_res w"
    "rollback_ordered_res v = rollback_ordered_res w"
proof -
  note p = assms(1) [unfolded predicting_def]
  obtain s where s: "session_res w = Some s" "protects (app_session A) g d N s" using p by blast
  have f: "rollback_frame_count w = Some f" "sint g \<le> sint f" "sint f \<le> sint g + int N" using p by blast+
  obtain c where c: "v = w\<lparr>max_prediction_window := Some d, confirmed_frame_count := c\<rparr>"
    "(\<exists>c'. c = Some c' \<and> \<not> g <s c') \<or> c = confirmed_frame_count w"
    by (rule prepare_form [OF assms(2) s f])
  have "kept_frame A g w0 v n = kept_frame A g w0 w n"
    by (rule kept_frame_storages [OF prepare_outer(3) [OF assms(2)]])
  then show "predicting A g w0 d N n f v" "max_prediction_window v = Some d"
    "ecs_state v = ecs_state w" "entity_map_res v = entity_map_res w"
    "rollback_ordered_res v = rollback_ordered_res w"
    using p c unfolding predicting_def by auto
qed

lemma checked_add_one: "checked_add f 1 = Inr f' \<Longrightarrow> f' = f + 1 \<and> sint f' = sint f + 1"
proof -
  assume a: "checked_add f 1 = Inr f'"
  then have "- (2 ^ 31) \<le> sint f + 1 \<and> sint f + 1 < 2 ^ 31" "f' = f + 1"
    by (auto simp: checked_add_def split: if_splits)
  moreover from this have "sint (f + 1) = sint f + 1"
    by (simp add: sint_word_ariths signed_take_bit_int_eq_self)
  ultimately show ?thesis by simp
qed

lemma predicting_advance:
  assumes "tame (ggrs_schedule A)" "predicting A g w0 d N n f w" "sint f < sint g + int N"
    and "handle_request A (os, AdvanceFrame inputs) w = Inr w'"
  shows "predicting A g w0 d N n (f + 1) w'" "sint (f + 1) = sint f + 1"
proof -
  obtain v where v: "prepare_request (app_session A) w = Inr v" "answer_request A os (AdvanceFrame inputs) v = Inr w'"
    using assms(4) by (auto simp: handle_request_def rbind_Inr_iff)
  note p = predicting_prepare(1) [OF assms(2) v(1), unfolded predicting_def]
  let ?v = "\<lambda>f'. v\<lparr>rollback_frame_count := Some f', player_inputs := Some inputs\<rparr>"
  obtain f' u where u: "checked_add f 1 = Inr f'" "advance_world A (advance_order os) (?v f') = Inr u"
    "w' = u\<lparr>player_inputs := None\<rparr>"
    using v(2) p by (auto simp: rbind_Inr_iff)
  note f' = checked_add_one [OF u(1)]
  show "sint (f + 1) = sint f + 1" using f' by metis
  have o: "control u = control (?v f')" "storages u = storages (?v f')" "pending u = []"
    using schedule_outer(3) [OF assms(1) u(2)] by simp_all
  then have k: "storages w' = storages v" by (simp add: u(3) storages_def)
  show "predicting A g w0 d N n (f + 1) w'"
    using p o f' assms(3) unfolding predicting_def kept_frame_storages [OF k]
    by (auto simp: control_def u(3))
qed

lemma predicting_save:
  assumes "app_ok A" "orders_admissible A os" "cells_only (app_session A)" "predicting A g w0 d N n f w"
    and "sint g < sint f" "0 <=s g" "Suc n < d" "handle_request A (os, SaveGameState cell h) w = Inr w'"
  shows "predicting A g w0 d N (Suc n) f w'"
proof -
  obtain v where v: "prepare_request (app_session A) w = Inr v" "answer_request A os (SaveGameState cell h) v = Inr w'"
    using assms(8) by (auto simp: handle_request_def rbind_Inr_iff)
  note p = predicting_prepare(1) [OF assms(4) v(1), unfolded predicting_def]
  obtain u where u: "save_world A (save_order os) v = Inr u"
    "w' = save_cell (app_session A) cell h (checksum_res u) u"
    using v(2) by (auto simp: rbind_Inr_iff)
  have f: "0 <=s f" "g <s f" using assms(5,6) by (simp_all add: word_sle_eq word_sless_alt)
  have "kept_frame A g w0 u (Suc n)"
    using save_keeps_frame [OF assms(1) _ u(1) _ _ f predicting_prepare(2) [OF assms(4) v(1)] assms(7)] p assms(2)
    by (simp add: orders_admissible_def)
  moreover have "storages w' = storages u" by (simp add: u(2) save_cell_def storages_def)
  ultimately have "kept_frame A g w0 w' (Suc n)" using kept_frame_storages by blast
  moreover have "control u = control v" "pending u = []" using schedule_outer(2) [OF u(1)] by simp_all
  moreover have "rollback_frame_count w' = rollback_frame_count u" "pending w' = pending u"
    "confirmed_frame_count w' = confirmed_frame_count u"
    "session_res w' = map_option (map_session (cell_save (app_session A) cell h (checksum_res u))) (session_res u)"
    by (simp_all add: u(2) save_cell_def)
  ultimately show ?thesis
    using p unfolding predicting_def by (auto simp: control_def protects_cell [OF assms(3)])
qed

section \<open>A run of predicted frames\<close>

fun is_save :: "'i ggrs_request \<Rightarrow> bool" where
  "is_save (SaveGameState c f) = True"
| "is_save r = False"

fun is_advance :: "'i ggrs_request \<Rightarrow> bool" where
  "is_advance (AdvanceFrame inputs) = True"
| "is_advance r = False"

definition saves_in :: "('o \<times> 'i ggrs_request) list \<Rightarrow> nat" where
  "saves_in rs = length (filter (is_save \<circ> snd) rs)"

definition advances_in :: "('o \<times> 'i ggrs_request) list \<Rightarrow> nat" where
  "advances_in rs = length (filter (is_advance \<circ> snd) rs)"

lemma predicting_run:
  assumes "app_ok A" "tame (ggrs_schedule A)" "cells_only (app_session A)" "0 <=s g"
    and "\<forall>(os, r) \<in> set rs. orders_admissible A os \<and> (is_save r \<or> is_advance r)"
    and "predicting A g w0 d N n f w" "sint g < sint f" "rfold (handle_request A) rs w = Inr w'"
    and "n + saves_in rs < d" "sint f + int (advances_in rs) \<le> sint g + int N"
  shows "\<exists>n' f'. predicting A g w0 d N n' f' w'"
  using assms(5-)
proof (induction rs arbitrary: n f w)
  case (Cons a rs)
  obtain os r where a: "a = (os, r)" by (cases a)
  obtain u where u: "handle_request A (os, r) w = Inr u" "rfold (handle_request A) rs u = Inr w'"
    using Cons.prems(4) by (auto simp: a rbind_Inr_iff)
  show ?case
  proof (cases r)
    case (SaveGameState c h)
    have "orders_admissible A os" "Suc n < d" "saves_in ((os, r) # rs) = Suc (saves_in rs)"
      "advances_in ((os, r) # rs) = advances_in rs"
      using Cons.prems(1,5) by (simp_all add: a SaveGameState saves_in_def advances_in_def)
    with predicting_save [OF assms(1) _ assms(3) Cons.prems(2,3) assms(4) _ u(1) [unfolded SaveGameState]] u(2) Cons.prems(1,3,5,6)
    show ?thesis by (intro Cons.IH [of "Suc n" f u]) (simp_all add: a)
  next
    case (AdvanceFrame i)
    have c: "saves_in ((os, r) # rs) = saves_in rs" "advances_in ((os, r) # rs) = Suc (advances_in rs)"
      by (simp_all add: AdvanceFrame saves_in_def advances_in_def)
    then have "sint f < sint g + int N" using Cons.prems(6) by (simp add: a)
    note st = predicting_advance [OF assms(2) Cons.prems(2) this u(1) [unfolded AdvanceFrame]]
    show ?thesis
      using Cons.prems(1,3,5,6) c u(2) st by (intro Cons.IH [of n "f + 1" u]) (simp_all add: a)
  qed (use Cons.prems(1) a in auto)
qed auto

section \<open>From the save to the rollback\<close>

lemma saveable_window:
  assumes "saveable A w g d'" "0 < d"
  shows "saveable A (w\<lparr>max_prediction_window := Some d, confirmed_frame_count := c\<rparr>) g d"
proof -
  have "storage_ok (w\<lparr>max_prediction_window := Some d, confirmed_frame_count := c\<rparr>) st = storage_ok w st"
    for st :: "('b, 'c) save_store" by (cases st) simp_all
  then show ?thesis using assms by (simp add: saveable_def checksum_ready_def)
qed

lemma stored_of_systems:
  assumes "\<forall>s \<in> set (load_systems A). stored E g w0 w s" "st \<in> set (save_stores A)"
  shows "stored E g w0 w (load_of st)"
proof (cases st)
  case (CompStore t S)
  then obtain m where "(t, m, S) \<in> set (comp_plugins A)" using assms(2) by (auto simp: save_stores_def)
  then have "LoadComponent t m S \<in> set (load_systems A)" by (force simp: load_systems_def data_systems_def)
  then have "stored E g w0 w (LoadComponent t m S)" using assms(1) by blast
  then show ?thesis by (simp add: CompStore)
next
  case (ResStore i S)
  then have "LoadResource i S \<in> set (load_systems A)"
    using assms(2) by (force simp: save_stores_def load_systems_def data_systems_def)
  then show ?thesis using assms(1) unfolding ResStore load_of.simps by blast
qed (use assms(1) in \<open>simp_all add: load_systems_def data_systems_def\<close>)

lemma stored_session:
  "stored E g (w\<lparr>session_res := s\<rparr>) (w\<lparr>session_res := s\<rparr>) x = stored E g w w x"
  by (cases x) simp_all

lemma predicting_start:
  assumes "app_ok A" "checksums_ok A" "orders_admissible A os" "saveable A w g d'"
    and "session_res w = Some s" "protects (app_session A) g d N s" "cells_only (app_session A)" "0 < d"
    and "\<forall>c. confirmed_frame_count w = Some c \<longrightarrow> \<not> g <s c"
    and "handle_request A (os, SaveGameState cell h) w = Inr w0"
  shows "predicting A g w0 d N 0 g w0"
proof -
  let ?E = "app_ecs A"
  obtain v where v: "prepare_request (app_session A) w = Inr v" "answer_request A os (SaveGameState cell h) v = Inr w0"
    using assms(10) by (auto simp: handle_request_def rbind_Inr_iff)
  have g: "rollback_frame_count w = Some g" "0 <=s g" using assms(4) by (simp_all add: saveable_def)
  obtain c where c: "v = w\<lparr>max_prediction_window := Some d, confirmed_frame_count := c\<rparr>"
    "(\<exists>c'. c = Some c' \<and> \<not> g <s c') \<or> c = confirmed_frame_count w"
    by (rule prepare_form [OF v(1) assms(5,6) g(1)]) simp_all
  have sv: "saveable A v g d" unfolding c(1) by (rule saveable_window [OF assms(4,8)])
  have o: "admissible save_before (save_systems A) (save_order os)" using assms(3) by (simp add: orders_admissible_def)
  obtain u where u: "save_world A (save_order os) v = Inr u"
    "\<forall>s \<in> set (load_systems A). stored ?E g u u s"
    "\<forall>st \<in> set (save_stores A). progress ?E g (v\<lparr>ecs_state := ecs_state u, checksum_res := checksum_res u\<rparr>) 3 u st"
    by (rule save_effect [OF assms(1,2) o sv])
  have w0: "w0 = u\<lparr>session_res := map_option (map_session (cell_save (app_session A) cell h (checksum_res u))) (session_res u)\<rparr>"
    using v(2) u(1) by (simp add: save_cell_def)
  have cu: "control u = control v" "pending u = []" using schedule_outer(2) [OF u(1)] by simp_all
  have "stored ?E g w0 w0 (load_of st) \<and> newer_in w0 g st = 0" if st: "st \<in> set (save_stores A)" for st
  proof -
    let ?x = "v\<lparr>ecs_state := ecs_state u, checksum_res := checksum_res u\<rparr>"
    have m: "max_prediction_window ?x = Some d" using c(1) by simp
    have p: "progress ?E g ?x 3 u st" using u(3) st by blast
    have "stored ?E g u u (load_of st)" by (rule stored_of_systems [OF u(2) st])
    moreover have "newer_in u g st = 0" by (rule progress_stored(2) [OF p g(2) m assms(8)])
    moreover have "newer_in w0 g st = newer_in u g st" by (rule stored_storages(2)) (simp add: w0 storages_def)
    ultimately show ?thesis unfolding w0 stored_session by simp
  qed
  then have "kept_frame A g w0 w0 0" by (simp add: kept_frame_def)
  moreover have "rollback_frame_count w0 = Some g" "pending w0 = []" "confirmed_frame_count w0 = c"
    "session_res w0 = Some (map_session (cell_save (app_session A) cell h (checksum_res u)) s)"
    using cu c(1) g(1) assms(5) by (simp_all add: w0 control_def)
  ultimately show ?thesis
    using c(2) assms(6,9) by (auto simp: predicting_def protects_cell [OF assms(7)])
qed

lemma rollback_effect:
  assumes "app_ok A" "orders_admissible A os" "predicting A g w0 d N n f w"
    and "entity_map_res w \<noteq> None" "rollback_ordered_res w \<noteq> None"
    and "loadable (app_ecs A) (ecs_state w0) (resurrect_entities (app_ecs A) g (ecs_state w))"
    and "prepare_request (app_session A) w = Inr v"
  shows "\<exists>w'. handle_request A (os, LoadGameState g) w = Inr w' \<and> restored_world A w0 w' \<and>
    rollback_frame_count w' = Some g \<and> pending w' = [] \<and> (\<forall>s \<in> set (load_systems A). stored (app_ecs A) g w0 w' s) \<and>
    marks_kept (app_ecs A) (ecs_state w) (ecs_state w') \<and> outside_load w' = outside_load v"
proof -
  note p = predicting_prepare [OF assms(3,7)]
  let ?v = "v\<lparr>rollback_frame_count := Some g\<rparr>"
  note q = p(1) [unfolded predicting_def]
  have k: "kept_frame A g w0 v n" and f: "rollback_frame_count v = Some f" and e: "pending ?v = []"
    using q by simp_all
  have "kept_frame A g w0 ?v n = kept_frame A g w0 v n" by (rule kept_frame_storages) (simp add: storages_def)
  then have st: "\<forall>s \<in> set (load_systems A). stored (app_ecs A) g w0 ?v s" using k kept_loadable by blast
  have o: "admissible load_before (load_systems A) (load_order os)" using assms(2) by (simp add: orders_admissible_def)
  have "\<exists>w'. load_world A (load_order os) ?v = Inr w' \<and> restored_world A w0 w' \<and> pending w' = [] \<and>
      rollback_frame_count w' = Some g \<and> schedules w' = schedules ?v \<and>
      (\<forall>s \<in> set (load_systems A). stored (app_ecs A) g w0 w' s) \<and>
      marks_kept (app_ecs A) (ecs_state ?v) (ecs_state w')"
    using p(3-5) assms(4-6) by (intro load_effect [OF assms(1) o e _ _ _ st]) simp_all
  then obtain w' where w': "load_world A (load_order os) ?v = Inr w'" "restored_world A w0 w'" "pending w' = []"
    "rollback_frame_count w' = Some g" "\<forall>s \<in> set (load_systems A). stored (app_ecs A) g w0 w' s"
    "marks_kept (app_ecs A) (ecs_state ?v) (ecs_state w')" by blast
  have "outside_load w' = outside_load ?v" by (rule load_world_outside [OF w'(1)])
  then show ?thesis using w' p(3) by (simp add: handle_request_def assms(7) f outside_load_def)
qed


end
