(* ===== verification/PredictionExample.thy ===== *)
theory PredictionExample
  imports Prediction
begin

text \<open>
  A session of two frames: frame 1 is saved, the game changes a component and a resource and despawns
  an entity, frame 2 is saved, and frame 1 is asked for again. A frame takes a nanosecond here, which
  keeps the times small enough to compute with.
\<close>

definition play :: "demo_world_state \<Rightarrow> demo_world_state res" where
  "play w = Inr (w\<lparr>ecs_state := t_despawn 3 (t_insert (UserKey 0) 2 (UserVal 9) (ecs_state w)),
     user_resource := (user_resource w)(0 := Some 8)\<rparr>)"

definition demo_game :: "(int table, int, int, nat \<times> nat, int, script_session, u64) app" where
  "demo_game = demo_app\<lparr>ggrs_schedule := play\<rparr>"

definition demo_session :: "script_session session" where
  "demo_session = P2P \<lparr>script = [], cells = [], inputs_given = []\<rparr>"

definition game_world :: demo_world_state where
  "game_world = saved_world\<lparr>session_res := Some demo_session, frame_rate := Some 1000000000, ggrs_time := Some (1, 1)\<rparr>"

definition demo_orders :: "(int, int) run_orders" where
  "demo_orders = \<lparr>load_order = demo_load_order, save_order = save_systems demo_app,
     advance_order = [UpdateTime, ReplaceWithGgrs, DespawnConfirmed, FirstFlush, RunGgrsSchedule, MainFlush,
       ReplaceWithVirtual]\<rparr>"

definition frame_one :: demo_world_state where
  "frame_one = (case handle_request demo_game (demo_orders, SaveGameState 0 1) game_world of
     Inr w \<Rightarrow> w | Inl _ \<Rightarrow> game_world)"

definition predicted :: "((int, int) run_orders \<times> int ggrs_request) list" where
  "predicted = [(demo_orders, SaveGameState 1 2)]"

definition frame_two :: demo_world_state where
  "frame_two = (case rfold (handle_request demo_game) ((demo_orders, AdvanceFrame []) # predicted) frame_one of
     Inr w \<Rightarrow> w | Inl _ \<Rightarrow> game_world)"

lemma frame_one: "handle_request demo_game (demo_orders, SaveGameState 0 1) game_world = Inr frame_one"
proof -
  have "(case handle_request demo_game (demo_orders, SaveGameState 0 1) game_world of Inr w \<Rightarrow> True | Inl _ \<Rightarrow> False)"
    by code_simp
  then show ?thesis by (simp add: frame_one_def split: sum.splits)
qed

lemma frame_two: "rfold (handle_request demo_game) ((demo_orders, AdvanceFrame []) # predicted) frame_one = Inr frame_two"
proof -
  have "(case rfold (handle_request demo_game) ((demo_orders, AdvanceFrame []) # predicted) frame_one of
     Inr w \<Rightarrow> True | Inl _ \<Rightarrow> False)"
    by code_simp
  then show ?thesis by (simp only: frame_two_def split: sum.splits) simp
qed

lemma demo_game_systems:
  "load_systems demo_game = load_systems demo_app" "save_systems demo_game = save_systems demo_app"
  by (simp_all add: demo_game_def load_systems_def data_systems_def mapping_systems_def save_systems_def
      checksum_systems_def save_stores_def)

lemma demo_game_ok:
  "app_ok demo_game" "checksums_ok demo_game" "tame (ggrs_schedule demo_game)" "cells_only (app_session demo_game)"
  "orders_admissible demo_game demo_orders"
proof -
  show "app_ok demo_game" "checksums_ok demo_game"
    by (simp_all add: app_ok_def checksums_ok_def demo_game_def demo_app_def strategy_ok_copy)
  show "tame (ggrs_schedule demo_game)" by (auto simp: tame_def demo_game_def play_def outer_defs)
  show "cells_only (app_session demo_game)" by (simp add: cells_only_def demo_game_def demo_app_def script_ops_def)
  have "admissible load_before (load_systems demo_app) demo_load_order"
    by (simp add: demo_load_order_def admissible_def load_before_def load_systems_def data_systems_def
        mapping_systems_def demo_app_def)
  then show "orders_admissible demo_game demo_orders"
    using demo_saves_admissible
    by (simp add: orders_admissible_def demo_game_systems demo_orders_def admissible_def advance_systems_def)
qed

lemma game_world_saveable: "saveable demo_game game_world 1 8"
proof -
  have "storage_ok game_world st = storage_ok saved_world st" for st :: "(int, int) save_store"
    by (cases st) (simp_all add: game_world_def)
  moreover have "save_stores demo_game = save_stores demo_app" "part_flags demo_game = part_flags demo_app"
    by (simp_all add: demo_game_def save_stores_def part_flags_def checksum_systems_def)
  moreover have "ecs_state game_world = ecs_state saved_world" "checksum_res game_world = checksum_res saved_world"
    "rollback_ordered_res game_world = rollback_ordered_res saved_world"
    "user_resource game_world = user_resource saved_world" "pending game_world = pending saved_world"
    "rollback_frame_count game_world = rollback_frame_count saved_world"
    "max_prediction_window game_world = max_prediction_window saved_world"
    by (simp_all add: game_world_def)
  ultimately show ?thesis
    using saved_world_saveable unfolding saveable_def checksum_ready_def by (simp add: demo_game_def)
qed

lemma frame_states:
  "ecs_state frame_one = ecs_state saved_once"
  "resurrect_entities table_ecs 1 (ecs_state frame_two) = ecs_state frame_two"
  "entity_map_res frame_two \<noteq> None" "rollback_ordered_res frame_two \<noteq> None"
  by code_simp+

lemma frame_two_state: "ecs_state frame_two = \<lparr>table_rows =
    [(2, [(RollbackIdKey, IdVal (RollbackId 2)), (UserKey 0, UserVal 9)]),
     (4, [(PartKey, PartVal 6760), (FlagKey EntityFlag, Marker)]),
     (5, [(PartKey, PartVal 6953), (FlagKey (CompFlag 0), Marker)]),
     (6, [(PartKey, PartVal 8), (FlagKey (ResFlag 0), Marker)])], next_id = 7\<rparr>"
  by code_simp

lemma frame_two_loadable:
  "loadable table_ecs (ecs_state frame_one) (resurrect_entities table_ecs 1 (ecs_state frame_two))"
  unfolding frame_states(1)
  by (rule later_loadable [OF _ frame_states(2)])
    (auto simp: fun_eq_iff t_get_def frame_two_state played_on_state parts_table_def)


end
