(* ===== verification/Driver.thy ===== *)
theory Driver
  imports PredictionExample
begin

text \<open>
  \<open>src/schedule_systems.rs\<close>: one update of the app. The real time that passed is added to an
  accumulator, and for every frame's worth in it the session is advanced once and its requests are
  answered. Durations are nanoseconds; the loop takes fuel, and the theorems say how much is enough.
\<close>

section \<open>Durations\<close>

text \<open>\<open>Duration::MAX\<close>: 64-bit seconds and a fraction below one second.\<close>

definition duration_max :: nat where
  "duration_max = 2 ^ 64 * 1000000000 - 1"

definition saturating_add :: "nat \<Rightarrow> nat \<Rightarrow> nat" where
  "saturating_add a b = min (a + b) duration_max"

definition frame_duration :: "bool \<Rightarrow> u64 \<Rightarrow> nat res" where
  "frame_duration slow framerate =
     (if slow then
        rbind (checked_mul 1000000000 11) (\<lambda>scaled.
        rbind (checked_mul framerate 10) (\<lambda>rate.
        rbind (checked_div scaled rate) (\<lambda>nanos. Inr (unat nanos))))
      else rbind (checked_div 1000000000 framerate) (\<lambda>nanos. Inr (unat nanos)))"

section \<open>One step of a session\<close>

text \<open>A handle that the session does not accept panics.\<close>

definition give_inputs :: "('x, 'i) session_ops \<Rightarrow> (nat \<times> 'i) list \<Rightarrow> 'x \<Rightarrow> 'x res" where
  "give_inputs G = rfold (\<lambda>(handle, input) sess.
     case add_local_input G handle input sess of Inl e \<Rightarrow> Inl InvalidHandle | Inr s \<Rightarrow> Inr s)"

text \<open>The \<open>ReadInputs\<close> schedule, and the inputs it leaves for the session.\<close>

definition collect_inputs ::
  "('w, 'v, 's, 't, 'i, 'x, 'h) app \<Rightarrow> ('w, 'v, 's, 't, 'i, 'x) world \<Rightarrow> 'x \<Rightarrow>
     (('w, 'v, 's, 't, 'i, 'x) world \<times> 'x) res" where
  "collect_inputs A w sess =
     rbind (read_inputs A w) (\<lambda>w1.
     rbind (expect NoLocalInputs (local_inputs w1)) (\<lambda>inputs.
     rbind (give_inputs (app_session A) inputs sess) (\<lambda>sess1.
       Inr (w1\<lparr>local_inputs := None\<rparr>, sess1))))"

definition run_synctest ::
  "('w, 'v, 's, 't, 'i, 'x, 'h) app \<Rightarrow> (nat \<Rightarrow> ('v, 's) run_orders) \<Rightarrow> ('w, 'v, 's, 't, 'i, 'x) world \<Rightarrow> 'x \<Rightarrow>
     ('w, 'v, 's, 't, 'i, 'x) world res" where
  "run_synctest A orders w sess =
     rbind (collect_inputs A (w\<lparr>local_players := Some [0..<num_players (app_session A) sess]\<rparr>) sess) (\<lambda>(w1, sess1).
     let (requests, sess2) = advance_frame (app_session A) sess1;
         w2 = w1\<lparr>session_res := Some (SyncTest sess2)\<rparr>
     in case requests of
          Inr rs \<Rightarrow> handle_requests A orders rs w2
        | Inl (MismatchedChecksum current mismatched) \<Rightarrow> on_mismatch A current mismatched w2
        | Inl e \<Rightarrow> Inr w2)"

definition run_spectator ::
  "('w, 'v, 's, 't, 'i, 'x, 'h) app \<Rightarrow> (nat \<Rightarrow> ('v, 's) run_orders) \<Rightarrow> ('w, 'v, 's, 't, 'i, 'x) world \<Rightarrow> 'x \<Rightarrow>
     ('w, 'v, 's, 't, 'i, 'x) world res" where
  "run_spectator A orders w sess =
     (if current_state (app_session A) sess = Running then
        let (requests, sess1) = advance_frame (app_session A) sess;
            w1 = w\<lparr>session_res := Some (Spectator sess1)\<rparr>
        in case requests of Inr rs \<Rightarrow> handle_requests A orders rs w1 | Inl e \<Rightarrow> Inr w1
      else Inr (w\<lparr>session_res := Some (Spectator sess)\<rparr>))"

definition run_p2p ::
  "('w, 'v, 's, 't, 'i, 'x, 'h) app \<Rightarrow> (nat \<Rightarrow> ('v, 's) run_orders) \<Rightarrow> ('w, 'v, 's, 't, 'i, 'x) world \<Rightarrow> 'x \<Rightarrow>
     ('w, 'v, 's, 't, 'i, 'x) world res" where
  "run_p2p A orders w sess =
     (let w1 = w\<lparr>local_players := Some (local_player_handles (app_session A) sess)\<rparr>
      in if current_state (app_session A) sess = Running then
           rbind (collect_inputs A w1 sess) (\<lambda>(w2, sess1).
           let (requests, sess2) = advance_frame (app_session A) sess1;
               w3 = w2\<lparr>session_res := Some (P2P sess2)\<rparr>
           in case requests of Inr rs \<Rightarrow> handle_requests A orders rs w3 | Inl e \<Rightarrow> Inr w3)
         else Inr (w1\<lparr>session_res := Some (P2P sess)\<rparr>))"

section \<open>One update of the app\<close>

definition poll_session ::
  "('x, 'i) session_ops \<Rightarrow> ('w, 'v, 's, 't, 'i, 'x) world \<Rightarrow> ('w, 'v, 's, 't, 'i, 'x) world" where
  "poll_session G w =
     (case session_res w of
        Some (P2P s) \<Rightarrow> w\<lparr>session_res := Some (P2P (poll_remote_clients G s))\<rparr>
      | Some (Spectator s) \<Rightarrow> w\<lparr>session_res := Some (Spectator (poll_remote_clients G s))\<rparr>
      | _ \<Rightarrow> w)"

text \<open>The body of the loop. Without a session, time data and the frame counters are reset.\<close>

definition update_step ::
  "('w, 'v, 's, 't, 'i, 'x, 'h) app \<Rightarrow> (nat \<Rightarrow> ('v, 's) run_orders) \<Rightarrow> nat \<Rightarrow>
     fixed_timestep_data \<times> ('w, 'v, 's, 't, 'i, 'x) world \<Rightarrow>
     (fixed_timestep_data \<times> ('w, 'v, 's, 't, 'i, 'x) world) res" where
  "update_step A orders fps_delta = (\<lambda>(time_data, w).
     let time_data1 = time_data\<lparr>accumulator := accumulator time_data - fps_delta\<rparr>;
         w1 = w\<lparr>session_res := None\<rparr>
     in case session_res w of
          Some (SyncTest s) \<Rightarrow> rbind (run_synctest A orders w1 s) (\<lambda>w2. Inr (time_data1, w2))
        | Some (P2P s) \<Rightarrow> rbind (run_p2p A orders w1 s) (\<lambda>w2.
            Inr (time_data1\<lparr>run_slow := 0 <s frames_ahead (app_session A) s\<rparr>, w2))
        | Some (Spectator s) \<Rightarrow> rbind (run_spectator A orders w1 s) (\<lambda>w2. Inr (time_data1, w2))
        | None \<Rightarrow>
            Inr (\<lparr>accumulator = 0, run_slow = False\<rparr>,
              w1\<lparr>local_players := Some [], rollback_frame_count := Some 0, confirmed_frame_count := Some (- 1),
                 max_prediction_window := Some 8\<rparr>))"

text \<open>The \<open>while\<close> loop: \<open>i\<close> counts the iterations, \<open>None\<close> means that the fuel did not suffice.\<close>

fun update_loop ::
  "('w, 'v, 's, 't, 'i, 'x, 'h) app \<Rightarrow> (nat \<Rightarrow> nat \<Rightarrow> ('v, 's) run_orders) \<Rightarrow> nat \<Rightarrow> nat \<Rightarrow> nat \<Rightarrow>
     fixed_timestep_data \<times> ('w, 'v, 's, 't, 'i, 'x) world \<Rightarrow>
     (fixed_timestep_data \<times> ('w, 'v, 's, 't, 'i, 'x) world) res option" where
  "update_loop A orders fps_delta fuel i st =
     (if accumulator (fst st) < fps_delta then Some (Inr st)
      else case fuel of
             0 \<Rightarrow> None
           | Suc n \<Rightarrow>
               (case update_step A (orders i) fps_delta st of
                  Inl p \<Rightarrow> Some (Inl p)
                | Inr st1 \<Rightarrow> update_loop A orders fps_delta n (Suc i) st1))"

declare update_loop.simps [simp del]

definition run_ggrs_schedules ::
  "('w, 'v, 's, 't, 'i, 'x, 'h) app \<Rightarrow> (nat \<Rightarrow> nat \<Rightarrow> ('v, 's) run_orders) \<Rightarrow> nat \<Rightarrow>
     ('w, 'v, 's, 't, 'i, 'x) world \<Rightarrow> ('w, 'v, 's, 't, 'i, 'x) world res option" where
  "run_ggrs_schedules A orders fuel w =
     (let framerate = (case frame_rate w of Some r \<Rightarrow> r | None \<Rightarrow> DEFAULT_FRAME_RATE);
          w1 = w\<lparr>frame_rate := Some framerate\<rparr>
      in case rbind (require ''FixedTimestepData'' (fixed_timestep w1)) (\<lambda>time_data.
              rbind (require ''Time'' (default_time w1)) (\<lambda>time.
              rbind (frame_duration (run_slow time_data) framerate) (\<lambda>fps_delta.
                Inr (time_data\<lparr>accumulator := saturating_add (accumulator time_data) (delta (app_time A) time)\<rparr>,
                     fps_delta)))) of
           Inl p \<Rightarrow> Some (Inl p)
         | Inr (time_data, fps_delta) \<Rightarrow>
             map_option (\<lambda>r. rbind r (\<lambda>(time_data1, w2). Inr (w2\<lparr>fixed_timestep := Some time_data1\<rparr>)))
               (update_loop A orders fps_delta fuel 0
                 (time_data, poll_session (app_session A) (w1\<lparr>fixed_timestep := None\<rparr>))))"

section \<open>The loop returns\<close>

lemma step_accumulator:
  assumes "update_step A orders fps st = Inr st1"
  shows "accumulator (fst st1) = accumulator (fst st) - fps \<or>
    session_res (snd st) = None \<and> accumulator (fst st1) = 0"
  using assms
  by (cases st) (auto simp: update_step_def Let_def rbind_Inr_iff split: option.splits session.splits)

lemma loop_returns:
  assumes "0 < fps" "accumulator (fst st) div fps \<le> fuel"
  shows "\<exists>r. update_loop A orders fps fuel i st = Some r"
  using assms(2)
proof (induction fuel arbitrary: st i)
  case 0
  then have "accumulator (fst st) < fps" using assms(1) by (simp add: div_eq_0_iff)
  then show ?case by (simp add: update_loop.simps)
next
  case (Suc n)
  show ?case
  proof (cases "accumulator (fst st) < fps")
    case False
    show ?thesis
    proof (cases "update_step A (orders i) fps st")
      case (Inr st1)
      have "(accumulator (fst st) - fps) div fps \<le> n"
        using Suc.prems False assms(1) by (simp add: le_div_geq)
      then have "accumulator (fst st1) div fps \<le> n"
        using step_accumulator [OF Inr] by auto
      from Suc.IH [OF this] show ?thesis using Inr False by (subst update_loop.simps) simp
    qed (use False in \<open>subst update_loop.simps; simp\<close>)
  qed (simp add: update_loop.simps)
qed

lemma loop_remainder:
  assumes "update_loop A orders fps fuel i st = Some (Inr st1)"
  shows "accumulator (fst st1) < fps"
    "accumulator (fst st1) = accumulator (fst st) mod fps \<or> accumulator (fst st1) = 0"
  using assms
proof (induction fuel arbitrary: st i)
  case 0
  case 1 then show ?case by (simp add: update_loop.simps split: if_splits)
  case 2 from 0 2 show ?case by (auto simp: update_loop.simps split: if_splits)
next
  case (Suc n)
  have step: "accumulator (fst st) < fps \<and> st1 = st \<or>
      (\<exists>u. \<not> accumulator (fst st) < fps \<and> update_step A (orders i) fps st = Inr u \<and>
        update_loop A orders fps n (Suc i) u = Some (Inr st1))"
    if "update_loop A orders fps (Suc n) i st = Some (Inr st1)" for st i
    using that by (subst (asm) update_loop.simps) (auto split: if_splits sum.splits)
  case 1
  with step Suc.IH(1) show ?case by blast
  case 2
  from step [OF 2] show ?case
  proof (elim disjE exE conjE)
    fix u assume u: "\<not> accumulator (fst st) < fps" "update_step A (orders i) fps st = Inr u"
      "update_loop A orders fps n (Suc i) u = Some (Inr st1)"
    then show ?thesis
      using step_accumulator [OF u(2)] Suc.IH(2) [OF u(3)] by (auto simp: le_mod_geq)
  qed simp
qed

section \<open>The length of a frame\<close>

definition frame_nanoseconds :: "bool \<Rightarrow> u64 \<Rightarrow> nat" where
  "frame_nanoseconds slow rate = nat ((if slow then 11000000000 div (uint rate * 10) else 1000000000 div uint rate))"

lemma frame_duration_eq:
  assumes "0 < rate" "rate \<le> 1000000000"
  shows "frame_duration slow rate = Inr (frame_nanoseconds slow rate)" "0 < frame_nanoseconds slow rate"
proof -
  have r: "0 < uint rate" "uint rate \<le> 1000000000"
    using assms by (simp_all add: word_less_def word_le_def)
  have ten: "uint (rate * 10) = uint rate * 10" using r(2) by (simp add: uint_word_ariths)
  have nz: "rate \<noteq> 0" "rate * 10 \<noteq> 0" using r(1) ten by auto
  have m: "checked_mul 1000000000 11 = Inr 11000000000" "checked_mul rate 10 = Inr (rate * 10)"
    using r(2) by (simp_all add: checked_mul_def)
  have u: "unat (a div b) = nat (uint a div uint b)" for a b :: u64
    by (simp add: uint_div_distrib flip: nat_uint_eq)
  show "frame_duration slow rate = Inr (frame_nanoseconds slow rate)"
    by (simp add: frame_duration_def frame_nanoseconds_def m checked_div_def nz u ten)
  have "0 < uint rate * 10" "uint rate * 10 \<le> 11000000000" using r by simp_all
  then have "0 < 11000000000 div (uint rate * 10)" "0 < 1000000000 div uint rate"
    using r by (simp_all only: pos_imp_zdiv_pos_iff)
  then show "0 < frame_nanoseconds slow rate" by (simp add: frame_nanoseconds_def)
qed

section \<open>The loop as a relation\<close>

text \<open>The iterations from number \<open>i\<close> to number \<open>j\<close>, without fuel.\<close>

inductive loop_run ::
  "('w, 'v, 's, 't, 'i, 'x, 'h) app \<Rightarrow> (nat \<Rightarrow> nat \<Rightarrow> ('v, 's) run_orders) \<Rightarrow> nat \<Rightarrow> nat \<Rightarrow>
     fixed_timestep_data \<times> ('w, 'v, 's, 't, 'i, 'x) world \<Rightarrow> nat \<Rightarrow>
     fixed_timestep_data \<times> ('w, 'v, 's, 't, 'i, 'x) world \<Rightarrow> bool"
  for A orders fps where
  stop: "accumulator (fst st) < fps \<Longrightarrow> loop_run A orders fps i st i st"
| again: "\<not> accumulator (fst st) < fps \<Longrightarrow> update_step A (orders i) fps st = Inr st1 \<Longrightarrow>
     loop_run A orders fps (Suc i) st1 j st2 \<Longrightarrow> loop_run A orders fps i st j st2"

inductive_cases loop_runE: "loop_run A orders fps i st j st2"

text \<open>There is one run from a state.\<close>

lemma loop_run_unique:
  assumes "loop_run A orders fps i st j st2" "loop_run A orders fps i st j' st2'"
  shows "j' = j \<and> st2' = st2"
  using assms
proof (induction arbitrary: j' st2' rule: loop_run.induct)
  case (stop st i)
  from stop.prems show ?case by (cases rule: loop_runE) (use stop.hyps in auto)
next
  case (again st i st1 j st2)
  from again.prems obtain u where "update_step A (orders i) fps st = Inr u" "loop_run A orders fps (Suc i) u j' st2'"
    by (rule loop_runE) (use again.hyps(1) in simp_all)
  then show ?case using again.hyps(2) again.IH by simp
qed

lemma update_loop_stop: "accumulator (fst st) < fps \<Longrightarrow> update_loop A orders fps n i st = Some (Inr st)"
  by (subst update_loop.simps) simp

lemma update_loop_again:
  "\<not> accumulator (fst st) < fps \<Longrightarrow> update_step A (orders i) fps st = Inr st1 \<Longrightarrow>
     update_loop A orders fps (Suc n) i st = update_loop A orders fps n (Suc i) st1"
  by (subst update_loop.simps) simp

lemma update_loop_cases:
  assumes "update_loop A orders fps fuel i st = Some (Inr st2)"
  shows "accumulator (fst st) < fps \<and> st2 = st \<or>
    (\<exists>n st1. fuel = Suc n \<and> \<not> accumulator (fst st) < fps \<and> update_step A (orders i) fps st = Inr st1 \<and>
      update_loop A orders fps n (Suc i) st1 = Some (Inr st2))"
  using assms by (subst (asm) update_loop.simps) (auto split: if_splits sum.splits nat.splits)

text \<open>The fuelled loop computes the relation.\<close>

lemma loop_refines: "(\<exists>fuel. update_loop A orders fps fuel i st = Some (Inr st2)) \<longleftrightarrow> (\<exists>j. loop_run A orders fps i st j st2)"
proof
  assume "\<exists>fuel. update_loop A orders fps fuel i st = Some (Inr st2)"
  then obtain fuel where "update_loop A orders fps fuel i st = Some (Inr st2)" ..
  then show "\<exists>j. loop_run A orders fps i st j st2"
  proof (induction fuel arbitrary: i st)
    case (Suc n)
    from update_loop_cases [OF Suc.prems] show ?case
    proof (elim disjE exE conjE)
      fix m st1
      assume st1: "Suc n = Suc m" "\<not> accumulator (fst st) < fps" "update_step A (orders i) fps st = Inr st1"
        "update_loop A orders fps m (Suc i) st1 = Some (Inr st2)"
      then obtain j where "loop_run A orders fps (Suc i) st1 j st2" using Suc.IH by blast
      with st1(2,3) show ?thesis by (blast intro: loop_run.again)
    qed (blast intro: loop_run.stop)
  qed (blast dest: update_loop_cases intro: loop_run.stop)
next
  assume "\<exists>j. loop_run A orders fps i st j st2"
  then obtain j where "loop_run A orders fps i st j st2" ..
  then show "\<exists>fuel. update_loop A orders fps fuel i st = Some (Inr st2)"
    by (induction rule: loop_run.induct) (auto simp: update_loop_stop intro: update_loop_again [THEN trans])
qed

section \<open>A session stays\<close>

lemma handle_request_session:
  assumes "tame (ggrs_schedule A)" "handle_request A r w = Inr w'" "session_res w \<noteq> None"
  shows "session_res w' \<noteq> None"
proof -
  obtain os q where r: "r = (os, q)" by (cases r)
  obtain v where v: "prepare_request (app_session A) w = Inr v" "answer_request A os q v = Inr w'"
    using assms(2) by (auto simp: handle_request_def r rbind_Inr_iff)
  have "session_res v \<noteq> None" using prepare_outer(2) [OF v(1)] assms(3) by simp
  then show ?thesis
    using v(2) schedule_outer [where A = A] assms(1)
    by (cases q) (fastforce simp: rbind_Inr_iff control_def save_cell_def)+
qed

lemma handle_requests_session:
  assumes "tame (ggrs_schedule A)" "handle_requests A orders rs w = Inr w'" "session_res w \<noteq> None"
  shows "session_res w' \<noteq> None"
proof -
  let ?run = "rfold (handle_request A) (map (\<lambda>(n, r). (orders n, r)) (enumerate 0 rs))"
  have "\<exists>ls w4. ?run (w\<lparr>schedules := ls\<rparr>) = Inr w4 \<and> session_res w' = session_res w4"
    using assms(2) by (fastforce simp: handle_requests_def rbind_Inr_iff extract_schedule_def insert_schedule_def split: if_splits)
  then obtain ls w4 where w: "?run (w\<lparr>schedules := ls\<rparr>) = Inr w4" "session_res w' = session_res w4" by blast
  have "session_res w4 \<noteq> None"
    by (rule rfold_invariant [OF w(1), where P = "\<lambda>w. session_res w \<noteq> None"])
      (simp_all add: assms(3) handle_request_session [OF assms(1)])
  then show ?thesis using w(2) by simp
qed

text \<open>Observers of a mismatch leave the session in place.\<close>

definition keeps_session :: "('w, 'v, 's, 't, 'i, 'x, 'h) app \<Rightarrow> bool" where
  "keeps_session A \<longleftrightarrow> tame (ggrs_schedule A) \<and>
     (\<forall>c ms w w'. on_mismatch A c ms w = Inr w' \<longrightarrow> session_res w' = session_res w)"

lemma answers_session:
  assumes "keeps_session A" "session_res w \<noteq> None"
    and "(case requests of Inr rs \<Rightarrow> handle_requests A orders rs w
      | Inl (MismatchedChecksum c ms) \<Rightarrow> on_mismatch A c ms w | Inl e \<Rightarrow> Inr w) = Inr w'
     \<or> (case requests of Inr rs \<Rightarrow> handle_requests A orders rs w | Inl e \<Rightarrow> Inr w) = Inr w'"
  shows "session_res w' \<noteq> None"
  using assms handle_requests_session [of A orders _ w w']
  by (auto simp: keeps_session_def split: sum.splits ggrs_error.splits)

lemma run_session:
  assumes "keeps_session A"
  shows "run_synctest A orders w s = Inr w' \<Longrightarrow> session_res w' \<noteq> None"
    "run_p2p A orders w s = Inr w' \<Longrightarrow> session_res w' \<noteq> None"
    "run_spectator A orders w s = Inr w' \<Longrightarrow> session_res w' \<noteq> None"
proof -
  show "session_res w' \<noteq> None" if t: "run_synctest A orders w s = Inr w'"
  proof -
    let ?w = "w\<lparr>local_players := Some [0..<num_players (app_session A) s]\<rparr>"
    obtain w1 s1 where c: "collect_inputs A ?w s = Inr (w1, s1)"
      using t by (auto simp: run_synctest_def rbind_Inr_iff)
    obtain q s2 where a: "advance_frame (app_session A) s1 = (q, s2)" by fastforce
    let ?v = "w1\<lparr>session_res := Some (SyncTest s2)\<rparr>"
    have "(case q of Inr rs \<Rightarrow> handle_requests A orders rs ?v
        | Inl (MismatchedChecksum c ms) \<Rightarrow> on_mismatch A c ms ?v | Inl e \<Rightarrow> Inr ?v) = Inr w'"
      using t by (simp add: run_synctest_def c a Let_def)
    from answers_session [OF assms _ disjI1 [OF this]] show ?thesis by simp
  qed
  show "session_res w' \<noteq> None" if t: "run_p2p A orders w s = Inr w'"
  proof (cases "current_state (app_session A) s = Running")
    case True
    let ?w = "w\<lparr>local_players := Some (local_player_handles (app_session A) s)\<rparr>"
    obtain w1 s1 where c: "collect_inputs A ?w s = Inr (w1, s1)"
      using t True by (auto simp: run_p2p_def rbind_Inr_iff)
    obtain q s2 where a: "advance_frame (app_session A) s1 = (q, s2)" by fastforce
    let ?v = "w1\<lparr>session_res := Some (P2P s2)\<rparr>"
    have "(case q of Inr rs \<Rightarrow> handle_requests A orders rs ?v | Inl e \<Rightarrow> Inr ?v) = Inr w'"
      using t True by (simp add: run_p2p_def c a Let_def)
    from answers_session [OF assms _ disjI2 [OF this]] show ?thesis by simp
  qed (use t in \<open>auto simp: run_p2p_def\<close>)
  show "session_res w' \<noteq> None" if "run_spectator A orders w s = Inr w'"
    using that
    by (auto simp: run_spectator_def rbind_Inr_iff Let_def simp del: not_None_eq split: prod.split_asm if_splits
        elim!: answers_session [OF assms, rotated, OF disjI2])
qed

lemma update_step_session:
  assumes "keeps_session A" "update_step A orders fps st = Inr st1" "session_res (snd st) \<noteq> None"
  shows "session_res (snd st1) \<noteq> None" "accumulator (fst st1) = accumulator (fst st) - fps"
proof -
  obtain td w where st: "st = (td, w)" by (cases st)
  obtain s where s: "session_res w = Some s" using assms(3) st by auto
  have r: "\<exists>w2. st1 = (fst st1, w2) \<and> accumulator (fst st1) = accumulator td - fps \<and>
      (\<exists>x w1. run_synctest A orders w1 x = Inr w2 \<or> run_p2p A orders w1 x = Inr w2 \<or> run_spectator A orders w1 x = Inr w2)"
    using assms(2) by (cases s) (auto simp: st s update_step_def Let_def rbind_Inr_iff, blast+)
  then show "session_res (snd st1) \<noteq> None" using run_session [OF assms(1)] by (metis snd_conv)
  show "accumulator (fst st1) = accumulator (fst st) - fps" using r st by auto
qed

lemma loop_run_paces:
  assumes "loop_run A orders fps i st j st2" "keeps_session A" "session_res (snd st) \<noteq> None" "0 < fps"
  shows "j = i + accumulator (fst st) div fps \<and> accumulator (fst st2) = accumulator (fst st) mod fps"
  using assms(1,3)
proof (induction rule: loop_run.induct)
  case (again st i st1 j st2)
  note s = update_step_session [OF assms(2) again.hyps(2) again.prems]
  from again.IH [OF s(1)] s(2) again.hyps(1) show ?case
    using assms(4) by (simp add: le_div_geq le_mod_geq)
qed simp

lemma loop_run_session:
  assumes "loop_run A orders fps i st j st2" "keeps_session A" "session_res (snd st) \<noteq> None"
  shows "session_res (snd st2) \<noteq> None"
  using assms(1,3)
  by (induction rule: loop_run.induct) (simp_all add: update_step_session(1) [OF assms(2)] del: not_None_eq)

section \<open>Properties of an update\<close>

text \<open>The frame rate an update uses.\<close>

definition rate_of :: "('w, 'v, 's, 't, 'i, 'x) world \<Rightarrow> u64" where
  "rate_of w = (case frame_rate w of Some r \<Rightarrow> r | None \<Rightarrow> DEFAULT_FRAME_RATE)"

text \<open>The time data and the world with which the loop starts.\<close>

definition added_time ::
  "('w, 'v, 's, 't, 'i, 'x, 'h) app \<Rightarrow> fixed_timestep_data \<Rightarrow> ('w, 'v, 's, 't, 'i, 'x) world \<Rightarrow> fixed_timestep_data" where
  "added_time A td w = td\<lparr>accumulator := saturating_add (accumulator td)
     (case default_time w of Some t \<Rightarrow> delta (app_time A) t | None \<Rightarrow> 0)\<rparr>"

definition polled_world ::
  "('w, 'v, 's, 't, 'i, 'x, 'h) app \<Rightarrow> ('w, 'v, 's, 't, 'i, 'x) world \<Rightarrow> ('w, 'v, 's, 't, 'i, 'x) world" where
  "polled_world A w = poll_session (app_session A) (w\<lparr>frame_rate := Some (rate_of w), fixed_timestep := None\<rparr>)"

lemma polled_session: "session_res (polled_world A w) = None \<longleftrightarrow> session_res w = None"
  by (simp add: polled_world_def poll_session_def split: option.split session.split)

lemma run_slow_added [simp]: "run_slow (added_time A td w) = run_slow td"
  by (simp add: added_time_def)

lemma update_eq:
  assumes "fixed_timestep w = Some td" "default_time w \<noteq> None" "frame_duration (run_slow td) (rate_of w) = Inr fps"
  shows "run_ggrs_schedules A orders fuel w
    = map_option (\<lambda>r. rbind r (\<lambda>(time_data1, w2). Inr (w2\<lparr>fixed_timestep := Some time_data1\<rparr>)))
        (update_loop A orders fps fuel 0 (added_time A td w, polled_world A w))"
proof -
  obtain t where "default_time w = Some t" using assms(2) by auto
  then show ?thesis
    using assms(1,3) by (simp add: run_ggrs_schedules_def rate_of_def [symmetric] Let_def added_time_def polled_world_def)
qed

lemma update_returned:
  assumes "fixed_timestep w = Some td" "default_time w \<noteq> None" "frame_duration (run_slow td) (rate_of w) = Inr fps"
  shows "run_ggrs_schedules A orders fuel w = Some (Inr w') \<longleftrightarrow>
    (\<exists>td1 w1. update_loop A orders fps fuel 0 (added_time A td w, polled_world A w) = Some (Inr (td1, w1)) \<and>
      w' = w1\<lparr>fixed_timestep := Some td1\<rparr>)"
  by (fastforce simp: update_eq [OF assms] rbind_Inr_iff)

text \<open>
  C7: An update of the app terminates. With a frame rate between 1 and 10^9 the loop needs no more
  iterations than there are frames in the accumulated time, whatever the session and the user's
  schedules do; with that much fuel it returns or panics.
\<close>

theorem update_terminates:
  assumes "fixed_timestep w = Some td" and "default_time w \<noteq> None"
    and "0 < rate_of w" and "rate_of w \<le> 1000000000"
    and "accumulator (added_time A td w) div frame_nanoseconds (run_slow td) (rate_of w) \<le> fuel"
  shows "\<exists>r. run_ggrs_schedules A orders fuel w = Some r"
proof -
  note d = frame_duration_eq [OF assms(3,4), of "run_slow td"]
  show ?thesis
    unfolding update_eq [OF assms(1,2) d(1)]
    using loop_returns [OF d(2), of "(added_time A td w, polled_world A w)" fuel A orders 0] assms(5) by auto
qed

lemma idle_loop_never_ends: "session_res w = None \<Longrightarrow> update_loop A orders 0 fuel i (td, w) = None"
proof (induction fuel arbitrary: i td w)
  case (Suc n)
  then show ?case by (subst update_loop.simps) (simp add: update_step_def Let_def)
qed (simp add: update_loop.simps)

text \<open>
  C26: Outside these frame rates an update does not work. A rate of 0 panics with a division by zero; with
  more than 10^9 frames per second a frame lasts no time at all, and the loop of an update never ends
  normally. Before a session exists it does not end at all.
\<close>

theorem frame_rate_limits:
  assumes "fixed_timestep w = Some td" and "default_time w \<noteq> None"
  shows "(rate_of w = 0 \<longrightarrow> run_ggrs_schedules A orders fuel w = Some (Inl DivideByZero)) \<and>
    (1000000000 < rate_of w \<and> \<not> run_slow td \<longrightarrow>
       (\<forall>w'. run_ggrs_schedules A orders fuel w \<noteq> Some (Inr w')) \<and>
       (session_res w = None \<longrightarrow> run_ggrs_schedules A orders fuel w = None))"
proof (intro conjI impI)
  assume z: "rate_of w = 0"
  obtain t where "default_time w = Some t" using assms(2) by auto
  moreover have "frame_duration (run_slow td) 0 = Inl DivideByZero"
    by (simp add: frame_duration_def checked_mul_def checked_div_def)
  ultimately show "run_ggrs_schedules A orders fuel w = Some (Inl DivideByZero)"
    using assms(1) z by (simp add: run_ggrs_schedules_def rate_of_def [symmetric] Let_def)
next
  assume r: "1000000000 < rate_of w \<and> \<not> run_slow td"
  then have "rate_of w \<noteq> 0" "1000000000 div rate_of w = 0"
    using div_word_less [of 1000000000 "rate_of w"] by auto
  then have d: "frame_duration (run_slow td) (rate_of w) = Inr 0"
    using r by (simp add: frame_duration_def checked_div_def)
  show "\<forall>w'. run_ggrs_schedules A orders fuel w \<noteq> Some (Inr w')"
    using loop_remainder(1) [of A orders 0 fuel 0 "(added_time A td w, polled_world A w)"]
    by (auto simp: update_returned [OF assms d])
  assume "session_res w = None"
  then have "update_loop A orders 0 fuel i (x, w1) = None" if "session_res w1 = None" for i x w1
    using that idle_loop_never_ends by blast
  with \<open>session_res w = None\<close> show "run_ggrs_schedules A orders fuel w = None"
    by (simp add: update_eq [OF assms d] polled_session)
qed



section \<open>Sessions and rollback\<close>


text \<open>
  C27: Starting a session after another one panics at its first frame. The steps without a session put
  the frame counter back to 0 but leave the clock of the old session, so the first \<open>AdvanceFrame\<close> asks
  the clock to go back, in whatever order the systems of the frame run.
\<close>

theorem restarted_session_panics:
  assumes "time_laws (app_time A)" and "session_res w = None" and "ggrs_time w = Some t"
    and "frame_rate w = Some rate" and "0 < rate" and "rate \<le> 1000000000"
    and "0 <=s f" and "1 <s f" and "elapsed (app_time A) t = frame_nanos rate f"
    and "orders_admissible A os"
  shows "\<exists>td1 w1. update_step A orders fps (td, w) = Inr (td1, w1) \<and> rollback_frame_count w1 = Some 0 \<and>
    handle_request A (os, AdvanceFrame inputs) (w1\<lparr>session_res := Some (P2P s)\<rparr>) = Inl TimeBackwards"
proof -
  let ?w1 = "w\<lparr>session_res := None, local_players := Some [], rollback_frame_count := Some 0,
    confirmed_frame_count := Some (- 1), max_prediction_window := Some 8\<rparr>"
  let ?w2 = "?w1\<lparr>session_res := Some (P2P s), max_prediction_window := Some (max_prediction (app_session A) s),
    confirmed_frame_count := Some (confirmed_frame (app_session A) s), rollback_frame_count := Some 1,
    player_inputs := Some inputs\<rparr>"
  obtain ys where ys: "advance_order os = [UpdateTime, ReplaceWithGgrs] @ ys @ [RunGgrsSchedule, MainFlush, ReplaceWithVirtual]"
    using assms(10) advance_orders unfolding orders_admissible_def by metis
  have "update_time (app_time A) rate 1 t = Inl TimeBackwards"
    by (rule restarted_frames_panic [OF assms(1,7,8,5,6,9)])
  then have "run_advance A UpdateTime ?w2 = Inl TimeBackwards"
    using assms(3,4) by (simp add: run_update_time_def)
  then have "advance_world A (advance_order os) ?w2 = Inl TimeBackwards"
    by (simp add: advance_world_def run_schedule_def ys del: run_advance.simps)
  moreover have "checked_add 0 1 = Inr 1" by (simp add: checked_add_def)
  ultimately have "handle_request A (os, AdvanceFrame inputs) (?w1\<lparr>session_res := Some (P2P s)\<rparr>) = Inl TimeBackwards"
    by (simp add: handle_request_def prepare_request_def session_confirmed_def session_window_def)
  moreover have "update_step A orders fps (td, w) = Inr (\<lparr>accumulator = 0, run_slow = False\<rparr>, ?w1)"
    using assms(2) by (simp add: update_step_def Let_def)
  ultimately show ?thesis by auto
qed

end
