(* ===== verification/DriverExample.thy ===== *)
theory DriverExample
  imports Driver
begin

text \<open>
  Updates of a game whose frames take a nanosecond, with two of them accumulated: in the first the
  session saves frame 1 and advances to frame 2, in the second it rolls back to frame 1. And the
  worlds on which the limits of an update show.
\<close>

definition driven_game :: "(int table, int, int, nat \<times> nat, int, script_session, u64) app" where
  "driven_game = demo_game\<lparr>read_inputs := (\<lambda>w. Inr (w\<lparr>local_inputs := Some [(0, 5)]\<rparr>))\<rparr>"

definition driven_world :: demo_world_state where
  "driven_world = game_world\<lparr>fixed_timestep := Some \<lparr>accumulator = 2, run_slow = False\<rparr>,
     session_res := Some (P2P \<lparr>script = [[SaveGameState 0 1, AdvanceFrame [(5, Confirmed)]], [LoadGameState 1]],
       cells = [], inputs_given = []\<rparr>)\<rparr>"

definition same_orders :: "nat \<Rightarrow> nat \<Rightarrow> (int, int) run_orders" where
  "same_orders = (\<lambda>_ _. demo_orders)"

lemma driven_rate: "rate_of driven_world = 1000000000" "frame_nanoseconds False 1000000000 = 1"
  by (simp_all add: rate_of_def driven_world_def game_world_def frame_nanoseconds_def)

lemma driven_time:
  "fixed_timestep driven_world = Some \<lparr>accumulator = 2, run_slow = False\<rparr>" "default_time driven_world \<noteq> None"
  "session_res driven_world \<noteq> None"
  "added_time driven_game \<lparr>accumulator = 2, run_slow = False\<rparr> driven_world = \<lparr>accumulator = 2, run_slow = False\<rparr>"
  by (simp_all add: driven_world_def game_world_def saved_world_def plain_world_def added_time_def
      saturating_add_def duration_max_def driven_game_def demo_game_def demo_app_def)

lemma driven_keeps_session: "keeps_session driven_game"
  using demo_game_ok(3) by (simp add: keeps_session_def driven_game_def demo_game_def demo_app_def)

text \<open>What the loop computes: the counter is back at frame 1 and no time is left.\<close>

lemma driven_loop:
  "case update_loop driven_game same_orders 1 2 0
     (\<lparr>accumulator = 2, run_slow = False\<rparr>, polled_world driven_game driven_world) of
   Some (Inr (td, w)) \<Rightarrow> rollback_frame_count w = Some 1 \<and> accumulator td = 0 \<and> run_slow td | _ \<Rightarrow> False"
  by code_simp

lemma driven_update:
  "\<exists>w'. run_ggrs_schedules driven_game same_orders 2 driven_world = Some (Inr w') \<and> rollback_frame_count w' = Some 1"
proof -
  have d: "frame_duration False (rate_of driven_world) = Inr 1"
    using frame_duration_eq(1) [of 1000000000 False] by (simp add: driven_rate)
  show ?thesis
    using driven_loop update_returned [OF driven_time(1,2), of 1 driven_game same_orders 2] d
    by (fastforce simp: driven_time(4) split: option.splits sum.splits)
qed

theorem update_terminates_witness:
  "\<exists>r. run_ggrs_schedules driven_game same_orders 2 driven_world = Some r"
  by (rule update_terminates [OF driven_time(1,2)]) (simp_all add: driven_rate driven_time(4))



theorem frame_rate_limits_witness:
  "run_ggrs_schedules demo_game same_orders 9 (saved_world\<lparr>frame_rate := Some 0\<rparr>) = Some (Inl DivideByZero) \<and>
   run_ggrs_schedules demo_game same_orders 9 (saved_world\<lparr>frame_rate := Some 1000000001\<rparr>) = None"
proof -
  have "fixed_timestep (saved_world\<lparr>frame_rate := r\<rparr>) = Some \<lparr>accumulator = 0, run_slow = False\<rparr>"
    "default_time (saved_world\<lparr>frame_rate := r\<rparr>) \<noteq> None" "session_res (saved_world\<lparr>frame_rate := r\<rparr>) = None" for r
    by (simp_all add: saved_world_def plain_world_def)
  from frame_rate_limits [OF this(1,2), of "Some 0" demo_game same_orders 9]
    frame_rate_limits [OF this(1,2), of "Some 1000000001" demo_game same_orders 9] this(3)
  show ?thesis by (simp add: rate_of_def)
qed


text \<open>A game that was at frame 7 when its session ended.\<close>

theorem restarted_session_panics_witness:
  "\<exists>td1 w1. update_step demo_game (same_orders 0) 1 (\<lparr>accumulator = 1, run_slow = False\<rparr>,
       saved_world\<lparr>rollback_frame_count := Some 7, ggrs_time := Some (116666666, 16666666)\<rparr>) = Inr (td1, w1) \<and>
     handle_request demo_game (demo_orders, AdvanceFrame []) (w1\<lparr>session_res := Some demo_session\<rparr>) = Inl TimeBackwards"
proof -
  let ?w = "saved_world\<lparr>rollback_frame_count := Some 7, ggrs_time := Some (116666666, 16666666)\<rparr>"
  have "time_laws (app_time demo_game)" "session_res ?w = None" "ggrs_time ?w = Some (116666666, 16666666)"
    "frame_rate ?w = Some 60" "(0 :: u64) < 60" "(60 :: u64) \<le> 1000000000" "(0 :: i32) <=s 7" "(1 :: i32) <s 7"
    "elapsed (app_time demo_game) (116666666, 16666666) = frame_nanos 60 7"
    by (simp_all add: demo_game_def demo_app_def saved_world_def plain_world_def frame_nanos_def word_sle_eq word_sless_alt)
  from restarted_session_panics [OF this demo_game_ok(5)] show ?thesis
    unfolding demo_session_def by blast
qed

end
