(* ===== verification/Resimulation.thy ===== *)
theory Resimulation
  imports Prediction
begin

text \<open>
  Two runs of the same requests, on two peers or before and after a rollback. For a game whose schedule
  is a function of what is rolled back, the frames come out the same, with the same checksums, although
  entity ids, identities, the orders of systems and everything outside the rolled back state may differ.
\<close>

section \<open>The game state\<close>

text \<open>The hierarchy by identity.\<close>

definition parent_ids :: "('w, 'v) ecs \<Rightarrow> 'w \<Rightarrow> (rollback_id \<times> rollback_id) set" where
  "parent_ids E x = {(r, q). \<exists>e p. carries E x e r \<and> parent_of E x e = Some p \<and> carries E x p q}"

text \<open>Two worlds that are equal in what is rolled back, identities included, and at the same frame.\<close>

definition same_state ::
  "('w, 'v, 's, 't, 'i, 'x, 'h) app \<Rightarrow> ('w, 'v, 's, 't, 'i, 'x) world \<Rightarrow> ('w, 'v, 's, 't, 'i, 'x) world \<Rightarrow> bool" where
  "same_state A u w \<longleftrightarrow> (let E = app_ecs A in
     {r. \<exists>e. carries E (ecs_state u) e r} = {r. \<exists>e. carries E (ecs_state w) e r} \<and>
     (\<forall>t \<in> fst ` set (comp_plugins A) - fst ` set (comp_map_plugins A).
        map_of (q_components E (ecs_state u) t) = map_of (q_components E (ecs_state w) t)) \<and>
     parent_ids E (ecs_state u) = parent_ids E (ecs_state w) \<and>
     (\<forall>i \<in> fst ` set (res_plugins A) - fst ` set (res_map_plugins A). user_resource u i = user_resource w i) \<and>
     rollback_ordered_res u = rollback_ordered_res w \<and> ggrs_time u = ggrs_time w \<and>
     rollback_frame_count u = rollback_frame_count w \<and> frame_rate u = frame_rate w)"

lemma same_state_refl: "same_state A w w"
  by (simp add: same_state_def)

lemma same_state_sym: "same_state A u w \<Longrightarrow> same_state A w u"
  by (simp add: same_state_def Let_def)

lemma same_state_trans: "same_state A u v \<Longrightarrow> same_state A v w \<Longrightarrow> same_state A u w"
  by (simp add: same_state_def Let_def)

text \<open>
  An identity is the entity id it was given first, which peers need not share and the game does not
  see. What they share is the place of the identity in the order of registration. Two worlds are in the
  same state of the game when, place by place, the same entities are alive, with the same components
  and parents, and the resources and the time are equal.
\<close>

definition id_at :: "('w, 'v, 's, 't, 'i, 'x) world \<Rightarrow> nat \<Rightarrow> rollback_id option" where
  "id_at w i = (case rollback_ordered_res w of
     Some ordered \<Rightarrow> if i < length (iter_sorted ordered) then Some (iter_sorted ordered ! i) else None
   | None \<Rightarrow> None)"

definition stands_at ::
  "('w, 'v, 's, 't, 'i, 'x, 'h) app \<Rightarrow> ('w, 'v, 's, 't, 'i, 'x) world \<Rightarrow> entity \<Rightarrow> nat \<Rightarrow> bool" where
  "stands_at A w e i \<longleftrightarrow> (\<exists>r. id_at w i = Some r \<and> carries (app_ecs A) (ecs_state w) e r)"

definition game_alive :: "('w, 'v, 's, 't, 'i, 'x, 'h) app \<Rightarrow> ('w, 'v, 's, 't, 'i, 'x) world \<Rightarrow> nat set" where
  "game_alive A w = {i. \<exists>e. stands_at A w e i}"

definition game_components ::
  "('w, 'v, 's, 't, 'i, 'x, 'h) app \<Rightarrow> ('w, 'v, 's, 't, 'i, 'x) world \<Rightarrow> nat \<Rightarrow> (nat \<times> 'v) set" where
  "game_components A w t = {(i, v). \<exists>e. stands_at A w e i \<and> comp_of (app_ecs A) (ecs_state w) t e = Some v}"

definition game_parents :: "('w, 'v, 's, 't, 'i, 'x, 'h) app \<Rightarrow> ('w, 'v, 's, 't, 'i, 'x) world \<Rightarrow> (nat \<times> nat) set" where
  "game_parents A w = {(i, j). \<exists>e p. stands_at A w e i \<and> parent_of (app_ecs A) (ecs_state w) e = Some p \<and> stands_at A w p j}"

definition same_game ::
  "('w, 'v, 's, 't, 'i, 'x, 'h) app \<Rightarrow> ('w, 'v, 's, 't, 'i, 'x) world \<Rightarrow> ('w, 'v, 's, 't, 'i, 'x) world \<Rightarrow> bool" where
  "same_game A u w \<longleftrightarrow>
     map_option (\<lambda>ordered. length (iter_sorted ordered)) (rollback_ordered_res u)
       = map_option (\<lambda>ordered. length (iter_sorted ordered)) (rollback_ordered_res w) \<and>
     game_alive A u = game_alive A w \<and> game_parents A u = game_parents A w \<and>
     (\<forall>t \<in> fst ` set (comp_plugins A) - fst ` set (comp_map_plugins A). game_components A u t = game_components A w t) \<and>
     (\<forall>i \<in> fst ` set (res_plugins A) - fst ` set (res_map_plugins A). user_resource u i = user_resource w i) \<and>
     ggrs_time u = ggrs_time w \<and> rollback_frame_count u = rollback_frame_count w \<and> frame_rate u = frame_rate w"

lemma same_game_refl: "same_game A w w"
  by (simp add: same_game_def)

lemma same_game_sym: "same_game A u w \<Longrightarrow> same_game A w u"
  by (simp add: same_game_def)

lemma same_game_trans: "same_game A u v \<Longrightarrow> same_game A v w \<Longrightarrow> same_game A u w"
  by (simp add: same_game_def)

text \<open>Two steps that the game does not see.\<close>

lemma same_game_both:
  assumes "same_game A u w" "same_game A u u'" "same_game A w w'"
  shows "same_game A u' w'"
  using assms by (metis same_game_sym same_game_trans)

text \<open>What the game sees are the entities and the order of registration.\<close>

lemma game_view_cong:
  assumes "ecs_state w' = ecs_state w" "rollback_ordered_res w' = rollback_ordered_res w"
  shows "id_at w' = id_at w" "game_alive A w' = game_alive A w" "game_parents A w' = game_parents A w"
    "game_components A w' = game_components A w"
  using assms by (simp_all add: fun_eq_iff id_at_def game_alive_def game_parents_def game_components_def stands_at_def)

lemma same_game_outer:
  assumes "ecs_state w' = ecs_state w" "rollback_ordered_res w' = rollback_ordered_res w"
    and "user_resource w' = user_resource w" "ggrs_time w' = ggrs_time w"
    and "rollback_frame_count w' = rollback_frame_count w" "frame_rate w' = frame_rate w"
  shows "same_game A w w'"
  using assms(2-) by (simp add: same_game_def game_view_cong [OF assms(1,2)])

text \<open>The same change of the time or the frame on both sides.\<close>

lemma same_game_update:
  assumes "same_game A u w" "ecs_state u' = ecs_state u" "rollback_ordered_res u' = rollback_ordered_res u"
    and "user_resource u' = user_resource u" "frame_rate u' = frame_rate u"
    and "ecs_state w' = ecs_state w" "rollback_ordered_res w' = rollback_ordered_res w"
    and "user_resource w' = user_resource w" "frame_rate w' = frame_rate w"
    and "ggrs_time u' = ggrs_time w'" "rollback_frame_count u' = rollback_frame_count w'"
  shows "same_game A u' w'"
  using assms(1,3-5,7-) by (simp add: same_game_def game_view_cong [OF assms(2,3)] game_view_cong [OF assms(6,7)])

lemma game_view_ids:
  "game_alive A w = {i. \<exists>r. id_at w i = Some r \<and> (\<exists>e. carries (app_ecs A) (ecs_state w) e r)}"
  "game_parents A w = {(i, j). \<exists>r q. id_at w i = Some r \<and> id_at w j = Some q \<and> (r, q) \<in> parent_ids (app_ecs A) (ecs_state w)}"
  "ecs_laws (app_ecs A) \<Longrightarrow> unique_ids (app_ecs A) (ecs_state w) \<Longrightarrow> game_components A w t =
     {(i, v). \<exists>r. id_at w i = Some r \<and> map_of (q_components (app_ecs A) (ecs_state w) t) r = Some v}"
  by (auto simp: game_alive_def game_parents_def game_components_def stands_at_def parent_ids_def q_components_get(1))

lemma same_state_game:
  assumes "ecs_laws (app_ecs A)" "unique_ids (app_ecs A) (ecs_state u)" "unique_ids (app_ecs A) (ecs_state w)"
    and "same_state A u w"
  shows "same_game A u w"
proof -
  note s = assms(4) [unfolded same_state_def Let_def]
  have id: "id_at u = id_at w" using s by (simp add: fun_eq_iff id_at_def)
  have "(\<exists>e. carries (app_ecs A) (ecs_state u) e r) \<longleftrightarrow> (\<exists>e. carries (app_ecs A) (ecs_state w) e r)" for r
    using s [THEN conjunct1] by (simp add: set_eq_iff)
  then have "game_alive A u = game_alive A w" by (simp add: game_view_ids(1) id)
  moreover have "game_parents A u = game_parents A w" using s by (simp add: game_view_ids(2) id)
  moreover have "game_components A u t = game_components A w t"
    if "t \<in> fst ` set (comp_plugins A) - fst ` set (comp_map_plugins A)" for t
  proof -
    have "map_of (q_components (app_ecs A) (ecs_state u) t) = map_of (q_components (app_ecs A) (ecs_state w) t)"
      using s that by simp
    then show ?thesis by (simp add: game_view_ids(3) [OF assms(1)] assms(2,3) id)
  qed
  ultimately show ?thesis using s by (simp add: same_game_def)
qed

text \<open>
  A world between two requests, with the resources of the crate in place. The parents of the entities
  of the game belong to the game, so nothing alive hangs below an entity despawned for rollback.
\<close>

definition fit :: "('w, 'v, 's, 't, 'i, 'x, 'h) app \<Rightarrow> ('w, 'v, 's, 't, 'i, 'x) world \<Rightarrow> bool" where
  "fit A w \<longleftrightarrow> pending w = [] \<and> (\<exists>f. rollback_frame_count w = Some f \<and> 0 <=s f) \<and>
     default_time w \<noteq> None \<and> virtual_time w \<noteq> None \<and> confirmed_frame_count w \<noteq> None \<and>
     unique_ids (app_ecs A) (ecs_state w) \<and> unflagged (app_ecs A) (ecs_state w) \<and>
     parents_tracked (app_ecs A) (ecs_state w) \<and> checksum_ready A w \<and>
     (\<forall>e r. carries (app_ecs A) (ecs_state w) e r \<longrightarrow> (\<exists>i. id_at w i = Some r)) \<and>
     (\<forall>st \<in> set (save_stores A). storage_ok w st)"

text \<open>
  The user's schedule is deterministic: on worlds in the same state of the game, with the same inputs
  and the same time, it leads to the same state of the game, and keeps the world fit. Neither entity ids
  nor identities are part of that state. A schedule may despawn; one that spawns is covered only as far
  as it registers what it spawns, under an identity that is still free.
\<close>

definition deterministic :: "('w, 'v, 's, 't, 'i, 'x, 'h) app \<Rightarrow> bool" where
  "deterministic A \<longleftrightarrow> (\<forall>u w u'. fit A u \<and> fit A w \<and> same_game A u w \<and> player_inputs u = player_inputs w \<and>
     default_time u = default_time w \<and> ggrs_schedule A u = Inr u' \<longrightarrow>
     (\<exists>w'. ggrs_schedule A w = Inr w' \<and> fit A u' \<and> fit A w' \<and> same_game A u' w'))"

lemma storage_ok_storages: "storages w' = storages w \<Longrightarrow> storage_ok w' st = storage_ok w st"
  by (cases st) (simp_all add: storages_def)

text \<open>Steps outside the game state.\<close>

lemma fit_outer:
  assumes "fit A w" "storages w' = storages w" "ecs_state w' = ecs_state w" "pending w' = pending w"
    and "rollback_ordered_res w' = rollback_ordered_res w" "user_resource w' = user_resource w"
    and "checksum_res w' = checksum_res w" "rollback_frame_count w' = Some f" "0 <=s f"
    and "default_time w' \<noteq> None" "virtual_time w' \<noteq> None" "confirmed_frame_count w' \<noteq> None"
  shows "fit A w'"
  using assms(1,3-) by (simp add: fit_def checksum_ready_def storage_ok_storages [OF assms(2)] game_view_cong(1) [OF assms(3,5)])

lemma tracked_below:
  assumes "parents_tracked E x" "below E x p e" "carries E x e r"
  shows "\<exists>q. carries E x p q"
  using assms(2,3)
proof (induction arbitrary: r rule: below.induct)
  case (child p' c)
  have "parent_of E x c = Some p'" using child.hyps(2) by (simp add: parent_of_def)
  then obtain q where "carries E x p' q" using assms(1) child.prems unfolding parents_tracked_def by blast
  then show ?case by (rule child.IH)
qed blast

section \<open>Forgetting despawned entities\<close>

lemma forget_hidden:
  assumes "ecs_laws E" "set (ents E y) = set (ents E x) - K"
    and "\<forall>k e. cget E y k e = (if e \<in> K then None else cget E x k e)" "\<forall>e \<in> K. \<forall>r. \<not> carries E x e r"
  shows "carries E y = carries E x" "carries E x e r \<Longrightarrow> comp_of E y t e = comp_of E x t e"
    "parent_ids E y = parent_ids E x" "unique_ids E x \<Longrightarrow> unique_ids E y" "unflagged E x \<Longrightarrow> unflagged E y"
    "parents_tracked E x \<Longrightarrow> parents_tracked E y" "parts_ok E flags x \<Longrightarrow> parts_ok E flags y"
proof -
  have rid: "rid_of E y e = (if e \<in> K then None else rid_of E x e)"
    and en: "e \<notin> K \<Longrightarrow> enabled E y e = enabled E x e"
    and par: "e \<notin> K \<Longrightarrow> parent_of E y e = parent_of E x e" for e
    using assms(3) by (simp_all add: rid_of_def enabled_def parent_of_def)
  have notin: "carries E x e r \<Longrightarrow> e \<notin> K" for e r using assms(4) by blast
  have "carries E y e r = carries E x e r" for e r
    using rid [of e] en [of e] notin [of e r] by (auto simp: carries_def split: if_splits)
  then show c: "carries E y = carries E x" by (intro ext)
  show "carries E x e r \<Longrightarrow> comp_of E y t e = comp_of E x t e"
    using notin [of e r] assms(3) by (simp add: comp_of_def)
  have p: "carries E x e r \<Longrightarrow> parent_of E y e = parent_of E x e" for e r using notin par by blast
  show "parent_ids E y = parent_ids E x"
    unfolding parent_ids_def c using p by (intro Collect_cong) (force simp: case_prod_beta)
  show "unique_ids E x \<Longrightarrow> unique_ids E y"
    unfolding unique_ids_def rid by (metis option.distinct(1))
  show "unflagged E x \<Longrightarrow> unflagged E y"
    using assms(3) by (simp add: unflagged_def rid)
  show "parents_tracked E x \<Longrightarrow> parents_tracked E y"
    unfolding parents_tracked_def c using p by metis
  have part: "e \<in> set (q_part E flag y) \<longleftrightarrow> e \<in> set (q_part E flag x) \<and> e \<notin> K" for e flag
    using assms(3) by (auto simp: set_q_part [OF assms(1)] enabled_def part_of_def split: if_splits)
  show "parts_ok E flags y" if ok: "parts_ok E flags x"
    unfolding parts_ok_def
  proof (intro conjI ballI allI impI)
    fix flag assume "flag \<in> flags"
    have "distinct (q_part E flag z)" for z using assms(1) by (simp add: q_part_def)
    moreover have "set (q_part E flag y) \<subseteq> set (q_part E flag x)" using part by blast
    ultimately have "length (q_part E flag y) \<le> length (q_part E flag x)"
      by (metis List.finite_set card_mono distinct_card)
    then show "length (q_part E flag y) \<le> 1" using ok \<open>flag \<in> flags\<close> unfolding parts_ok_def by fastforce
  next
    fix e assume e: "enabled E y e \<and> part_of E y e \<noteq> None"
    then have "e \<notin> K" "enabled E x e \<and> part_of E x e \<noteq> None"
      using assms(3) en by (auto simp: part_of_def split: if_splits)
    then show "\<exists>!flag. flag \<in> flags \<and> e \<in> set (q_part E flag y)"
      using ok unfolding parts_ok_def part by blast
  qed
qed

lemma despawn_confirmed_hidden:
  assumes "ecs_laws E" "parents_tracked E x"
  obtains K where "set (ents E (fst (despawn_confirmed_entities E c l x))) = set (ents E x) - K"
    "\<forall>k e. cget E (fst (despawn_confirmed_entities E c l x)) k e = (if e \<in> K then None else cget E x k e)"
    "\<forall>e \<in> K. \<forall>r. \<not> carries E x e r"
proof (cases "c = l")
  case True
  then show ?thesis by (intro that [of "{}"]) (simp_all add: despawn_confirmed_entities_def)
next
  case False
  have alive: "\<not> carries E x e r" if e: "e \<in> expired E x c" for e r
  proof -
    obtain p d where "despawned_of E x p = Some d" "below E x p e" using e by (auto simp: expired_def)
    moreover from this have "\<not> enabled E x p" by (auto simp: despawned_of_def enabled_def split: option.splits)
    ultimately show ?thesis using tracked_below [OF assms(2)] by (auto simp: carries_def)
  qed
  obtain y where y: "despawn_confirmed_entities E c l x = (y, c)"
    "set (ents E y) = set (ents E x) - expired E x c"
    "\<forall>k e. cget E y k e = (if e \<in> expired E x c then None else cget E x k e)"
    by (rule despawn_confirmed_effect [OF assms(1) False])
  show ?thesis by (intro that [of "expired E x c"]) (use y alive in simp_all)
qed

text \<open>Despawning what no later load can enable is a step outside the game state.\<close>

lemma frame_world_same:
  assumes "app_ok A" "fit A w" "t0 = ggrs_time w"
  shows "fit A (frame_world A c t w)" "same_game A ((frame_world A c t w)\<lparr>ggrs_time := t0\<rparr>) w"
proof -
  let ?E = "app_ecs A" and ?x = "ecs_state w"
  let ?y = "fst (despawn_confirmed_entities ?E c (last_confirmed w) ?x)"
  have laws: "ecs_laws ?E" using assms(1) by (simp add: app_ok_def)
  have w: "parents_tracked ?E ?x" "unique_ids ?E ?x" "unflagged ?E ?x" "checksum_ready A w" "pending w = []"
    using assms(2) by (simp_all add: fit_def)
  obtain K where K: "set (ents ?E ?y) = set (ents ?E ?x) - K"
    "\<forall>k e. cget ?E ?y k e = (if e \<in> K then None else cget ?E ?x k e)" "\<forall>e \<in> K. \<forall>r. \<not> carries ?E ?x e r"
    by (rule despawn_confirmed_hidden [OF laws w(1)])
  note f = forget_hidden [OF laws K]
  have u: "unique_ids ?E ?y" "unflagged ?E ?y" "parents_tracked ?E ?y" using f(4-6) w(1-3) by blast+
  have comps: "map_of (q_components ?E ?y t) = map_of (q_components ?E ?x t)" for t
  proof
    fix r
    have "map_of (q_components ?E ?y t) r = Some v \<longleftrightarrow> map_of (q_components ?E ?x t) r = Some v" for v
      unfolding q_components_get(1) [OF laws u(1)] q_components_get(1) [OF laws w(2)] f(1) using f(2) by force
    then show "map_of (q_components ?E ?y t) r = map_of (q_components ?E ?x t) r" by (rule option_eqI)
  qed
  have "set (q_checksum ?E t ?y) = set (q_checksum ?E t ?x)" for t
    using map_of_inject_set [OF q_components_get(2) [OF laws u(1)] q_components_get(2) [OF laws w(2)], of t t] comps [of t]
    by (simp add: q_checksum_unflagged [OF u(2)] q_checksum_unflagged [OF w(3)])
  then have "checksum_ready A (frame_world A c t w)"
    using w(4) f(7) by (simp add: checksum_ready_def frame_world_def)
  moreover have "storage_ok (frame_world A c t w) st = storage_ok w st" for st :: "('b, 'c) save_store"
    by (rule storage_ok_storages) (simp add: frame_world_def storages_def)
  ultimately show "fit A (frame_world A c t w)"
    using assms(2) u by (simp add: fit_def id_at_def) (simp add: frame_world_def f(1))
  have "same_state A ((frame_world A c t w)\<lparr>ggrs_time := t0\<rparr>) w"
    using assms(3) comps f(1,3) by (simp add: same_state_def frame_world_def)
  moreover have "ecs_state ((frame_world A c t w)\<lparr>ggrs_time := t0\<rparr>) = ?y" by (simp add: frame_world_def)
  ultimately show "same_game A ((frame_world A c t w)\<lparr>ggrs_time := t0\<rparr>) w"
    using u(1) w(2) by (intro same_state_game [OF laws]) simp_all
qed

section \<open>Advancing a frame\<close>

lemma after_main_fit:
  assumes "fit A w"
  obtains w' where "after_main A w = Inr w'" "fit A w'" "same_game A w w'" "session_res w' = session_res w"
proof -
  obtain d v where v: "default_time w = Some d" "virtual_time w = Some v" "pending w = []"
    using assms by (auto simp: fit_def)
  let ?w = "w\<lparr>default_time := Some (replace_default_with_virtual (app_time A) v d)\<rparr>"
  have "after_main A w = Inr ?w"
    using v by (simp add: after_main_def run_replace_with_virtual_def apply_deferred_empty)
  moreover obtain f where "rollback_frame_count w = Some f" "0 <=s f" using assms by (auto simp: fit_def)
  then have "fit A ?w"
    using assms by (intro fit_outer [OF assms]) (simp_all add: fit_def storages_def)
  moreover have "same_game A w ?w" by (rule same_game_outer) simp_all
  ultimately show ?thesis using that [of ?w] by simp
qed

lemma advance_runs_on:
  assumes "admissible advance_before advance_systems xs" "fit A w" "advance_world A xs w = Inr w'"
  obtains t0 rate f c t where "ggrs_time w = Some t0" "frame_rate w = Some rate" "rollback_frame_count w = Some f"
    "confirmed_frame_count w = Some c" "update_time (app_time A) rate f t0 = Inr t"
    "rbind (ggrs_schedule A (frame_world A c t w)) (after_main A) = Inr w'"
proof -
  obtain ys where xs: "xs = UpdateTime # ys" using advance_orders [OF assms(1)] by (metis append_Cons)
  have "\<exists>u. run_advance A UpdateTime w = Inr u"
    using assms(3) by (auto simp: advance_world_def run_schedule_def xs rbind_Inr_iff simp del: run_advance.simps)
  then obtain t0 rate f t where t: "ggrs_time w = Some t0" "frame_rate w = Some rate" "rollback_frame_count w = Some f"
    "update_time (app_time A) rate f t0 = Inr t"
    by (auto simp: run_update_time_def rbind_Inr_iff)
  obtain d c where d: "default_time w = Some d" "confirmed_frame_count w = Some c" "pending w = []"
    using assms(2) by (auto simp: fit_def)
  from advance_effect [OF assms(1) d(3) t(1-3) d(1,2) t(4)] assms(3) that [OF t(1-3) d(2) t(4)]
  show ?thesis by simp
qed

lemma advance_world_same:
  assumes "app_ok A" "deterministic A" "fit A u" "fit A w" "same_game A u w" "player_inputs u = player_inputs w"
    and "admissible advance_before advance_systems xs" "admissible advance_before advance_systems ys"
    and "advance_world A xs u = Inr u'"
  shows "\<exists>w'. advance_world A ys w = Inr w' \<and> fit A u' \<and> fit A w' \<and> same_game A u' w'"
proof -
  obtain t0 rate f c t where u: "ggrs_time u = Some t0" "frame_rate u = Some rate" "rollback_frame_count u = Some f"
    "confirmed_frame_count u = Some c" "update_time (app_time A) rate f t0 = Inr t"
    "rbind (ggrs_schedule A (frame_world A c t u)) (after_main A) = Inr u'"
    by (rule advance_runs_on [OF assms(7,3,9)])
  have w: "ggrs_time w = Some t0" "frame_rate w = Some rate" "rollback_frame_count w = Some f"
    using assms(5) u(1-3) by (simp_all add: same_game_def)
  obtain c' d where c': "confirmed_frame_count w = Some c'" "default_time w = Some d" "pending w = []"
    using assms(4) by (auto simp: fit_def)
  let ?u = "frame_world A c t u" and ?w = "frame_world A c' t w"
  note fu = frame_world_same [OF assms(1,3) refl, of c t] and fw = frame_world_same [OF assms(1,4) refl, of c' t]
  have "same_game A (?u\<lparr>ggrs_time := ggrs_time u\<rparr>) (?w\<lparr>ggrs_time := ggrs_time w\<rparr>)"
    using assms(5) fu(2) fw(2) same_game_sym same_game_trans by blast
  then have same: "same_game A ?u ?w"
    by (rule same_game_update) (simp_all add: frame_world_def w(2,3) u(2,3))
  obtain a where a: "ggrs_schedule A ?u = Inr a" "after_main A a = Inr u'" using u(6) by auto
  have "player_inputs ?u = player_inputs ?w \<and> default_time ?u = default_time ?w"
    using assms(6) by (simp add: frame_world_def)
  then obtain b where b: "ggrs_schedule A ?w = Inr b" "fit A a" "fit A b" "same_game A a b"
    using assms(2) fu(1) fw(1) same a(1) unfolding deterministic_def by blast
  obtain a' where a': "after_main A a = Inr a'" "fit A a'" "same_game A a a'" by (rule after_main_fit [OF b(2)])
  obtain b' where b': "after_main A b = Inr b'" "fit A b'" "same_game A b b'" by (rule after_main_fit [OF b(3)])
  have "advance_world A ys w = Inr b'"
    using advance_effect [OF assms(8) c'(3) w c'(2,1) u(5)] b(1) b'(1) by simp
  then show ?thesis using a(2) a' b' same_game_both [OF b(4) a'(3) b'(3)] by auto
qed

section \<open>Saving a frame\<close>

lemma same_simulation_state:
  assumes "ecs_laws (app_ecs A)" "same_simulation A w w'" "unique_ids (app_ecs A) (ecs_state w)"
  shows "same_state A w w'" "default_time w' = default_time w" "virtual_time w' = virtual_time w"
    "confirmed_frame_count w' = confirmed_frame_count w" "session_res w' = session_res w"
    "rollback_frame_count w' = rollback_frame_count w"
proof -
  let ?E = "app_ecs A"
  have o: "only_storages (w\<lparr>ecs_state := ecs_state w', checksum_res := checksum_res w'\<rparr>) w'"
    using assms(2) by (simp add: same_simulation_def)
  have k: "cget ?E (ecs_state w') ChildOfKey e = cget ?E (ecs_state w) ChildOfKey e" for e
    using assms(2) unfolding same_simulation_def by blast
  note a = same_simulation_agree [OF assms]
  have "parent_ids ?E (ecs_state w') = parent_ids ?E (ecs_state w)"
    unfolding parent_ids_def a(1) parent_of_def k ..
  moreover show "default_time w' = default_time w" "virtual_time w' = virtual_time w"
    "confirmed_frame_count w' = confirmed_frame_count w" "session_res w' = session_res w"
    "rollback_frame_count w' = rollback_frame_count w"
    by (subst o [unfolded only_storages_def], simp)+
  moreover have "frame_rate w' = frame_rate w" "ggrs_time w' = ggrs_time w"
    by (subst o [unfolded only_storages_def], simp)+
  ultimately show "same_state A w w'"
    using a by (simp add: same_state_def Let_def)
qed

lemma tracked_same:
  assumes "\<And>k e. k \<noteq> PartKey \<Longrightarrow> \<forall>flag. k \<noteq> FlagKey flag \<Longrightarrow> cget E y k e = cget E x k e" "parents_tracked E x"
  shows "parents_tracked E y"
proof -
  have "carries E y = carries E x" "parent_of E y = parent_of E x"
    by (simp_all add: fun_eq_iff carries_def enabled_def rid_of_def parent_of_def assms(1))
  then show ?thesis using assms(2) by (simp only: parents_tracked_def)
qed

lemma save_world_same:
  assumes "app_ok A" "checksums_ok A" "fit A w" "max_prediction_window w = Some d" "0 < d"
    and "admissible save_before (save_systems A) xs"
  obtains w' where "save_world A xs w = Inr w'" "fit A w'" "same_game A w w'"
    "checksum_res w' = Some (frame_checksum A w)" "session_res w' = session_res w"
proof -
  let ?E = "app_ecs A"
  have laws: "ecs_laws ?E" using assms(1) by (simp add: app_ok_def)
  obtain f where f: "rollback_frame_count w = Some f" "0 <=s f" using assms(3) by (auto simp: fit_def)
  have sv: "saveable A w f d" using assms(3-5) f by (simp add: saveable_def fit_def)
  obtain w' where w': "save_world A xs w = Inr w'" "same_simulation A w w'"
    "checksum_res w' = Some (frame_checksum A w)"
    "\<forall>s \<in> set (load_systems A). stored ?E f w' w' s" "parts_ok ?E (part_flags A) (ecs_state w')"
    by (rule save_effect [OF assms(1,2,6) sv])
  have u: "unique_ids ?E (ecs_state w)" "unflagged ?E (ecs_state w)" "parents_tracked ?E (ecs_state w)"
    using assms(3) by (simp_all add: fit_def)
  note g = same_simulation_state [OF laws w'(2) u(1)] and a = same_simulation_agree [OF laws w'(2) u(1)]
  have k: "cget ?E (ecs_state w') k e = cget ?E (ecs_state w) k e" if "k \<noteq> PartKey" "\<forall>flag. k \<noteq> FlagKey flag" for k e
    using w'(2) that unfolding same_simulation_def by blast
  have rid: "rid_of ?E (ecs_state w') = rid_of ?E (ecs_state w)" by (simp add: fun_eq_iff rid_of_def k)
  have unf: "unflagged ?E (ecs_state w')"
    unfolding unflagged_def rid
  proof (intro allI impI)
    fix e flag assume r: "rid_of ?E (ecs_state w) e \<noteq> None"
    then have "e \<in> set (ents ?E (ecs_state w))" using rid_live [OF laws] by auto
    then have "cget ?E (ecs_state w') (FlagKey flag) e = cget ?E (ecs_state w) (FlagKey flag) e"
      using w'(2) unfolding same_simulation_def by blast
    then show "cget ?E (ecs_state w') (FlagKey flag) e = None" using u(2) r by (simp add: unflagged_def)
  qed
  have q: "set (q_checksum ?E t (ecs_state w')) = set (q_checksum ?E t (ecs_state w))" for t
    using map_of_inject_set [OF q_components_get(2) [OF laws a(2)] q_components_get(2) [OF laws u(1)], of t t] a(3) [of t]
    by (simp add: q_checksum_unflagged [OF unf] q_checksum_unflagged [OF u(2)])
  then have "checksum_ready A w'"
    using assms(3) w'(3,5) a(4,5) by (simp add: fit_def checksum_ready_def)
  moreover have "storage_ok w' st" if "st \<in> set (save_stores A)" for st
    by (rule kept_storage_ok [OF stored_of_systems [OF w'(4) that]])
  moreover have "pending w' = []" using schedule_outer(2) [OF w'(1)] by simp
  moreover have "parents_tracked ?E (ecs_state w')" by (rule tracked_same [OF k u(3)])
  moreover have "same_game A w w'" by (rule same_state_game [OF laws u(1) a(2) g(1)])
  moreover have "id_at w' = id_at w" "\<And>e r. carries ?E (ecs_state w') e r = carries ?E (ecs_state w) e r"
    using a(1,5) by (simp_all add: fun_eq_iff id_at_def)
  ultimately have "fit A w'" "same_game A w w'" using assms(3) a(2) unf g(2-6) by (simp_all add: fit_def)
  then show ?thesis using that w'(1,3) g(5) by blast
qed

text \<open>
  Two worlds in the same state of the game have the same checksum: the entity checksum counts places,
  and the checksum of a type hashes each component with the place of its identity.
\<close>

lemma fit_places:
  assumes "fit A w"
  obtains ordered where "rollback_ordered_res w = Some ordered" "ordered_ok ordered"
    "\<And>i. id_at w i = (if i < length (sorted_ids ordered) then Some (sorted_ids ordered ! i) else None)"
    "\<And>e r. carries (app_ecs A) (ecs_state w) e r \<Longrightarrow> \<exists>i. id_at w i = Some r"
    "\<And>i j r. id_at w i = Some r \<Longrightarrow> id_at w j = Some r \<Longrightarrow> i = j"
proof -
  obtain ordered where o: "rollback_ordered_res w = Some ordered" "ordered_ok ordered"
    using assms by (auto simp: fit_def checksum_ready_def)
  have at: "id_at w i = (if i < length (sorted_ids ordered) then Some (sorted_ids ordered ! i) else None)" for i
    by (simp add: id_at_def o(1) iter_sorted_def)
  moreover have "i = j" if "id_at w i = Some r" "id_at w j = Some r" for i j r
    using that o(2) by (auto simp: at ordered_ok_def nth_eq_iff_index_eq split: if_splits)
  moreover have "\<exists>i. id_at w i = Some r" if "carries (app_ecs A) (ecs_state w) e r" for e r
    using assms that by (simp add: fit_def)
  ultimately show ?thesis using that o by blast
qed

lemma game_alive_card:
  assumes "app_ok A" "fit A w"
  shows "active_entities (app_ecs A) (ecs_state w) = card (game_alive A w)"
proof -
  have laws: "ecs_laws (app_ecs A)" using assms(1) by (simp add: app_ok_def)
  obtain ordered where o: "\<And>e r. carries (app_ecs A) (ecs_state w) e r \<Longrightarrow> \<exists>i. id_at w i = Some r"
    "\<And>i j r. id_at w i = Some r \<Longrightarrow> id_at w j = Some r \<Longrightarrow> i = j"
    by (rule fit_places [OF assms(2)]) blast
  have "bij_betw (\<lambda>i. the (id_at w i)) (game_alive A w) {r. \<exists>e. carries (app_ecs A) (ecs_state w) e r}"
    unfolding bij_betw_def
  proof
    show "inj_on (\<lambda>i. the (id_at w i)) (game_alive A w)"
      using o(2) by (auto simp: inj_on_def game_view_ids(1))
    show "(\<lambda>i. the (id_at w i)) ` game_alive A w = {r. \<exists>e. carries (app_ecs A) (ecs_state w) e r}"
      using o(1) by (force simp: game_view_ids(1) image_iff)
  qed
  moreover have "active_entities (app_ecs A) (ecs_state w) = card {r. \<exists>e. carries (app_ecs A) (ecs_state w) e r}"
    using assms(2) by (intro active_entities_ids [OF laws]) (simp_all add: fit_def)
  ultimately show ?thesis using bij_betw_same_card by force
qed

lemma game_keyed:
  assumes "app_ok A" "fit A w" "rollback_ordered_res w = Some ordered"
  shows "mset (keyed ordered (q_checksum (app_ecs A) t (ecs_state w)))
    = image_mset (\<lambda>(i, v). (Inr (of_nat i), v)) (mset_set (game_components A w t))"
proof -
  let ?E = "app_ecs A" and ?rows = "q_components (app_ecs A) (ecs_state w) t" and ?id = "\<lambda>i. the (id_at w i)"
  have laws: "ecs_laws ?E" using assms(1) by (simp add: app_ok_def)
  have w: "unique_ids ?E (ecs_state w)" "unflagged ?E (ecs_state w)" using assms(2) by (simp_all add: fit_def)
  obtain o' where o': "rollback_ordered_res w = Some o'" "ordered_ok o'"
    "\<And>i. id_at w i = (if i < length (sorted_ids o') then Some (sorted_ids o' ! i) else None)"
    "\<And>e r. carries ?E (ecs_state w) e r \<Longrightarrow> \<exists>i. id_at w i = Some r"
    "\<And>i j r. id_at w i = Some r \<Longrightarrow> id_at w j = Some r \<Longrightarrow> i = j"
    by (rule fit_places [OF assms(2)]) blast
  have o: "o' = ordered" using o'(1) assms(3) by simp
  have comps: "(i, v) \<in> game_components A w t \<longleftrightarrow> (\<exists>r. id_at w i = Some r \<and> (r, v) \<in> set ?rows)" for i v
    using map_of_eq_Some_iff [OF q_components_get(2) [OF laws w(1)]] by (simp add: game_view_ids(3) [OF laws w(1)])
  have inj: "inj_on (\<lambda>(i, v). (?id i, v)) (game_components A w t)"
    using o'(5) by (auto simp: inj_on_def comps)
  have image: "(\<lambda>(i, v). (?id i, v)) ` game_components A w t = set ?rows"
  proof
    show "(\<lambda>(i, v). (?id i, v)) ` game_components A w t \<subseteq> set ?rows" by (auto simp: comps)
    show "set ?rows \<subseteq> (\<lambda>(i, v). (?id i, v)) ` game_components A w t"
    proof
      fix x assume x: "x \<in> set ?rows"
      obtain r v where rv: "x = (r, v)" by (cases x)
      then have "map_of ?rows r = Some v" using x map_of_eq_Some_iff [OF q_components_get(2) [OF laws w(1)]] by simp
      then obtain e where "carries ?E (ecs_state w) e r" using q_components_get(1) [OF laws w(1)] by blast
      then obtain i where "id_at w i = Some r" using o'(4) by blast
      then have "(i, v) \<in> game_components A w t" "x = (\<lambda>(i, v). (?id i, v)) (i, v)" using x rv by (auto simp: comps)
      then show "x \<in> (\<lambda>(i, v). (?id i, v)) ` game_components A w t" by (rule rev_image_eqI)
    qed
  qed
  from image have "mset_set (set ?rows) = image_mset (\<lambda>(i, v). (?id i, v)) (mset_set (game_components A w t))"
    using image_mset_mset_set [OF inj] by simp
  moreover have "distinct ?rows" using q_components_get(2) [OF laws w(1)] by (simp add: distinct_map)
  ultimately have rows: "mset ?rows = image_mset (\<lambda>(i, v). (?id i, v)) (mset_set (game_components A w t))"
    using mset_set_set by metis
  have place: "order ordered (?id i) = Inr (of_nat i)" if "(i, v) \<in> game_components A w t" for i v
    using that o'(2,3) order_nth [of o' i] by (auto simp: comps o split: if_splits)
  have "finite (game_components A w t)"
    by (rule finite_imageD [OF _ inj]) (simp add: image)
  then have "mset (keyed ordered ?rows) = image_mset (\<lambda>(i, v). (Inr (of_nat i), v)) (mset_set (game_components A w t))"
    unfolding keyed_def mset_map rows multiset.map_comp
    by (intro image_mset_cong) (use place in \<open>auto simp: case_prod_beta\<close>)
  then show ?thesis by (simp add: q_checksum_unflagged [OF w(2)])
qed

lemma same_game_checksum:
  assumes "app_ok A" "checksums_restored A" "fit A u" "fit A w" "same_game A u w"
  shows "frame_checksum A u = frame_checksum A w"
proof -
  let ?E = "app_ecs A"
  obtain ou where ou: "rollback_ordered_res u = Some ou" "ordered_ok ou"
    "\<forall>t \<in> fst ` set (comp_checksums A). \<forall>(r, c) \<in> set (q_checksum ?E t (ecs_state u)). registered ou r"
    using assms(3) by (auto simp: fit_def checksum_ready_def)
  obtain ow where ow: "rollback_ordered_res w = Some ow" "ordered_ok ow"
    "\<forall>t \<in> fst ` set (comp_checksums A). \<forall>(r, c) \<in> set (q_checksum ?E t (ecs_state w)). registered ow r"
    using assms(4) by (auto simp: fit_def checksum_ready_def)
  note g = assms(5) [unfolded same_game_def]
  have len: "len_ordered ou = len_ordered ow"
    using g ou(1,2) ow(1,2) by (simp add: len_ordered_def ordered_ok_def iter_sorted_def)
  have alive: "active_entities ?E (ecs_state u) = active_entities ?E (ecs_state w)"
    using g by (simp add: game_alive_card [OF assms(1)] assms(3,4))
  have comp: "sys_value A u (ComponentChecksum t h) = sys_value A w (ComponentChecksum t h)"
    if t: "(t, h) \<in> set (comp_checksums A)" for t h
  proof -
    have "t \<in> fst ` set (comp_plugins A) - fst ` set (comp_map_plugins A)"
      using assms(2) imageI [OF t, of fst] unfolding checksums_restored_def by auto
    then have "game_components A u t = game_components A w t" using g by blast
    then have "mset (keyed ou (q_checksum ?E t (ecs_state u))) = mset (keyed ow (q_checksum ?E t (ecs_state w)))"
      using game_keyed [OF assms(1,3) ou(1)] game_keyed [OF assms(1,4) ow(1)] by simp
    then have "mset (map (row_hash (app_hasher A) h) (keyed ou (q_checksum ?E t (ecs_state u))))
        = mset (map (row_hash (app_hasher A) h) (keyed ow (q_checksum ?E t (ecs_state w))))"
      by (simp only: mset_map)
    note perm = xor_fold_perm [OF this, of 0]
    have "t \<in> fst ` set (comp_checksums A)" using imageI [OF t, of fst] by simp
    then have "\<forall>(r, c) \<in> set (q_checksum ?E t (ecs_state u)). registered ou r"
      "\<forall>(r, c) \<in> set (q_checksum ?E t (ecs_state w)). registered ow r"
      by (rule bspec [OF ou(3)], rule bspec [OF ow(3)])
    from component_checksum_eq [OF keyed_registered [OF ou(2) this(1)], of "app_hasher A" h]
      component_checksum_eq [OF keyed_registered [OF ow(2) this(2)], of "app_hasher A" h]
    show ?thesis by (simp add: ou(1) ow(1) perm)
  qed
  have res: "user_resource u i = user_resource w i" if i: "i \<in> fst ` set (res_checksums A)" for i
  proof -
    have "i \<in> fst ` set (res_plugins A) - fst ` set (res_map_plugins A)"
      by (rule subsetD [OF _ i]) (use assms(2) in \<open>simp add: checksums_restored_def\<close>)
    then show ?thesis using g by simp
  qed
  have "sys_value A u s = sys_value A w s" if s: "s \<in> set (checksum_systems A)" for s
  proof -
    have ent: "sys_value A u EntityChecksum = sys_value A w EntityChecksum"
      by (simp add: ou(1) ow(1) entity_checksum_def alive len)
    consider "s = EntityChecksum" | t h where "s = ComponentChecksum t h" "(t, h) \<in> set (comp_checksums A)"
      | i h where "s = ResourceChecksum i h" "(i, h) \<in> set (res_checksums A)" | "\<forall>v. sys_value A v s = Inr 0"
      using s by (auto simp: checksum_systems_def)
    then show ?thesis
    proof cases
      case 3
      then have "user_resource u i = user_resource w i" using imageI [of _ _ fst] by (intro res) force
      then show ?thesis by (simp add: 3(1))
    qed (simp_all add: ent comp del: sys_value.simps)
  qed
  then show ?thesis unfolding frame_checksum_def by (simp cong: map_cong)
qed

section \<open>Requests\<close>

text \<open>A session that keeps a window and whose confirmed frame can always be computed.\<close>

definition steady :: "('x, 'i) session_ops \<Rightarrow> 'x session \<Rightarrow> bool" where
  "steady G s \<longleftrightarrow> (\<exists>d. session_window G (Some s) = Some d \<and> 0 < d) \<and>
     (\<forall>f. 0 <=s f \<longrightarrow> (\<exists>c. session_confirmed G f (Some s) = Inr c))"

definition playable :: "('w, 'v, 's, 't, 'i, 'x, 'h) app \<Rightarrow> ('w, 'v, 's, 't, 'i, 'x) world \<Rightarrow> bool" where
  "playable A w \<longleftrightarrow> fit A w \<and> (\<exists>s. session_res w = Some s \<and> steady (app_session A) s)"

lemma steady_cell: "cells_only G \<Longrightarrow> steady G (map_session (cell_save G c f x) s) = steady G s"
  by (cases s) (simp_all add: steady_def session_window_def session_confirmed_def cells_only_def)

lemma prepare_playable:
  assumes "playable A w"
  obtains v d where "prepare_request (app_session A) w = Inr v" "playable A v" "same_game A w v"
    "max_prediction_window v = Some d" "0 < d"
proof -
  have w: "fit A w" using assms by (simp add: playable_def)
  then have r: "default_time w \<noteq> None" "virtual_time w \<noteq> None" "confirmed_frame_count w \<noteq> None"
    by (simp_all add: fit_def)
  obtain f s d where f: "rollback_frame_count w = Some f" "0 <=s f" and s: "session_res w = Some s" "steady (app_session A) s"
    and d: "session_window (app_session A) (Some s) = Some d" "0 < d"
    using assms by (auto simp: playable_def fit_def steady_def)
  then obtain c where c: "session_confirmed (app_session A) f (Some s) = Inr c" by (auto simp: steady_def)
  define v where "v = w\<lparr>max_prediction_window := Some d,
    confirmed_frame_count := (case c of Some x \<Rightarrow> Some x | None \<Rightarrow> confirmed_frame_count w)\<rparr>"
  have "prepare_request (app_session A) w = Inr v"
    using f s d c by (simp add: prepare_request_def request_frame_def v_def split: option.split)
  moreover have "fit A v"
  proof (rule fit_outer [OF w])
    show "confirmed_frame_count v \<noteq> None" using r(3) by (simp add: v_def split: option.split)
  qed (use f r in \<open>simp_all add: v_def storages_def\<close>)
  then have "playable A v" using s by (simp add: playable_def v_def)
  moreover have "same_game A w v" by (rule same_game_outer) (simp_all add: v_def)
  ultimately show ?thesis using that d(2) by (simp add: v_def)
qed

lemma save_request_same:
  assumes "app_ok A" "checksums_ok A" "checksums_restored A" "cells_only (app_session A)" "playable A w"
    and "orders_admissible A os"
  obtains w' where "handle_request A (os, SaveGameState cell h) w = Inr w'" "playable A w'" "same_game A w w'"
    "checksum_res w' = Some (frame_checksum A w)"
proof -
  obtain v d where v: "prepare_request (app_session A) w = Inr v" "playable A v" "same_game A w v"
    "max_prediction_window v = Some d" "0 < d"
    by (rule prepare_playable [OF assms(5)])
  have fv: "fit A v" using v(2) by (simp add: playable_def)
  have o: "admissible save_before (save_systems A) (save_order os)" using assms(6) by (simp add: orders_admissible_def)
  obtain u where u: "save_world A (save_order os) v = Inr u" "fit A u" "same_game A v u"
    "checksum_res u = Some (frame_checksum A v)" "session_res u = session_res v"
    by (rule save_world_same [OF assms(1,2) fv v(4,5) o])
  let ?w = "save_cell (app_session A) cell h (checksum_res u) u"
  have run: "handle_request A (os, SaveGameState cell h) w = Inr ?w"
    by (simp add: handle_request_def v(1) u(1))
  obtain f where "rollback_frame_count u = Some f" "0 <=s f" using u(2) by (auto simp: fit_def)
  moreover have "default_time u \<noteq> None" "virtual_time u \<noteq> None" "confirmed_frame_count u \<noteq> None"
    using u(2) by (simp_all add: fit_def)
  ultimately have "fit A ?w"
    by (intro fit_outer [OF u(2), of _ f]) (simp_all add: save_cell_def storages_def)
  moreover have "session_res ?w = map_option (map_session (cell_save (app_session A) cell h (checksum_res u))) (session_res v)"
    by (simp add: save_cell_def u(5))
  ultimately have p: "playable A ?w" using v(2) by (auto simp: playable_def steady_cell [OF assms(4)])
  have "same_game A u ?w" by (rule same_game_outer) (simp_all add: save_cell_def)
  then have g: "same_game A w ?w" using v(3) u(3) same_game_trans by blast
  have "frame_checksum A v = frame_checksum A w"
    using same_game_checksum [OF assms(1,3) _ fv v(3)] assms(5) by (simp add: playable_def)
  then show ?thesis using that [OF run p g] u(4) by (simp add: save_cell_def)
qed

lemma begin_frame_fit:
  assumes "fit A v" "checked_add f 1 = Inr f'" "rollback_frame_count v = Some f"
  shows "fit A (v\<lparr>rollback_frame_count := Some f', player_inputs := i\<rparr>)"
proof -
  obtain g where "rollback_frame_count v = Some g" "0 <=s g" using assms(1) by (auto simp: fit_def)
  then have "0 \<le> sint f" using assms(3) by (simp add: word_sle_eq)
  then have "0 <=s f'" using checked_add_one [OF assms(2), THEN conjunct2] by (simp add: word_sle_eq)
  moreover have "default_time v \<noteq> None" "virtual_time v \<noteq> None" "confirmed_frame_count v \<noteq> None"
    using assms(1) by (simp_all add: fit_def)
  ultimately show ?thesis by (intro fit_outer [OF assms(1), of _ f']) (simp_all add: storages_def)
qed

lemma end_frame_fit: "fit A w \<Longrightarrow> fit A (w\<lparr>player_inputs := i\<rparr>)"
proof -
  assume w: "fit A w"
  then obtain f where "rollback_frame_count w = Some f" "0 <=s f" by (auto simp: fit_def)
  moreover have "default_time w \<noteq> None" "virtual_time w \<noteq> None" "confirmed_frame_count w \<noteq> None"
    using w by (simp_all add: fit_def)
  ultimately show ?thesis by (intro fit_outer [OF w, of _ f]) (simp_all add: storages_def)
qed

lemma advance_request_same:
  assumes "app_ok A" "tame (ggrs_schedule A)" "deterministic A" "playable A u" "playable A w" "same_game A u w"
    and "orders_admissible A os" "orders_admissible A os'" "handle_request A (os, AdvanceFrame i) u = Inr u'"
  shows "\<exists>w'. handle_request A (os', AdvanceFrame i) w = Inr w' \<and> playable A u' \<and> playable A w' \<and> same_game A u' w'"
proof -
  obtain u1 d where u1: "prepare_request (app_session A) u = Inr u1" "playable A u1" "same_game A u u1"
    by (rule prepare_playable [OF assms(4)])
  obtain w1 d' where w1: "prepare_request (app_session A) w = Inr w1" "playable A w1" "same_game A w w1"
    by (rule prepare_playable [OF assms(5)])
  have s1: "same_game A u1 w1" by (rule same_game_both [OF assms(6) u1(3) w1(3)])
  obtain f f' a where f: "rollback_frame_count u1 = Some f" "checked_add f 1 = Inr f'"
    "advance_world A (advance_order os) (u1\<lparr>rollback_frame_count := Some f', player_inputs := Some i\<rparr>) = Inr a"
    "u' = a\<lparr>player_inputs := None\<rparr>"
    using assms(9) u1(1) by (auto simp: handle_request_def rbind_Inr_iff)
  let ?u = "u1\<lparr>rollback_frame_count := Some f', player_inputs := Some i\<rparr>"
    and ?w = "w1\<lparr>rollback_frame_count := Some f', player_inputs := Some i\<rparr>"
  have fw: "rollback_frame_count w1 = Some f" using s1 f(1) by (simp add: same_game_def)
  have "fit A u1" "fit A w1" using u1(2) w1(2) by (simp_all add: playable_def)
  then have "fit A ?u" "fit A ?w"
    by (intro begin_frame_fit [OF _ f(2,1)], simp, intro begin_frame_fit [OF _ f(2) fw], simp)
  moreover have "same_game A ?u ?w"
    using s1 by (rule same_game_update) (use s1 in \<open>simp_all add: same_game_def\<close>)
  moreover have "admissible advance_before advance_systems (advance_order os)"
    "admissible advance_before advance_systems (advance_order os')"
    using assms(7,8) by (simp_all add: orders_admissible_def)
  ultimately obtain b where b: "advance_world A (advance_order os') ?w = Inr b" "fit A a" "fit A b" "same_game A a b"
    using advance_world_same [OF assms(1,3), of ?u ?w, OF _ _ _ _ _ _ f(3)] by auto
  have run: "handle_request A (os', AdvanceFrame i) w = Inr (b\<lparr>player_inputs := None\<rparr>)"
    by (simp add: handle_request_def w1(1) fw f(2) b(1))
  have "session_res a = session_res u1" "session_res b = session_res w1"
    using schedule_outer(3) [OF assms(2) f(3)] schedule_outer(3) [OF assms(2) b(1)] by (simp_all add: control_def)
  then have "playable A u'" "playable A (b\<lparr>player_inputs := None\<rparr>)"
    using u1(2) w1(2) end_frame_fit [OF b(2)] end_frame_fit [OF b(3)] by (simp_all add: playable_def f(4))
  moreover have "same_game A u' (b\<lparr>player_inputs := None\<rparr>)" using b(4)
    by (rule same_game_update) (use b(4) in \<open>simp_all add: same_game_def f(4)\<close>)
  ultimately show ?thesis using run by blast
qed

text \<open>The checksums with which a run of requests fills the cells of the session.\<close>

fun saved_checksums ::
  "('w, 'v, 's, 't, 'i, 'x, 'h) app \<Rightarrow> (('v, 's) run_orders \<times> 'i ggrs_request) list \<Rightarrow>
     ('w, 'v, 's, 't, 'i, 'x) world \<Rightarrow> u128 option list res" where
  "saved_checksums A [] w = Inr []"
| "saved_checksums A (r # rs) w =
     rbind (handle_request A r w) (\<lambda>w1.
     rbind (saved_checksums A rs w1) (\<lambda>cs.
       Inr (if is_save (snd r) then checksum_res w1 # cs else cs)))"

text \<open>The same requests, to save or to advance, with schedules in possibly different orders.\<close>

definition same_requests ::
  "('w, 'v, 's, 't, 'i, 'x, 'h) app \<Rightarrow> (('v, 's) run_orders \<times> 'i ggrs_request) list \<Rightarrow>
     (('v, 's) run_orders \<times> 'i ggrs_request) list \<Rightarrow> bool" where
  "same_requests A rs rs' \<longleftrightarrow> list_all2 (\<lambda>(o1, r) (o2, r'). r' = r \<and> (is_save r \<or> is_advance r) \<and>
     orders_admissible A o1 \<and> orders_admissible A o2) rs rs'"

lemma replay:
  assumes "app_ok A" "checksums_ok A" "checksums_restored A" "tame (ggrs_schedule A)" "cells_only (app_session A)"
    and "deterministic A" "same_requests A rs rs'"
    and "playable A u" "playable A w" "same_game A u w" "saved_checksums A rs u = Inr cs"
  shows "saved_checksums A rs' w = Inr cs \<and> (\<exists>u' w'. rfold (handle_request A) rs u = Inr u' \<and>
    rfold (handle_request A) rs' w = Inr w' \<and> playable A u' \<and> playable A w' \<and> same_game A u' w')"
  using assms(7-) unfolding same_requests_def
proof (induction rs rs' arbitrary: u w cs rule: list_all2_induct)
  case (Cons a rs b rs')
  obtain o1 o2 r where r: "a = (o1, r)" "b = (o2, r)" "is_save r \<or> is_advance r" "orders_admissible A o1"
    "orders_admissible A o2"
    using Cons.hyps(1) by (auto split: prod.splits)
  obtain u1 ds where u1: "handle_request A (o1, r) u = Inr u1" "saved_checksums A rs u1 = Inr ds"
    "cs = (if is_save r then checksum_res u1 # ds else ds)"
    using Cons.prems(4) by (auto simp: r rbind_Inr_iff)
  have "\<exists>w1. handle_request A (o2, r) w = Inr w1 \<and> playable A u1 \<and> playable A w1 \<and> same_game A u1 w1 \<and>
      (is_save r \<longrightarrow> checksum_res w1 = checksum_res u1)"
  proof (cases r)
    case (SaveGameState c h)
    obtain w1 where w1: "handle_request A (o2, SaveGameState c h) w = Inr w1" "playable A w1" "same_game A w w1"
      "checksum_res w1 = Some (frame_checksum A w)"
      by (rule save_request_same [OF assms(1-3,5) Cons.prems(2) r(5)])
    obtain u2 where u2: "handle_request A (o1, SaveGameState c h) u = Inr u2" "playable A u2" "same_game A u u2"
      "checksum_res u2 = Some (frame_checksum A u)"
      by (rule save_request_same [OF assms(1-3,5) Cons.prems(1) r(4)])
    have "u2 = u1" using u1(1) u2(1) by (simp add: SaveGameState)
    moreover have "frame_checksum A u = frame_checksum A w"
      using same_game_checksum [OF assms(1,3) _ _ Cons.prems(3)] Cons.prems(1,2) by (simp add: playable_def)
    ultimately show ?thesis
      using w1 u2 same_game_both [OF Cons.prems(3) u2(3) w1(3)] by (simp add: SaveGameState)
  next
    case (AdvanceFrame i)
    show ?thesis
      using advance_request_same [OF assms(1,4,6) Cons.prems(1-3) r(4,5)] u1(1) by (auto simp: AdvanceFrame)
  qed (use r(3) in simp)
  then obtain w1 where w1: "handle_request A (o2, r) w = Inr w1" "playable A u1" "playable A w1" "same_game A u1 w1"
    "is_save r \<longrightarrow> checksum_res w1 = checksum_res u1"
    by blast
  show ?case using Cons.IH [OF w1(2-4) u1(2)] u1(1,3) w1(1,5) by (simp add: r)
qed simp

section \<open>After a rollback\<close>

lemma restored_worldD:
  assumes "restored_world A u w"
  shows "(\<exists>e. carries (app_ecs A) (ecs_state w) e r) \<longleftrightarrow> (\<exists>e. carries (app_ecs A) (ecs_state u) e r)"
    "carries (app_ecs A) (ecs_state w) e r \<and> carries (app_ecs A) (ecs_state u) e0 r \<longrightarrow>
       parent_target (app_ecs A) (ecs_state u) (ecs_state w) e0 (parent_of (app_ecs A) (ecs_state w) e)"
    "\<forall>t \<in> fst ` set (comp_plugins A) - fst ` set (comp_map_plugins A).
       map_of (q_components (app_ecs A) (ecs_state u) t) = map_of (q_components (app_ecs A) (ecs_state w) t)"
    "\<forall>i \<in> fst ` set (res_plugins A) - fst ` set (res_map_plugins A). user_resource u i = user_resource w i"
    "rollback_ordered_res u = rollback_ordered_res w" "ggrs_time u = ggrs_time w"
proof -
  note r = assms [unfolded restored_world_def Let_def, THEN conjunct2]
  show "(\<exists>e. carries (app_ecs A) (ecs_state w) e r) \<longleftrightarrow> (\<exists>e. carries (app_ecs A) (ecs_state u) e r)"
    using r [THEN conjunct1] by (rule spec)
  note r = r [THEN conjunct2]
  show "\<forall>t \<in> fst ` set (comp_plugins A) - fst ` set (comp_map_plugins A).
       map_of (q_components (app_ecs A) (ecs_state u) t) = map_of (q_components (app_ecs A) (ecs_state w) t)"
    using r [THEN conjunct1] by (metis (no_types, lifting))
  note r = r [THEN conjunct2]
  show "carries (app_ecs A) (ecs_state w) e r \<and> carries (app_ecs A) (ecs_state u) e0 r \<longrightarrow>
       parent_target (app_ecs A) (ecs_state u) (ecs_state w) e0 (parent_of (app_ecs A) (ecs_state w) e)"
    using r [THEN conjunct1, THEN spec, THEN spec, THEN spec] .
  note r = r [THEN conjunct2]
  show "\<forall>i \<in> fst ` set (res_plugins A) - fst ` set (res_map_plugins A). user_resource u i = user_resource w i"
    "rollback_ordered_res u = rollback_ordered_res w" "ggrs_time u = ggrs_time w"
    using r by simp_all
qed

lemma restored_same_game:
  assumes "app_ok A" "restored_world A u w" "parents_tracked (app_ecs A) (ecs_state u)" "unique_ids (app_ecs A) (ecs_state u)"
    and "rollback_frame_count w = rollback_frame_count u" "frame_rate w = frame_rate u"
  shows "same_game A u w"
proof -
  let ?E = "app_ecs A" and ?u = "ecs_state u" and ?w = "ecs_state w"
  note r = restored_worldD [OF assms(2)]
  note ids = r(1) and target = r(2) [THEN mp, OF conjI]
  have "(\<exists>e p. carries ?E ?u e a \<and> parent_of ?E ?u e = Some p \<and> carries ?E ?u p b)
      \<longleftrightarrow> (\<exists>e p. carries ?E ?w e a \<and> parent_of ?E ?w e = Some p \<and> carries ?E ?w p b)" for a b
  proof
    assume "\<exists>e p. carries ?E ?u e a \<and> parent_of ?E ?u e = Some p \<and> carries ?E ?u p b"
    then obtain e p where u: "carries ?E ?u e a" "parent_of ?E ?u e = Some p" "carries ?E ?u p b" by blast
    obtain e' where e': "carries ?E ?w e' a" using ids u(1) by blast
    obtain q p' where "carries ?E ?u p q" "parent_of ?E ?w e' = Some p'" "carries ?E ?w p' q"
      using target [OF e' u(1)] u(2) by (auto simp: parent_target_def)
    moreover from this have "q = b" using u(3) by (simp add: carries_def)
    ultimately show "\<exists>e p. carries ?E ?w e a \<and> parent_of ?E ?w e = Some p \<and> carries ?E ?w p b" using e' by blast
  next
    assume "\<exists>e p. carries ?E ?w e a \<and> parent_of ?E ?w e = Some p \<and> carries ?E ?w p b"
    then obtain e p where w: "carries ?E ?w e a" "parent_of ?E ?w e = Some p" "carries ?E ?w p b" by blast
    obtain e0 where e0: "carries ?E ?u e0 a" using ids w(1) by blast
    obtain p0 q where "parent_of ?E ?u e0 = Some p0" "carries ?E ?u p0 q" "carries ?E ?w p q"
      using target [OF w(1) e0] w(2) by (cases "parent_of ?E ?u e0") (auto simp: parent_target_def)
    moreover from this have "q = b" using w(3) by (simp add: carries_def)
    ultimately show "\<exists>e p. carries ?E ?u e a \<and> parent_of ?E ?u e = Some p \<and> carries ?E ?u p b" using e0 by blast
  qed
  then have "parent_ids ?E ?u = parent_ids ?E ?w" unfolding parent_ids_def by (intro Collect_cong) auto
  then have "same_state A u w" using r(1,3-) assms(5,6) by (simp add: same_state_def)
  moreover have "unique_ids ?E ?w" using assms(2) by (simp add: restored_world_def Let_def)
  moreover have "ecs_laws ?E" using assms(1) by (simp add: app_ok_def)
  ultimately show ?thesis using assms(4) by (intro same_state_game)
qed

section \<open>Peers\<close>

text \<open>
  C3: Peers stay in sync. Two peers whose games are in the same state, and which are asked for the same
  frames with the same inputs, answer with the same checksums and are in the same state again, for a
  deterministic game: whatever entity ids and identities each of them uses, whatever their storages and
  sessions hold, and however Bevy orders the systems on each. A desync that is reported is a real one.
\<close>

theorem peers_stay_in_sync:
  assumes "app_ok A" and "checksums_ok A" and "checksums_restored A" and "tame (ggrs_schedule A)"
    and "cells_only (app_session A)" and "deterministic A"
    and "playable A u" and "playable A w" and "same_game A u w"
    and "same_requests A rs rs'" and "saved_checksums A rs u = Inr cs"
  shows "saved_checksums A rs' w = Inr cs \<and> (\<exists>u' w'. rfold (handle_request A) rs u = Inr u' \<and>
    rfold (handle_request A) rs' w = Inr w' \<and> same_game A u' w')"
  using replay [OF assms(1-6,10,7-9,11)] by blast

end
