(* ===== verification/Misprediction.thy ===== *)
theory Misprediction
  imports Resimulation
begin

text \<open>
  The point of rollback: a session saves a frame, plays on with predicted inputs, finds them wrong, rolls
  back and plays the frames again with the right ones. The load leaves a world from which the game goes
  on, and in the end nothing shows that there was a misprediction.
\<close>

section \<open>What a load leaves alone\<close>

text \<open>No checksum part is on an entity that is despawned for rollback.\<close>

definition parts_visible :: "('w, 'v) ecs \<Rightarrow> 'w \<Rightarrow> bool" where
  "parts_visible E x \<longleftrightarrow> (\<forall>e. part_of E x e \<noteq> None \<longrightarrow> enabled E x e)"

lemma marks_cases:
  assumes "marks_kept E x y"
  obtains "part_of E y e = None" "\<And>flag. cget E y (FlagKey flag) e = None"
  | "part_of E y e = part_of E x e" "\<And>flag. cget E y (FlagKey flag) e = cget E x (FlagKey flag) e"
    "cget E y RollbackIdKey e = cget E x RollbackIdKey e" "enabled E x e \<Longrightarrow> enabled E y e"
  using assms [unfolded marks_kept_def, THEN spec, of e] by (elim disjE) (simp_all add: part_of_def)

lemma marks_unflagged:
  assumes "marks_kept E x y" "unflagged E x"
  shows "unflagged E y"
  unfolding unflagged_def
proof (intro allI impI)
  fix e flag assume r: "rid_of E y e \<noteq> None"
  show "cget E y (FlagKey flag) e = None"
    using assms(2) r by (cases rule: marks_cases [OF assms(1), of e]) (simp_all add: unflagged_def rid_of_def)
qed

lemma marks_parts:
  assumes "ecs_laws E" "marks_kept E x y" "\<forall>e. enabled E y e \<and> part_of E y e \<noteq> None \<longrightarrow> enabled E x e"
    and "parts_ok E flags x"
  shows "parts_ok E flags y"
proof -
  have part: "e \<in> set (q_part E flag y) \<longleftrightarrow> e \<in> set (q_part E flag x) \<and> part_of E y e \<noteq> None" for e flag
  proof (cases rule: marks_cases [OF assms(2), of e])
    case 2
    then show ?thesis using assms(3) by (auto simp: set_q_part [OF assms(1)])
  qed (simp add: set_q_part [OF assms(1)])
  have "length (q_part E flag y) \<le> 1" if "flag \<in> flags" for flag
  proof -
    have "distinct (q_part E flag z)" for z using assms(1) by (simp add: q_part_def)
    then have "length (q_part E flag y) \<le> length (q_part E flag x)"
      by (metis part distinct_card card_mono finite_set subsetI)
    then show ?thesis using assms(4) that by (fastforce simp: parts_ok_def)
  qed
  moreover have "\<exists>!flag. flag \<in> flags \<and> e \<in> set (q_part E flag y)" if e: "enabled E y e" "part_of E y e \<noteq> None" for e
  proof -
    have "part_of E x e \<noteq> None" using e(2) by (cases rule: marks_cases [OF assms(2), of e]) auto
    then have "\<exists>!flag. flag \<in> flags \<and> e \<in> set (q_part E flag x)"
      using assms(3,4) e by (simp add: parts_ok_def)
    then show ?thesis by (simp add: part e(2))
  qed
  ultimately show ?thesis by (simp add: parts_ok_def)
qed

text \<open>In a restored world the parents of the game belong to the game, as in the world that was saved.\<close>

lemma restored_tracked:
  assumes "restored_world A u w" "parents_tracked (app_ecs A) (ecs_state u)" "unique_ids (app_ecs A) (ecs_state u)"
  shows "parents_tracked (app_ecs A) (ecs_state w)"
  unfolding parents_tracked_def
proof (intro allI impI, elim conjE)
  let ?E = "app_ecs A" and ?u = "ecs_state u" and ?w = "ecs_state w"
  note r = restored_worldD(1,2) [OF assms(1)]
  fix e a p assume e: "carries ?E ?w e a" "parent_of ?E ?w e = Some p"
  obtain e0 where e0: "carries ?E ?u e0 a" using r(1) e(1) by blast
  have "parent_target ?E ?u ?w e0 (Some p)" using r(2) e e0 by force
  then obtain p0 b where p: "parent_of ?E ?u e0 = Some p0" "carries ?E ?u p0 b" "carries ?E ?w p b"
    by (cases "parent_of ?E ?u e0") (auto simp: parent_target_def)
  have "p0 \<noteq> e0" using assms(2) e0 p(1) by (auto simp: parents_tracked_def)
  then have "a \<noteq> b" using carries_unique [OF assms(3)] e0 p(2) by blast
  then show "p \<noteq> e \<and> (\<exists>q. carries ?E ?w p q)" using e(1) p(3) by (auto simp: carries_def)
qed

lemma restored_checksum_ready:
  assumes "checksums_restored A" "restored_world A u w" "checksum_ready A u" "unflagged (app_ecs A) (ecs_state u)"
    and "unflagged (app_ecs A) (ecs_state w)" "checksum_res w \<noteq> None"
    and "parts_ok (app_ecs A) (part_flags A) (ecs_state w)"
  shows "checksum_ready A w"
proof -
  let ?E = "app_ecs A"
  note r = restored_worldD [OF assms(2)]
  obtain ordered where o: "rollback_ordered_res u = Some ordered" "ordered_ok ordered"
    "\<forall>t \<in> fst ` set (comp_checksums A). \<forall>(r, c) \<in> set (q_checksum ?E t (ecs_state u)). registered ordered r"
    using assms(3) by (auto simp: checksum_ready_def)
  have "registered ordered a" if t: "t \<in> fst ` set (comp_checksums A)" and m: "(a, c) \<in> set (q_checksum ?E t (ecs_state w))" for t a c
  proof -
    have "(a, c) \<in> set (q_components ?E (ecs_state w) t)" using m by (simp add: q_checksum_unflagged [OF assms(5)])
    then have "map_of (q_components ?E (ecs_state w) t) a \<noteq> None"
      unfolding map_of_eq_None_iff by force
    moreover have "t \<in> fst ` set (comp_plugins A) - fst ` set (comp_map_plugins A)"
      using assms(1) t unfolding checksums_restored_def by blast
    then have "map_of (q_components ?E (ecs_state w) t) = map_of (q_components ?E (ecs_state u) t)" using r(3) by simp
    ultimately have "map_of (q_components ?E (ecs_state u) t) a \<noteq> None" by simp
    then obtain c' where "(a, c') \<in> set (q_checksum ?E t (ecs_state u))"
      by (auto simp: q_checksum_unflagged [OF assms(4)] dest: map_of_SomeD)
    then show ?thesis using o(3) t by fastforce
  qed
  moreover have "user_resource w i \<noteq> None" if "i \<in> fst ` set (res_checksums A)" for i
  proof -
    have "i \<in> fst ` set (res_plugins A) - fst ` set (res_map_plugins A)"
      using assms(1) that unfolding checksums_restored_def by blast
    then have "user_resource w i = user_resource u i" using r(4) by simp
    moreover have "user_resource u i \<noteq> None" using assms(3) that unfolding checksum_ready_def by blast
    ultimately show ?thesis by simp
  qed
  ultimately show ?thesis
    using assms(6,7) o(1,2) r(5) by (auto simp: checksum_ready_def)
qed

text \<open>The game goes on in the world that a load leaves.\<close>

lemma restored_fit:
  assumes "app_ok A" "checksums_restored A" "fit A u" "restored_world A u w"
    and "pending w = []" "rollback_frame_count w = Some g" "0 <=s g"
    and "\<forall>s \<in> set (load_systems A). stored (app_ecs A) g u w s"
    and "fit A v" "marks_kept (app_ecs A) (ecs_state v) (ecs_state w)" "parts_visible (app_ecs A) (ecs_state v)"
    and "outside_load w = outside_load v"
  shows "fit A w"
proof -
  let ?E = "app_ecs A"
  have laws: "ecs_laws ?E" using assms(1) by (simp add: app_ok_def)
  have v: "unflagged ?E (ecs_state v)" "parts_ok ?E (part_flags A) (ecs_state v)"
    "checksum_res v \<noteq> None" "default_time v \<noteq> None" "virtual_time v \<noteq> None" "confirmed_frame_count v \<noteq> None"
    using assms(9) by (simp_all add: fit_def checksum_ready_def)
  have u: "checksum_ready A u" "unflagged ?E (ecs_state u)" "parents_tracked ?E (ecs_state u)"
    "unique_ids ?E (ecs_state u)" using assms(3) by (simp_all add: fit_def)
  note outer = assms(12) [unfolded outside_load_def prod.inject]
  have unf: "unflagged ?E (ecs_state w)" by (rule marks_unflagged [OF assms(10) v(1)])
  have "enabled ?E (ecs_state v) e" if "part_of ?E (ecs_state w) e \<noteq> None" for e
    using that assms(11) by (cases rule: marks_cases [OF assms(10), of e]) (simp_all add: parts_visible_def)
  then have parts: "parts_ok ?E (part_flags A) (ecs_state w)"
    by (intro marks_parts [OF laws assms(10) _ v(2)]) simp
  have "checksum_res w \<noteq> None" using outer v(3) by simp
  from restored_checksum_ready [OF assms(2,4) u(1,2) unf this parts] have "checksum_ready A w" .
  moreover have "storage_ok w st" if "st \<in> set (save_stores A)" for st
    by (rule kept_storage_ok [OF stored_of_systems [OF assms(8) that]])
  moreover have "parents_tracked ?E (ecs_state w)" by (rule restored_tracked [OF assms(4) u(3,4)])
  moreover have "unique_ids ?E (ecs_state w)" using assms(4) by (simp add: restored_world_def Let_def)
  moreover have "\<exists>i. id_at w i = Some r" if c: "carries ?E (ecs_state w) e r" for e r
  proof -
    have "\<exists>e0. carries ?E (ecs_state u) e0 r" using restored_worldD(1) [OF assms(4)] c by blast
    then have "\<exists>i. id_at u i = Some r" using assms(3) by (auto simp: fit_def)
    moreover have "id_at w = id_at u" using restored_worldD(5) [OF assms(4)] by (simp add: fun_eq_iff id_at_def)
    ultimately show ?thesis by simp
  qed
  ultimately show ?thesis using unf outer v(4-6) assms(5-7) by (simp add: fit_def)
qed

section \<open>A run of requests\<close>

lemma request_playable:
  assumes "app_ok A" "checksums_ok A" "checksums_restored A" "tame (ggrs_schedule A)" "cells_only (app_session A)"
    and "deterministic A" "playable A w" "orders_admissible A os" "is_save r \<or> is_advance r"
    and "handle_request A (os, r) w = Inr w'"
  shows "playable A w'"
proof (cases r)
  case (SaveGameState cell h)
  show ?thesis
    by (rule save_request_same [OF assms(1-3,5,7,8), of cell h]) (use assms(10) SaveGameState in simp)
next
  case (AdvanceFrame i)
  show ?thesis
    using advance_request_same [OF assms(1,4,6,7,7) same_game_refl assms(8,8)] assms(10) AdvanceFrame by blast
qed (use assms(9) in simp)

lemma run_playable:
  assumes "app_ok A" "checksums_ok A" "checksums_restored A" "tame (ggrs_schedule A)" "cells_only (app_session A)"
    and "deterministic A" "\<forall>(os, r) \<in> set rs. orders_admissible A os \<and> (is_save r \<or> is_advance r)"
    and "playable A w" "rfold (handle_request A) rs w = Inr w'"
  shows "playable A w'"
  using assms(7-)
proof (induction rs arbitrary: w)
  case (Cons a rs)
  obtain os r where a: "a = (os, r)" by (cases a)
  obtain u where u: "handle_request A (os, r) w = Inr u" "rfold (handle_request A) rs u = Inr w'"
    using Cons.prems(3) by (auto simp: a rbind_Inr_iff)
  have "playable A u"
    using request_playable [OF assms(1-6) Cons.prems(2) _ _ u(1)] Cons.prems(1) by (simp add: a)
  then show ?case using Cons.IH [OF _ _ u(2)] Cons.prems(1) by simp
qed simp

text \<open>A request sets the prediction window itself.\<close>

lemma prepare_window:
  assumes "prepare_request G w = Inr v" "session_window G (session_res w) = Some d'"
  shows "prepare_request G (w\<lparr>max_prediction_window := d\<rparr>) = Inr v"
  using assms by (simp add: prepare_request_def request_frame_def)

lemma playable_saveable:
  assumes "playable A w" "rollback_frame_count w = Some g" "0 < d"
  shows "saveable A (w\<lparr>max_prediction_window := Some d\<rparr>) g d"
proof -
  have "storage_ok (w\<lparr>max_prediction_window := Some d\<rparr>) st = storage_ok w st" for st :: "('b, 'c) save_store"
    by (cases st) simp_all
  then show ?thesis
    using assms by (auto simp: saveable_def playable_def fit_def checksum_ready_def)
qed

text \<open>From the save of \<open>g\<close> through a run of predicted frames to the load of \<open>g\<close>.\<close>

lemma rollback_playable:
  assumes "app_ok A" "checksums_ok A" "checksums_restored A" "tame (ggrs_schedule A)" "cells_only (app_session A)"
    and "deterministic A" "playable A w" "session_res w = Some s" "protects (app_session A) g d N s"
    and "rollback_frame_count w = Some g" "\<forall>c. confirmed_frame_count w = Some c \<longrightarrow> \<not> g <s c"
    and "orders_admissible A os" "orders_admissible A os'"
    and "handle_request A (os, SaveGameState cell g) w = Inr w0"
    and "\<forall>(os, r) \<in> set ((o2, AdvanceFrame inputs) # rs). orders_admissible A os \<and> (is_save r \<or> is_advance r)"
    and "rfold (handle_request A) ((o2, AdvanceFrame inputs) # rs) w0 = Inr w2"
    and "saves_in rs < d" "Suc (advances_in rs) \<le> N"
    and "entity_map_res w2 \<noteq> None" "frame_rate w2 = frame_rate w0" "parts_visible (app_ecs A) (ecs_state w2)"
    and "loadable (app_ecs A) (ecs_state w0) (resurrect_entities (app_ecs A) g (ecs_state w2))"
  shows "\<exists>w3. handle_request A (os', LoadGameState g) w2 = Inr w3 \<and> playable A w0 \<and> playable A w3 \<and> same_game A w0 w3"
proof -
  have d: "0 < d" using assms(17) by simp
  have g: "0 <=s g" using assms(7,10) by (auto simp: playable_def fit_def)
  have p0: "playable A w0" by (rule request_playable [OF assms(1-7,12) _ assms(14)]) simp
  obtain w1 where w1: "handle_request A (o2, AdvanceFrame inputs) w0 = Inr w1" "rfold (handle_request A) rs w1 = Inr w2"
    using assms(16) by (auto simp: rbind_Inr_iff)
  let ?w = "w\<lparr>max_prediction_window := Some d\<rparr>"
  obtain x where x: "prepare_request (app_session A) w = Inr x" "answer_request A os (SaveGameState cell g) x = Inr w0"
    using assms(14) by (auto simp: handle_request_def rbind_Inr_iff)
  have "handle_request A (os, SaveGameState cell g) ?w = Inr w0"
    using x prepare_window [OF x(1)] assms(8,9) by (simp add: handle_request_def protects_def)
  with playable_saveable [OF assms(7,10) d] assms(8,11)
  have start: "predicting A g w0 d N 0 g w0"
    by (intro predicting_start [OF assms(1,2,12) _ _ assms(9,5) d, of ?w d]) simp_all
  have "sint g < sint g + int N" using assms(18) by simp
  note p1 = predicting_advance [OF assms(4) start this w1(1)]
  have "sint g < sint (g + 1)" "sint (g + 1) + int (advances_in rs) \<le> sint g + int N" "0 + saves_in rs < d"
    using p1(2) assms(17,18) by simp_all
  moreover have "\<forall>(os, r) \<in> set rs. orders_admissible A os \<and> (is_save r \<or> is_advance r)" using assms(15) by simp
  ultimately obtain n f where p2: "predicting A g w0 d N n f w2"
    using predicting_run [OF assms(1,4,5) g _ p1(1) _ w1(2)] by blast
  have "playable A w2" by (rule run_playable [OF assms(1-6,15) p0 assms(16)])
  then obtain v d' where v: "prepare_request (app_session A) w2 = Inr v" "playable A v" "same_game A w2 v"
    by (rule prepare_playable)
  have v2: "ecs_state v = ecs_state w2" "session_res v = session_res w2"
    using prepare_outer [OF v(1)] by simp_all
  have fv: "fit A v" using v(2) by (simp add: playable_def)
  have "rollback_ordered_res w2 = rollback_ordered_res v" "frame_rate w2 = frame_rate v"
    using predicting_prepare(5) [OF p2 v(1)] v(3) by (simp_all add: same_game_def)
  moreover have "rollback_ordered_res v \<noteq> None" using fv by (auto simp: fit_def checksum_ready_def)
  ultimately have ord: "rollback_ordered_res w2 \<noteq> None" and rate: "frame_rate v = frame_rate w0"
    using assms(20) by simp_all
  obtain w3 where w3: "handle_request A (os', LoadGameState g) w2 = Inr w3" "restored_world A w0 w3"
    "rollback_frame_count w3 = Some g" "pending w3 = []" "\<forall>s \<in> set (load_systems A). stored (app_ecs A) g w0 w3 s"
    "marks_kept (app_ecs A) (ecs_state v) (ecs_state w3)" "outside_load w3 = outside_load v"
    using rollback_effect [OF assms(1,13) p2 assms(19) ord assms(22) v(1)] v2(1) by auto
  have f0: "fit A w0" using p0 by (simp add: playable_def)
  then have tracked: "parents_tracked (app_ecs A) (ecs_state w0)" and unique: "unique_ids (app_ecs A) (ecs_state w0)"
    by (simp_all add: fit_def)
  have "parts_visible (app_ecs A) (ecs_state v)" using assms(21) v2(1) by simp
  from restored_fit [OF assms(1,3) f0 w3(2,4,3) g w3(5) fv w3(6) this w3(7)] have "fit A w3" .
  moreover note outer = w3(7) [unfolded outside_load_def prod.inject]
  ultimately have "playable A w3" using v(2) by (simp add: playable_def)
  moreover have "rollback_frame_count w0 = Some g" using start by (simp add: predicting_def)
  then have "same_game A w0 w3"
    using restored_same_game [OF assms(1) w3(2) tracked unique] w3(3) outer rate by simp
  ultimately show ?thesis using w3(1) p0 by blast
qed

text \<open>
  C2: Mispredictions leave no trace. A peer saves frame \<open>g\<close> and plays on, any frames with any inputs
  within its window; then it goes back to \<open>g\<close> and is asked for the frames as they were meant. Another
  peer, whose game was in the same state at \<open>g\<close>, plays only those. The load and the second run of the
  first peer succeed, and it fills its cells with the same checksums and ends in the same state of the
  game as the other peer, however Bevy orders the systems, for a deterministic game. With the same
  inputs in both runs, and itself as the other peer, this is what a sync test checks.
\<close>

theorem mispredictions_leave_no_trace:
  assumes "app_ok A" and "checksums_ok A" and "checksums_restored A" and "tame (ggrs_schedule A)"
    and "cells_only (app_session A)" and "deterministic A"
    and "playable A w" and "session_res w = Some s" and "protects (app_session A) g d N s"
    and "rollback_frame_count w = Some g" and "\<forall>c. confirmed_frame_count w = Some c \<longrightarrow> \<not> g <s c"
    and "orders_admissible A os" and "orders_admissible A os'"
    and "handle_request A (os, SaveGameState cell g) w = Inr w0"
    and "\<forall>(os, r) \<in> set ((o2, AdvanceFrame inputs) # ps). orders_admissible A os \<and> (is_save r \<or> is_advance r)"
    and "rfold (handle_request A) ((o2, AdvanceFrame inputs) # ps) w0 = Inr w2"
    and "saves_in ps < d" and "Suc (advances_in ps) \<le> N"
    and "entity_map_res w2 \<noteq> None" and "frame_rate w2 = frame_rate w0" and "parts_visible (app_ecs A) (ecs_state w2)"
    and "loadable (app_ecs A) (ecs_state w0) (resurrect_entities (app_ecs A) g (ecs_state w2))"
    and "playable A u" and "same_game A u w0" and "same_requests A rs rs'" and "saved_checksums A rs u = Inr cs"
  shows "\<exists>w3 w4 u'. handle_request A (os', LoadGameState g) w2 = Inr w3 \<and>
    rfold (handle_request A) rs' w3 = Inr w4 \<and> saved_checksums A rs' w3 = Inr cs \<and>
    rfold (handle_request A) rs u = Inr u' \<and> same_game A u' w4 \<and> playable A w4"
proof -
  obtain w3 where w3: "handle_request A (os', LoadGameState g) w2 = Inr w3" "playable A w3" "same_game A w0 w3"
    using rollback_playable [OF assms(1-22)] by blast
  have "same_game A u w3" by (rule same_game_trans [OF assms(24) w3(3)])
  from replay [OF assms(1-6,25,23) w3(2) this assms(26)] w3(1) show ?thesis by blast
qed

end
