(* ===== verification/ResimulationExample.thy ===== *)
theory ResimulationExample
  imports Resimulation DriverExample
begin

text \<open>
  A deterministic game that adds up the inputs, played by two peers whose entity ids and identities
  differ, with schedules in different orders.
\<close>

definition add_inputs :: "demo_world_state \<Rightarrow> demo_world_state res" where
  "add_inputs w = rbind (require ''PlayerInputs'' (player_inputs w)) (\<lambda>is.
     Inr (w\<lparr>user_resource := (user_resource w)(0 := map_option (\<lambda>x. x + sum_list (map fst is)) (user_resource w 0))\<rparr>))"

definition adding_game :: "(int table, int, int, nat \<times> nat, int, script_session, u64) app" where
  "adding_game = demo_app\<lparr>ggrs_schedule := add_inputs\<rparr>"

definition peer_table :: "int table" where
  "peer_table = \<lparr>table_rows = [(9, [(RollbackIdKey, IdVal (RollbackId 9)), (ChildOfKey, ParentVal 7)]),
     (7, [(RollbackIdKey, IdVal (RollbackId 7)), (UserKey 0, UserVal 5)])], next_id = 10\<rparr>"

definition peer_world :: demo_world_state where
  "peer_world = game_world\<lparr>ecs_state := peer_table, rollback_ordered_res := Some order_b,
     confirmed_frame_count := Some 0\<rparr>"

definition other_orders :: "(int, int) run_orders" where
  "other_orders = demo_orders\<lparr>advance_order := [UpdateTime, ReplaceWithGgrs, FirstFlush, DespawnConfirmed,
     RunGgrsSchedule, MainFlush, ReplaceWithVirtual]\<rparr>"

definition replayed :: "(int, int) run_orders \<Rightarrow> ((int, int) run_orders \<times> int ggrs_request) list" where
  "replayed os = [(os, SaveGameState 0 1), (os, AdvanceFrame [(5, Confirmed), (4, Confirmed)]), (os, SaveGameState 1 2)]"

lemma adding_systems:
  "load_systems adding_game = load_systems demo_app" "save_systems adding_game = save_systems demo_app"
  "save_stores adding_game = save_stores demo_app" "part_flags adding_game = part_flags demo_app"
  by (simp_all add: adding_game_def load_systems_def data_systems_def mapping_systems_def save_systems_def
      checksum_systems_def save_stores_def part_flags_def)

lemma adding_deterministic: "deterministic adding_game"
  unfolding deterministic_def
proof (intro allI impI, elim conjE)
  fix u w u' assume a: "fit adding_game u" "fit adding_game w" "same_game adding_game u w" "player_inputs u = player_inputs w"
    "ggrs_schedule adding_game u = Inr u'"
  let ?add = "\<lambda>is v. v\<lparr>user_resource := (user_resource v)(0 := map_option (\<lambda>x. x + sum_list (map fst is)) (user_resource v 0))\<rparr>"
  obtain inp where u: "player_inputs u = Some inp" "u' = ?add inp u"
    using a(5) by (auto simp: adding_game_def add_inputs_def)
  have fit: "fit adding_game (?add inp v)" if "fit adding_game v" for v
  proof -
    have "storage_ok (?add inp v) st = storage_ok v st" for st :: "(int, int) save_store"
      by (rule storage_ok_storages) (simp add: storages_def)
    moreover have "id_at (?add inp v) = id_at v" by (rule game_view_cong(1)) simp_all
    ultimately show ?thesis using that by (auto simp: fit_def checksum_ready_def)
  qed
  have "user_resource u 0 = user_resource w 0"
    using a(3) by (simp add: same_game_def adding_game_def demo_app_def)
  moreover have "game_alive adding_game (v\<lparr>user_resource := f\<rparr>) = game_alive adding_game v"
    "game_parents adding_game (v\<lparr>user_resource := f\<rparr>) = game_parents adding_game v"
    "game_components adding_game (v\<lparr>user_resource := f\<rparr>) = game_components adding_game v" for v f
    by (rule game_view_cong; simp)+
  ultimately have "same_game adding_game (?add inp u) (?add inp w)"
    using a(3) by (simp add: same_game_def)
  moreover have "ggrs_schedule adding_game w = Inr (?add inp w)"
    using a(4) [symmetric] u(1) by (simp add: adding_game_def add_inputs_def)
  ultimately show "\<exists>w'. ggrs_schedule adding_game w = Inr w' \<and> fit adding_game u' \<and> fit adding_game w' \<and> same_game adding_game u' w'"
    using a(1,2) u(2) fit by blast
qed

lemma peer_get: "t_get peer_table k e =
    (if e = 7 then (if k = RollbackIdKey then Some (IdVal (RollbackId 7))
       else if k = UserKey 0 then Some (UserVal 5) else None)
     else if e = 9 then (if k = RollbackIdKey then Some (IdVal (RollbackId 9))
       else if k = ChildOfKey then Some (ParentVal 7) else None) else None)"
  by (simp add: t_get_def peer_table_def)

lemma peer_carries: "carries table_ecs peer_table e r \<longleftrightarrow> e = 7 \<and> r = RollbackId 7 \<or> e = 9 \<and> r = RollbackId 9"
  by (auto simp: carries_def rid_of_def enabled_def peer_get split: if_splits)

lemma both_fit: "fit adding_game game_world" "fit adding_game peer_world"
proof -
  have s: "storage_ok game_world st" if "st \<in> set (save_stores demo_app)" for st
  proof -
    have "save_stores demo_game = save_stores demo_app" by (simp add: demo_game_def save_stores_def)
    then show ?thesis using game_world_saveable that by (simp add: saveable_def)
  qed
  have "storage_ok peer_world st = storage_ok game_world st" for st :: "(int, int) save_store"
    by (rule storage_ok_storages) (simp add: peer_world_def storages_def)
  note s2 = s [folded this]
  have q: "q_part table_ecs flag peer_table = []" for flag
    by (simp add: q_part_def table_ecs_def t_ents_def peer_table_def t_get_def part_of_def)
  have c: "checksum_ready adding_game game_world"
    using game_world_saveable
    by (simp add: saveable_def checksum_ready_def adding_systems demo_game_def adding_game_def part_flags_def checksum_systems_def)
  have "q_checksum table_ecs 0 peer_table = [(RollbackId 7, 5)]" "q_checksum table_ecs 0 saved_table = [(RollbackId 2, 5)]"
    by code_simp+
  moreover have "part_of table_ecs peer_table e = None" for e
    by (simp add: part_of_def table_ecs_def peer_get)
  moreover have "ordered_ok order_b" "registered order_b (RollbackId 7)"
    by (simp_all add: ordered_ok_def registered_def order_b_def push_ordered_def default_ordered_def hm_insert_def)
  ultimately have c2: "checksum_ready adding_game peer_world"
    using c by (simp add: checksum_ready_def parts_ok_def q peer_world_def game_world_def saved_world_def plain_world_def
        adding_game_def demo_app_def)
  have f: "(0 :: i32) <=s 1" by code_simp
  have t: "unique_ids table_ecs saved_table" "unflagged table_ecs saved_table" "parents_tracked table_ecs saved_table"
    "unique_ids table_ecs peer_table" "unflagged table_ecs peer_table" "parents_tracked table_ecs peer_table"
    by (auto simp: unique_ids_def unflagged_def parents_tracked_def carries_def parent_of_def rid_of_def enabled_def
        saved_get peer_get split: if_splits)
  have "\<exists>i. id_at game_world i = Some r" if "carries table_ecs saved_table e r" for e r
  proof -
    have "id_at game_world 0 = Some (RollbackId 2)" "id_at game_world 1 = Some (RollbackId 3)" by code_simp+
    then show ?thesis using that by (auto simp: example_carries)
  qed
  moreover have "\<exists>i. id_at peer_world i = Some r" if "carries table_ecs peer_table e r" for e r
  proof -
    have "id_at peer_world 0 = Some (RollbackId 7)" "id_at peer_world 1 = Some (RollbackId 9)" by code_simp+
    then show ?thesis using that by (auto simp: peer_carries)
  qed
  ultimately show "fit adding_game game_world" "fit adding_game peer_world"
    using c c2 s s2 f t
    by (simp_all add: fit_def adding_systems)
      (simp_all add: game_world_def peer_world_def saved_world_def plain_world_def adding_game_def demo_app_def)
qed

lemma both_places:
  "stands_at adding_game game_world e i \<longleftrightarrow> e = 2 \<and> i = 0 \<or> e = 3 \<and> i = 1"
  "stands_at adding_game peer_world e i \<longleftrightarrow> e = 7 \<and> i = 0 \<or> e = 9 \<and> i = 1"
proof -
  have w: "ecs_state peer_world = peer_table" "ecs_state game_world = saved_table"
    "rollback_ordered_res peer_world = Some order_b" "rollback_ordered_res game_world = Some order_a"
    "app_ecs adding_game = table_ecs"
    by (simp_all add: peer_world_def game_world_def saved_world_def plain_world_def adding_game_def demo_app_def)
  have o: "iter_sorted order_a = [RollbackId 2, RollbackId 3]" "iter_sorted order_b = [RollbackId 7, RollbackId 9]"
    by (simp_all add: iter_sorted_def order_a_def order_b_def push_ordered_def default_ordered_def)
  show "stands_at adding_game game_world e i \<longleftrightarrow> e = 2 \<and> i = 0 \<or> e = 3 \<and> i = 1"
    "stands_at adding_game peer_world e i \<longleftrightarrow> e = 7 \<and> i = 0 \<or> e = 9 \<and> i = 1"
    by (auto simp: stands_at_def id_at_def w o example_carries peer_carries less_Suc_eq numeral_2_eq_2 split: if_splits)
qed

text \<open>The two peers start in the same state of the game.\<close>

lemma same_start: "same_game adding_game game_world peer_world"
proof -
  have w: "ecs_state peer_world = peer_table" "ecs_state game_world = saved_table"
    "user_resource peer_world = user_resource game_world" "ggrs_time peer_world = ggrs_time game_world"
    "rollback_frame_count peer_world = rollback_frame_count game_world" "frame_rate peer_world = frame_rate game_world"
    "rollback_ordered_res peer_world = Some order_b" "rollback_ordered_res game_world = Some order_a"
    "app_ecs adding_game = table_ecs" "comp_plugins adding_game = [(0, Mutable, copy_strategy)]"
    by (simp_all add: peer_world_def game_world_def saved_world_def plain_world_def adding_game_def demo_app_def)
  have "length (iter_sorted order_a) = length (iter_sorted order_b)"
    by (simp add: iter_sorted_def order_a_def order_b_def push_ordered_def default_ordered_def)
  moreover have "game_alive adding_game game_world = game_alive adding_game peer_world"
    by (auto simp: game_alive_def both_places)
  moreover have "game_parents adding_game game_world = {(1, 0)}" "game_parents adding_game peer_world = {(1, 0)}"
    by (auto simp: game_parents_def both_places w parent_of_def saved_get peer_get)
  moreover have "game_components adding_game game_world 0 = {(0, 5)}" "game_components adding_game peer_world 0 = {(0, 5)}"
    by (auto simp: game_components_def both_places w comp_of_def saved_get peer_get)
  ultimately show ?thesis by (simp add: same_game_def w)
qed

lemma replayed_once: "saved_checksums adding_game (replayed demo_orders) game_world = Inr [Some 421, Some 434]"
  by code_simp

theorem peers_stay_in_sync_witness:
  "saved_checksums adding_game (replayed other_orders) peer_world = Inr [Some 421, Some 434]"
proof -
  have a: "app_ok adding_game" "checksums_ok adding_game" "checksums_restored adding_game"
    by (simp_all add: adding_game_def app_ok_def checksums_ok_def checksums_restored_def demo_app_def strategy_ok_copy)
  have b: "tame (ggrs_schedule adding_game)" "cells_only (app_session adding_game)"
    by (auto simp: tame_def adding_game_def add_inputs_def outer_defs cells_only_def demo_app_def script_ops_def)
  have o: "orders_admissible adding_game demo_orders" "orders_admissible adding_game other_orders"
    using demo_game_ok(5)
    by (simp_all add: orders_admissible_def adding_systems demo_game_systems other_orders_def admissible_def advance_systems_def)
  have e: "session_res peer_world = Some demo_session" "session_res game_world = Some demo_session"
    by (simp_all add: peer_world_def game_world_def)
  have "steady (app_session adding_game) demo_session"
    by (simp add: steady_def demo_session_def session_window_def session_confirmed_def adding_game_def demo_app_def script_ops_def)
  then have "playable adding_game game_world" "playable adding_game peer_world"
    using both_fit e by (simp_all add: playable_def)
  moreover have "same_requests adding_game (replayed demo_orders) (replayed other_orders)"
    using o by (simp add: same_requests_def replayed_def)
  ultimately show ?thesis
    using peers_stay_in_sync [OF a b adding_deterministic _ _ same_start _ replayed_once] by blast
qed

end
