(* ===== verification/MispredictionExample.thy ===== *)
theory MispredictionExample
  imports Misprediction ResimulationExample
begin

text \<open>
  A game that adds up the inputs and, when they are too high, despawns every weapon, that is, every
  entity that has a parent. A peer saves frame 1 and predicts inputs that cost it its weapon; the inputs
  that turn out right do not. After the rollback, which brings the weapon back under a new entity id, it
  agrees with a peer that never predicted anything and whose entities have other ids and identities.
\<close>

section \<open>A game that despawns\<close>

definition weapons :: "('w, 'v) ecs \<Rightarrow> 'w \<Rightarrow> entity list" where
  "weapons E x = filter (\<lambda>e. enabled E x e \<and> rid_of E x e \<noteq> None \<and> parent_of E x e \<noteq> None) (ents E x)"

definition drop_weapons :: "('w, 'v) ecs \<Rightarrow> 'w \<Rightarrow> 'w" where
  "drop_weapons E x = foldl (\<lambda>x e. despawn_ent E e x) x (weapons E x)"

lemma drop_weapons_effect:
  assumes "ecs_laws E"
  obtains K where "\<forall>k e. cget E (drop_weapons E x) k e = (if e \<in> K then None else cget E x k e)"
    "\<forall>e r. carries E x e r \<longrightarrow> (e \<in> K \<longleftrightarrow> parent_of E x e \<noteq> None)"
proof -
  let ?K = "{e'. \<exists>e \<in> set (weapons E x). below E x e e'}"
  have w: "e \<in> set (weapons E x) \<longleftrightarrow> (\<exists>r. carries E x e r) \<and> parent_of E x e \<noteq> None" for e
    using rid_live [OF assms, of x e] by (auto simp: weapons_def carries_def)
  have "set (weapons E x) \<subseteq> set (ents E x)" by (auto simp: weapons_def)
  from despawn_all [OF assms reconciled_start this]
  have "reconciled E x ?K Map.empty (drop_weapons E x)" by (simp add: drop_weapons_def)
  then have get: "\<forall>k e. cget E (drop_weapons E x) k e = (if e \<in> ?K then None else cget E x k e)"
    by (simp add: reconciled_def)
  have hit: "parent_of E x e \<noteq> None" if "below E x p e" "p \<in> set (weapons E x)" for p e
    using that by (cases rule: below.cases) (auto simp: w parent_of_def)
  have "e \<in> ?K \<longleftrightarrow> parent_of E x e \<noteq> None" if e: "carries E x e r" for e r
  proof
    assume "parent_of E x e \<noteq> None"
    then have "e \<in> set (weapons E x)" using e w by blast
    then show "e \<in> ?K" using below.self [of E x e] by blast
  next
    assume "e \<in> ?K"
    then show "parent_of E x e \<noteq> None" using hit by blast
  qed
  then show ?thesis using that [OF get] by blast
qed

lemma drop_weapons_game:
  assumes "ecs_laws E" "unique_ids E x"
  shows "carries E (drop_weapons E x) e r \<longleftrightarrow> carries E x e r \<and> parent_of E x e = None"
    "unique_ids E (drop_weapons E x)" "parents_tracked E (drop_weapons E x)"
    "carries E (drop_weapons E x) e r \<Longrightarrow> comp_of E (drop_weapons E x) t e = comp_of E x t e"
    "carries E (drop_weapons E x) e r \<Longrightarrow> parent_of E (drop_weapons E x) e = None"
    "unflagged E x \<Longrightarrow> unflagged E (drop_weapons E x)" "parts_ok E flags x \<Longrightarrow> parts_ok E flags (drop_weapons E x)"
proof -
  let ?y = "drop_weapons E x"
  obtain K where K: "\<forall>k e. cget E ?y k e = (if e \<in> K then None else cget E x k e)"
    "\<forall>e r. carries E x e r \<longrightarrow> (e \<in> K \<longleftrightarrow> parent_of E x e \<noteq> None)"
    by (rule drop_weapons_effect [OF assms(1), of x])
  have "carries E ?y e r \<longleftrightarrow> carries E x e r \<and> e \<notin> K" for e r
    using K(1) by (auto simp: carries_def enabled_def rid_of_def)
  then have c: "carries E ?y e r \<longleftrightarrow> carries E x e r \<and> parent_of E x e = None" for e r using K(2) by blast
  then show "carries E ?y e r \<longleftrightarrow> carries E x e r \<and> parent_of E x e = None" .
  have same: "comp_of E ?y t e = comp_of E x t e" "parent_of E ?y e = None" if "carries E ?y e r" for e r t
  proof -
    have "e \<notin> K" using that K(2) c by blast
    then show "comp_of E ?y t e = comp_of E x t e" "parent_of E ?y e = None"
      using K(1) c [of e r] that by (simp_all add: comp_of_def parent_of_def)
  qed
  show "carries E ?y e r \<Longrightarrow> comp_of E ?y t e = comp_of E x t e" by (rule same(1))
  show "carries E ?y e r \<Longrightarrow> parent_of E ?y e = None" by (rule same(2))
  show "unique_ids E ?y"
    using assms(2) K(1) by (auto simp: unique_ids_def rid_of_def split: if_splits)
  show "parents_tracked E ?y" using same(2) by (auto simp: parents_tracked_def)
  have marks: "marks_kept E x ?y" using K(1) by (auto simp: marks_kept_def enabled_def)
  then show "unflagged E x \<Longrightarrow> unflagged E ?y" by (rule marks_unflagged)
  have "enabled E x e" if "enabled E ?y e" "part_of E ?y e \<noteq> None" for e
    using that K(1) by (auto simp: enabled_def part_of_def split: if_splits)
  then show "parts_ok E flags x \<Longrightarrow> parts_ok E flags ?y"
    by (intro marks_parts [OF assms(1) marks]) auto
qed

definition disarm :: "demo_world_state \<Rightarrow> demo_world_state" where
  "disarm w = w\<lparr>ecs_state := drop_weapons table_ecs (ecs_state w)\<rparr>"

definition reckless :: "demo_world_state \<Rightarrow> bool" where
  "reckless w = (case player_inputs w of Some is \<Rightarrow> 10 < sum_list (map fst is) | None \<Rightarrow> False)"

definition armed_game :: "(int table, int, int, nat \<times> nat, int, script_session, u64) app" where
  "armed_game = demo_app\<lparr>ggrs_schedule := (\<lambda>w. rbind (add_inputs w) (\<lambda>w. Inr (if reckless w then disarm w else w)))\<rparr>"

lemma armed_systems:
  "load_systems armed_game = load_systems demo_app" "save_systems armed_game = save_systems demo_app"
  "save_stores armed_game = save_stores demo_app" "part_flags armed_game = part_flags demo_app"
  by (simp_all add: armed_game_def load_systems_def data_systems_def mapping_systems_def save_systems_def
      checksum_systems_def save_stores_def part_flags_def)

lemma armed_as_adding: "fit armed_game = fit adding_game" "same_game armed_game = same_game adding_game"
  by (simp_all add: fun_eq_iff fit_def checksum_ready_def armed_systems adding_systems same_game_def
      game_alive_def game_parents_def game_components_def stands_at_def)
    (simp_all add: armed_game_def adding_game_def)

lemma disarm_fit:
  assumes "fit adding_game w"
  shows "fit adding_game (disarm w)"
proof -
  let ?x = "ecs_state w"
  have x: "unique_ids table_ecs ?x" "unflagged table_ecs ?x" and ready: "checksum_ready adding_game w"
    using assms by (simp_all add: fit_def adding_game_def demo_app_def)
  note d = drop_weapons_game [OF table_ecs_laws x(1)]
  have unf: "unflagged table_ecs (drop_weapons table_ecs ?x)" by (rule d(6) [OF x(2)])
  have "set (q_checksum table_ecs t (drop_weapons table_ecs ?x)) \<subseteq> set (q_checksum table_ecs t ?x)" for t
    unfolding q_checksum_unflagged [OF unf] q_checksum_unflagged [OF x(2)]
  proof (rule subrelI)
    fix r c assume "(r, c) \<in> set (q_components table_ecs (drop_weapons table_ecs ?x) t)"
    then have "map_of (q_components table_ecs (drop_weapons table_ecs ?x) t) r = Some c"
      by (rule map_of_is_SomeI [OF q_components_get(2) [OF table_ecs_laws d(2)]])
    then have "map_of (q_components table_ecs ?x t) r = Some c"
      unfolding q_components_get(1) [OF table_ecs_laws d(2)] q_components_get(1) [OF table_ecs_laws x(1)]
      using d(1,4) by metis
    then show "(r, c) \<in> set (q_components table_ecs ?x t)" by (rule map_of_SomeD)
  qed
  moreover have "parts_ok table_ecs (part_flags adding_game) (drop_weapons table_ecs ?x)"
    using ready by (intro d(7)) (simp add: checksum_ready_def adding_game_def demo_app_def)
  ultimately have "checksum_ready adding_game (disarm w)"
    using ready unfolding checksum_ready_def
    by (simp add: disarm_def) (simp add: adding_game_def demo_app_def, blast)
  moreover have "storage_ok (disarm w) st = storage_ok w st" for st :: "(int, int) save_store"
    by (rule storage_ok_storages) (simp add: storages_def disarm_def)
  moreover have "\<exists>i. id_at (disarm w) i = Some r" if "carries (app_ecs adding_game) (ecs_state (disarm w)) e r" for e r
  proof -
    have "carries (app_ecs adding_game) ?x e r"
      using that d(1) by (simp add: disarm_def) (simp add: adding_game_def demo_app_def)
    then have "\<exists>i. id_at w i = Some r" using assms unfolding fit_def by blast
    then show ?thesis by (simp add: id_at_def disarm_def)
  qed
  moreover have "unflagged (app_ecs adding_game) (ecs_state (disarm w))" "unique_ids (app_ecs adding_game) (ecs_state (disarm w))"
    "parents_tracked (app_ecs adding_game) (ecs_state (disarm w))"
    using unf d(2,3) by (simp_all add: disarm_def) (simp_all add: adding_game_def demo_app_def)
  moreover have "rollback_frame_count (disarm w) = rollback_frame_count w" "frame_rate (disarm w) = frame_rate w"
    "default_time (disarm w) = default_time w" "virtual_time (disarm w) = virtual_time w"
    "confirmed_frame_count (disarm w) = confirmed_frame_count w" "pending (disarm w) = pending w"
    by (simp_all add: disarm_def)
  ultimately show ?thesis
    using assms by (simp add: fit_def)
qed

text \<open>What is left of the game: what had no parent.\<close>

lemma disarm_view:
  assumes "fit adding_game w"
  shows "game_alive adding_game (disarm w) = {i \<in> game_alive adding_game w. \<forall>j. (i, j) \<notin> game_parents adding_game w}"
    "game_parents adding_game (disarm w) = {}"
    "game_components adding_game (disarm w) t =
       {(i, v) \<in> game_components adding_game w t. \<forall>j. (i, j) \<notin> game_parents adding_game w}"
proof -
  let ?x = "ecs_state w" and ?A = adding_game
  have e: "app_ecs ?A = table_ecs" by (simp add: adding_game_def demo_app_def)
  have x: "unique_ids table_ecs ?x" "parents_tracked table_ecs ?x"
    and places: "\<And>e r. carries table_ecs ?x e r \<Longrightarrow> \<exists>i. id_at w i = Some r"
    using assms by (simp_all add: fit_def e)
  note d = drop_weapons_game [OF table_ecs_laws x(1)]
  have "id_at (disarm w) = id_at w" by (simp add: fun_eq_iff id_at_def disarm_def)
  then have s: "stands_at ?A (disarm w) e i \<longleftrightarrow> stands_at ?A w e i \<and> parent_of table_ecs ?x e = None" for e i
    using d(1) by (auto simp: stands_at_def e disarm_def)
  have armed: "parent_of table_ecs ?x e = None \<longleftrightarrow> (\<forall>j. (i, j) \<notin> game_parents ?A w)" if i: "stands_at ?A w e i" for e i
  proof
    assume n: "parent_of table_ecs ?x e = None"
    have "e' = e" if "stands_at ?A w e' i" for e'
      using i that carries_unique [OF x(1)] by (auto simp: stands_at_def e)
    then show "\<forall>j. (i, j) \<notin> game_parents ?A w" using n by (auto simp: game_parents_def e)
  next
    assume n: "\<forall>j. (i, j) \<notin> game_parents ?A w"
    obtain r where r: "carries table_ecs ?x e r" using i by (auto simp: stands_at_def e)
    show "parent_of table_ecs ?x e = None"
    proof (rule ccontr)
      assume "parent_of table_ecs ?x e \<noteq> None"
      then obtain p q where p: "parent_of table_ecs ?x e = Some p" "carries table_ecs ?x p q"
        using x(2) r unfolding parents_tracked_def by blast
      moreover from places [OF p(2)] obtain j where "id_at w j = Some q" by blast
      ultimately have "stands_at ?A w p j" by (auto simp: stands_at_def e)
      then show False using n i p(1) by (auto simp: game_parents_def e)
    qed
  qed
  show "game_alive ?A (disarm w) = {i \<in> game_alive ?A w. \<forall>j. (i, j) \<notin> game_parents ?A w}"
    using s armed by (auto simp: game_alive_def)
  have "parent_of table_ecs (ecs_state (disarm w)) e = None" "comp_of table_ecs (ecs_state (disarm w)) t e = comp_of table_ecs ?x t e"
    if "stands_at ?A (disarm w) e i" for e i t
    using that d(4,5) by (auto simp: stands_at_def e disarm_def)
  then show "game_parents ?A (disarm w) = {}"
    "game_components ?A (disarm w) t = {(i, v) \<in> game_components ?A w t. \<forall>j. (i, j) \<notin> game_parents ?A w}"
    using s armed by (auto simp: game_parents_def game_components_def e)
qed

lemma disarm_same:
  assumes "fit adding_game u" "fit adding_game w" "same_game adding_game u w"
  shows "same_game adding_game (disarm u) (disarm w)"
proof -
  have "rollback_ordered_res (disarm v) = rollback_ordered_res v" "user_resource (disarm v) = user_resource v"
    "ggrs_time (disarm v) = ggrs_time v" "rollback_frame_count (disarm v) = rollback_frame_count v"
    "frame_rate (disarm v) = frame_rate v" for v by (simp_all add: disarm_def)
  then show ?thesis
    using assms(3) by (simp add: same_game_def disarm_view [OF assms(1)] disarm_view [OF assms(2)])
qed

lemma armed_deterministic: "deterministic armed_game"
  unfolding deterministic_def armed_as_adding
proof (intro allI impI, elim conjE)
  fix u w u' assume a: "fit adding_game u" "fit adding_game w" "same_game adding_game u w" "player_inputs u = player_inputs w"
    "default_time u = default_time w" "ggrs_schedule armed_game u = Inr u'"
  obtain v where v: "add_inputs u = Inr v" "u' = (if reckless v then disarm v else v)"
    using a(6) by (auto simp: armed_game_def rbind_Inr_iff)
  then have "ggrs_schedule adding_game u = Inr v" by (simp add: adding_game_def)
  then obtain x where x: "ggrs_schedule adding_game w = Inr x" "fit adding_game v" "fit adding_game x"
    "same_game adding_game v x"
    using adding_deterministic a(1-5) unfolding deterministic_def by blast
  have y: "add_inputs w = Inr x" using x(1) by (simp add: adding_game_def)
  have inputs: "player_inputs z' = player_inputs z" if "add_inputs z = Inr z'" for z z'
    using that by (auto simp: add_inputs_def rbind_Inr_iff)
  have "reckless v = reckless x" using inputs [OF v(1)] inputs [OF y] a(4) by (simp add: reckless_def)
  moreover have "ggrs_schedule armed_game w = Inr (if reckless x then disarm x else x)" using y by (simp add: armed_game_def)
  ultimately show "\<exists>w'. ggrs_schedule armed_game w = Inr w' \<and> fit adding_game u' \<and> fit adding_game w' \<and>
      same_game adding_game u' w'"
    using disarm_fit x(2,3) disarm_same [OF x(2-4)] x(4) v(2) by auto
qed

section \<open>The misprediction\<close>

definition predicted_run :: "((int, int) run_orders \<times> int ggrs_request) list" where
  "predicted_run = [(demo_orders, AdvanceFrame [(9, Predicted), (8, Predicted)]), (demo_orders, SaveGameState 1 2)]"

definition true_run :: "(int, int) run_orders \<Rightarrow> ((int, int) run_orders \<times> int ggrs_request) list" where
  "true_run os = [(os, AdvanceFrame [(5, Confirmed), (4, Confirmed)]), (os, SaveGameState 1 2)]"

definition armed_one :: demo_world_state where
  "armed_one = (case handle_request armed_game (demo_orders, SaveGameState 0 1) game_world of
     Inr w \<Rightarrow> w | Inl _ \<Rightarrow> game_world)"

definition armed_two :: demo_world_state where
  "armed_two = (case rfold (handle_request armed_game) predicted_run armed_one of Inr w \<Rightarrow> w | Inl _ \<Rightarrow> game_world)"

lemma armed_one: "handle_request armed_game (demo_orders, SaveGameState 0 1) game_world = Inr armed_one"
proof -
  have "(case handle_request armed_game (demo_orders, SaveGameState 0 1) game_world of Inr w \<Rightarrow> True | Inl _ \<Rightarrow> False)"
    by code_simp
  then show ?thesis by (simp add: armed_one_def split: sum.splits)
qed

lemma armed_two: "rfold (handle_request armed_game) predicted_run armed_one = Inr armed_two"
proof -
  have "(case rfold (handle_request armed_game) predicted_run armed_one of Inr w \<Rightarrow> True | Inl _ \<Rightarrow> False)"
    by code_simp
  then show ?thesis by (simp only: armed_two_def split: sum.splits) simp
qed

lemma armed_states:
  "ecs_state armed_one = ecs_state saved_once" "entity_map_res armed_two \<noteq> None"
  "frame_rate armed_two = frame_rate armed_one"
  "resurrect_entities table_ecs 1 (ecs_state armed_two) = ecs_state armed_two"
  by code_simp+

lemma armed_two_state: "ecs_state armed_two = \<lparr>table_rows =
    [(2, [(RollbackIdKey, IdVal (RollbackId 2)), (UserKey 0, UserVal 5)]),
     (4, [(PartKey, PartVal 6760), (FlagKey EntityFlag, Marker)]),
     (5, [(PartKey, PartVal 6949), (FlagKey (CompFlag 0), Marker)]),
     (6, [(PartKey, PartVal 24), (FlagKey (ResFlag 0), Marker)])], next_id = 7\<rparr>"
  by code_simp

lemma armed_two_get: "t_get (ecs_state armed_two) k e =
    (if e = 2 then map_of [(RollbackIdKey, IdVal (RollbackId 2)), (UserKey 0, UserVal 5)] k
     else if e = 4 then map_of [(PartKey, PartVal 6760), (FlagKey EntityFlag, Marker)] k
     else if e = 5 then map_of [(PartKey, PartVal 6949), (FlagKey (CompFlag 0), Marker)] k
     else if e = 6 then map_of [(PartKey, PartVal 24), (FlagKey (ResFlag 0), Marker)] k else None)"
  by (simp add: t_get_def armed_two_state)

lemma armed_two_parts: "parts_visible table_ecs (ecs_state armed_two)"
  unfolding parts_visible_def enabled_def by (simp add: armed_two_get)

lemma armed_two_loadable:
  "loadable table_ecs (ecs_state armed_one) (resurrect_entities table_ecs 1 (ecs_state armed_two))"
  unfolding armed_states(1)
  by (rule later_loadable [OF _ armed_states(4)])
    (auto simp: fun_eq_iff t_get_def armed_two_state played_on_state parts_table_def)

lemma armed_game_ok:
  "app_ok armed_game" "checksums_ok armed_game" "checksums_restored armed_game"
  "tame (ggrs_schedule armed_game)" "cells_only (app_session armed_game)"
  "orders_admissible armed_game demo_orders" "orders_admissible armed_game other_orders"
proof -
  show "app_ok armed_game" "checksums_ok armed_game" "checksums_restored armed_game"
    by (simp_all add: armed_game_def app_ok_def checksums_ok_def checksums_restored_def demo_app_def strategy_ok_copy)
  show "tame (ggrs_schedule armed_game)" "cells_only (app_session armed_game)"
    by (auto simp: tame_def armed_game_def add_inputs_def disarm_def rbind_Inr_iff outer_defs cells_only_def demo_app_def script_ops_def)
  show "orders_admissible armed_game demo_orders" "orders_admissible armed_game other_orders"
    using demo_game_ok(5)
    by (simp_all add: orders_admissible_def armed_systems demo_game_systems other_orders_def admissible_def advance_systems_def)
qed

text \<open>The other peer, which never predicted anything, fills its cell with this checksum.\<close>

lemma armed_sums: "saved_checksums armed_game (true_run demo_orders) peer_world = Inr [Some 434]"
  by code_simp

text \<open>After the load, the second run fills the cell with the other peer's checksum.\<close>

theorem mispredictions_leave_no_trace_witness:
  "\<exists>w3. handle_request armed_game (other_orders, LoadGameState 1) armed_two = Inr w3 \<and>
     saved_checksums armed_game (true_run other_orders) w3 = Inr [Some 434]"
proof -
  have prot: "protects (app_session armed_game) 1 8 1 demo_session"
    unfolding demo_session_def
    by (rule protects_p2p) (simp_all add: armed_game_def demo_app_def script_ops_def word_sless_alt)
  have w: "session_res game_world = Some demo_session" "rollback_frame_count game_world = Some 1"
    "\<forall>c. confirmed_frame_count game_world = Some c \<longrightarrow> \<not> 1 <s c" "session_res peer_world = Some demo_session"
    by (simp_all add: game_world_def peer_world_def saved_world_def plain_world_def word_sless_alt)
  have "steady (app_session armed_game) demo_session"
    by (simp add: steady_def demo_session_def session_window_def session_confirmed_def armed_game_def demo_app_def script_ops_def)
  then have play: "playable armed_game game_world" "playable armed_game peer_world"
    using both_fit w(1,4) by (simp_all add: playable_def armed_as_adding)
  obtain w' where "handle_request armed_game (demo_orders, SaveGameState 0 1) game_world = Inr w'"
    "same_game armed_game game_world w'"
    by (rule save_request_same [OF armed_game_ok(1-3,5) play(1) armed_game_ok(6)])
  then have "same_game armed_game game_world armed_one" using armed_one by simp
  moreover have "same_game armed_game peer_world game_world"
    using same_game_sym [OF same_start] by (simp add: armed_as_adding)
  ultimately have same: "same_game armed_game peer_world armed_one" using same_game_trans by blast
  have rs: "predicted_run = (demo_orders, AdvanceFrame [(9, Predicted), (8, Predicted)]) # [(demo_orders, SaveGameState 1 2)]"
    by (simp add: predicted_run_def)
  have run: "\<forall>(os, r) \<in> set predicted_run. orders_admissible armed_game os \<and> (is_save r \<or> is_advance r)"
    "saves_in [(demo_orders, SaveGameState 1 2)] < 8" "Suc (advances_in [(demo_orders, SaveGameState 1 2)]) \<le> 1"
    "same_requests armed_game (true_run demo_orders) (true_run other_orders)"
    using armed_game_ok(6,7) by (simp_all add: rs true_run_def same_requests_def saves_in_def advances_in_def)
  have e: "app_ecs armed_game = table_ecs" by (simp add: armed_game_def demo_app_def)
  show ?thesis
    using mispredictions_leave_no_trace [OF armed_game_ok(1-5) armed_deterministic play(1) w(1) prot w(2,3)
      armed_game_ok(6,7) armed_one run(1) [unfolded rs] armed_two [unfolded rs] run(2,3) armed_states(2,3),
      unfolded e, OF armed_two_parts armed_two_loadable play(2) same run(4) armed_sums] by blast
qed

end
