(* ===== verification/UnitTests.thy ===== *)
theory UnitTests
  imports GgrsSnapshots EntitySnapshot
begin

text \<open>
  The unit tests of the crate on the model: the tests of \<open>src/snapshot/mod.rs\<close>, \<open>rollback.rs\<close> and
  \<open>rollback_entity_map.rs\<close>, test by test, with each \<open>assert\<close> as a conjunct. Every one of them holds,
  which checks the translation of the data structures against what their authors expect of them.
\<close>

section \<open>The snapshot queue\<close>

definition snap_with_depth :: "nat \<Rightarrow> u32 ggrs_snapshots" where
  "snap_with_depth d = set_depth d default_snapshots"

text \<open>A sequence of pushes, and the assertions about the queue it leaves.\<close>

definition pushes :: "(i32 \<times> u32) list \<Rightarrow> u32 ggrs_snapshots \<Rightarrow> u32 ggrs_snapshots res" where
  "pushes = rfold (\<lambda>(frame, snapshot). push frame snapshot)"

definition passes :: "'a res \<Rightarrow> ('a \<Rightarrow> bool) \<Rightarrow> bool" where
  "passes r check = (case r of Inr s \<Rightarrow> check s | Inl p \<Rightarrow> False)"

definition push_evicts_oldest_when_depth_exceeded :: bool where
  "push_evicts_oldest_when_depth_exceeded =
     passes (pushes [(0, 0), (1, 1), (2, 2), (3, 3), (4, 4)] (snap_with_depth 3))
       (\<lambda>s. peek s 0 = None \<and> peek s 1 = None \<and> peek s 2 = Some 2 \<and> peek s 3 = Some 3 \<and> peek s 4 = Some 4)"

definition push_older_frame_discards_newer :: bool where
  "push_older_frame_discards_newer =
     passes (pushes [(5, 50), (6, 60), (7, 70), (5, 99)] (snap_with_depth 8))
       (\<lambda>s. peek s 5 = Some 99 \<and> peek s 6 = None \<and> peek s 7 = None)"

definition push_same_frame_replaces :: bool where
  "push_same_frame_replaces =
     passes (pushes [(3, 10), (3, 20)] (snap_with_depth 8)) (\<lambda>s. peek s 3 = Some 20)"

definition confirm_prunes_older_frames :: bool where
  "confirm_prunes_older_frames =
     passes (rbind (pushes [(0, 0), (1, 1), (2, 2), (3, 3), (4, 4), (5, 5)] (snap_with_depth 8)) (confirm 3))
       (\<lambda>s. peek s 0 = None \<and> peek s 1 = None \<and> peek s 2 = None \<and>
          peek s 3 = Some 3 \<and> peek s 4 = Some 4 \<and> peek s 5 = Some 5)"

definition confirm_beyond_all_frames_empties_storage :: bool where
  "confirm_beyond_all_frames_empties_storage =
     passes (rbind (pushes [(0, 0), (1, 1), (2, 2), (3, 3)] (snap_with_depth 8)) (confirm 100))
       (\<lambda>s. peek s 0 = None \<and> peek s 1 = None \<and> peek s 2 = None \<and> peek s 3 = None)"

definition confirm_on_empty_does_not_panic :: bool where
  "confirm_on_empty_does_not_panic = passes (confirm 5 (snap_with_depth 8)) (\<lambda>s. True)"

definition rollback_to_existing_frame :: bool where
  "rollback_to_existing_frame =
     passes (rbind (rbind (pushes [(0, 0), (1, 10), (2, 20), (3, 30), (4, 40)] (snap_with_depth 8)) (rollback 2))
       get_snapshot) (\<lambda>x. x = 20)"

definition rollback_discards_newer_frames :: bool where
  "rollback_discards_newer_frames =
     passes (rbind (pushes [(0, 0), (1, 1), (2, 2), (3, 3), (4, 4)] (snap_with_depth 8)) (rollback 2))
       (\<lambda>s. peek s 3 = None \<and> peek s 4 = None \<and> peek s 2 = Some 2)"

text \<open>\<open>should_panic\<close>, with the frame of the message.\<close>

definition rollback_missing_frame_panics :: bool where
  "rollback_missing_frame_panics =
     (case rbind (pushes [(0, 0)] (snap_with_depth 8)) (rollback 99) of
        Inl (NoSnapshotAt frame) \<Rightarrow> frame = 99 | _ \<Rightarrow> False)"

text \<open>\<open>i32::MAX\<close> is 2147483647, and \<open>i32::MIN\<close> follows it.\<close>

definition push_wraps_i32_max_to_min_retains_history :: bool where
  "push_wraps_i32_max_to_min_retains_history =
     passes (pushes [(2147483645, 1), (2147483646, 2), (2147483647, 3), (- 2147483648, 4)] (snap_with_depth 8))
       (\<lambda>s. peek s 2147483645 = Some 1 \<and> peek s 2147483646 = Some 2 \<and> peek s 2147483647 = Some 3 \<and>
          peek s (- 2147483648) = Some 4)"

definition push_max_after_min_evicts_min_as_future :: bool where
  "push_max_after_min_evicts_min_as_future =
     passes (pushes [(- 2147483648, 1), (2147483647, 2)] (snap_with_depth 8))
       (\<lambda>s. peek s (- 2147483648) = None \<and> peek s 2147483647 = Some 2)"

lemma queue_tests:
  "push_evicts_oldest_when_depth_exceeded" "push_older_frame_discards_newer" "push_same_frame_replaces"
  "confirm_prunes_older_frames" "confirm_beyond_all_frames_empties_storage" "confirm_on_empty_does_not_panic"
  "rollback_to_existing_frame" "rollback_discards_newer_frames" "rollback_missing_frame_panics"
  "push_wraps_i32_max_to_min_retains_history" "push_max_after_min_evicts_min_as_future"
  by code_simp+

section \<open>The order of identities\<close>

definition ordered_with :: "nat list \<Rightarrow> rollback_ordered" where
  "ordered_with ids = fold (\<lambda>n. push_ordered (RollbackId n)) ids default_ordered"

definition order_returns_insertion_index :: bool where
  "order_returns_insertion_index =
     (let ro = ordered_with [10, 20, 30]
      in order ro (RollbackId 10) = Inr 0 \<and> order ro (RollbackId 20) = Inr 1 \<and> order ro (RollbackId 30) = Inr 2)"

definition iter_sorted_yields_insertion_order :: bool where
  "iter_sorted_yields_insertion_order =
     (iter_sorted (ordered_with [5, 3, 7, 1]) = [RollbackId 5, RollbackId 3, RollbackId 7, RollbackId 1])"

definition order_is_stable_after_more_pushes :: bool where
  "order_is_stable_after_more_pushes =
     (let ro = ordered_with [0, 1];
          order_0_before = order ro (RollbackId 0);
          order_1_before = order ro (RollbackId 1);
          ro = push_ordered (RollbackId 3) (push_ordered (RollbackId 2) ro)
      in order ro (RollbackId 0) = order_0_before \<and> order ro (RollbackId 1) = order_1_before)"

definition order_unregistered_panics :: bool where
  "order_unregistered_panics =
     (case order (ordered_with [0]) (RollbackId 99) of Inl (NotRegistered n) \<Rightarrow> True | _ \<Rightarrow> False)"

definition clone_is_independent :: bool where
  "clone_is_independent =
     (let ro = ordered_with [1, 2, 3];
          clone = push_ordered (RollbackId 4) ro
      in len_ordered ro = 3 \<and> len_ordered clone = 4 \<and> order ro (RollbackId 1) = order clone (RollbackId 1))"

lemma order_tests:
  "order_returns_insertion_index" "iter_sorted_yields_insertion_order" "order_is_stable_after_more_pushes"
  "order_unregistered_panics" "clone_is_independent"
  by code_simp+

section \<open>The entity map\<close>

definition map_from :: "(entity \<times> entity) list \<Rightarrow> rollback_entity_map" where
  "map_from pairs = RollbackEntityMap (hm_collect pairs)"

definition get_absent_key_returns_none :: bool where
  "get_absent_key_returns_none = (get_map (map_from [(1, 2)]) 99 = None)"

definition entity_mapper_falls_back_to_source :: bool where
  "entity_mapper_falls_back_to_source = (get_mapped (map_from [(5, 6)]) 99 = 99)"

lemma map_tests: "get_absent_key_returns_none" "entity_mapper_falls_back_to_source"
  by code_simp+

end
