(* ===== verification/AppTests.thy ===== *)
theory AppTests
  imports Registration Requests UnitTests
begin

text \<open>
  The unit tests of \<open>component_map.rs\<close> and \<open>childof_snapshot.rs\<close>, which build an app, spawn and despawn
  entities in systems of their own and roll back across it. The schedules hold what the plugins of the
  tested app add to them; every \<open>assert\<close> is a step that fails when it does not hold.
\<close>

section \<open>The helpers of \<open>mod.rs\<close>\<close>

text \<open>
  The values of the tests: their components, and the resource \<open>Input\<close>. Component 0 is \<open>Likes\<close>, 1 is
  \<open>Friend\<close>, 2 is \<open>Player\<close>; resource 0 is \<open>Input\<close>.
\<close>

datatype test_input = NoInput | SpawnOne | DespawnAll

datatype test_value = Likes entity | Friend | Player | Input test_input

type_synonym test_world = "(test_value table, test_value, test_value, nat \<times> nat, int, script_session) world"
type_synonym test_bevy_app = "(test_value, test_value) bevy_app"
type_synonym test_system = "test_world \<Rightarrow> test_world res"

definition test_app :: "(test_value table, test_value, test_value, nat \<times> nat, int, script_session, u64) app" where
  "test_app = \<lparr>app_ecs = table_ecs, app_time = plain_clock, app_hasher = toy_hasher, app_session = script_ops,
     app_orders = in_memory_order, app_map_order = (\<lambda>xs. xs), comp_plugins = [], res_plugins = [],
     comp_map_plugins = [], res_map_plugins = [], comp_checksums = [], res_checksums = [],
     ggrs_schedule = Inr, read_inputs = Inr, on_mismatch = (\<lambda>_ _. Inr)\<rparr>"

text \<open>The world of a new app, with the resources that \<open>SnapshotPlugin\<close> initialises.\<close>

definition new_world :: test_world where
  "new_world = \<lparr>ecs_state = \<lparr>table_rows = [], next_id = 0\<rparr>, pending = [], rollback_ordered_res = Some default_ordered,
     rollback_frame_count = Some 0, confirmed_frame_count = Some 0, max_prediction_window = None,
     entity_map_res = Some (RollbackEntityMap []), user_resource = (\<lambda>_. None)(0 := Some (Input NoInput)), ggrs_time = None,
     checksum_res = None, entity_snapshots = default_snapshots, childof_snapshots = default_snapshots,
     comp_snapshots = (\<lambda>_. default_snapshots), res_snapshots = (\<lambda>_. default_snapshots),
     ordered_snapshots = default_snapshots, time_snapshots = default_snapshots, last_confirmed = 0,
     schedules = [LoadWorld, SaveWorld, AdvanceWorld], session_res = None, local_players = None,
     local_inputs = None, player_inputs = None, frame_rate = None, default_time = Some (0, 0),
     virtual_time = Some (0, 0), fixed_timestep = None\<rparr>"

text \<open>
  A test adds a chain of systems to \<open>AdvanceWorld\<close>, between which Bevy applies the commands they queue.
  The chain is in no set, so it may run before, between or after the systems of the crate: at place \<open>k\<close>.
\<close>

record test_run =
  built :: test_bevy_app
  chain :: "test_system list"
  place :: nat

datatype test_sys = Crate adv_sys | Own nat | SyncPoint

definition advance_test_order :: "test_run \<Rightarrow> test_sys list" where
  "advance_test_order T =
     (let crate = map Crate (sort_key adv_rank (advance_regs (built T)));
          own = concat (map (\<lambda>i. [Own i, SyncPoint]) [0..<length (chain T)])
      in take (place T) crate @ own @ drop (place T) crate)"

fun run_test_sys :: "test_run \<Rightarrow> test_sys \<Rightarrow> test_system" where
  "run_test_sys T (Crate s) w = run_advance test_app s w"
| "run_test_sys T (Own i) w = (chain T ! i) w"
| "run_test_sys T SyncPoint w = apply_deferred table_ecs w"

definition test_save_world :: "test_run \<Rightarrow> test_system" where
  "test_save_world T w = save_world test_app (save_regs (built T)) w"

definition test_advance_frame :: "test_run \<Rightarrow> test_system" where
  "test_advance_frame T w =
     rbind (require ''RollbackFrameCount'' (rollback_frame_count w)) (\<lambda>frame_count.
     rbind (checked_add frame_count 1) (\<lambda>frame.
       run_schedule table_ecs (run_test_sys T) (advance_test_order T) (w\<lparr>rollback_frame_count := Some frame\<rparr>)))"

definition test_load_world :: "test_run \<Rightarrow> i32 \<Rightarrow> test_system" where
  "test_load_world T frame w =
     rbind (require ''RollbackFrameCount'' (rollback_frame_count w)) (\<lambda>_.
       load_world test_app (sort_key load_rank (load_regs (built T))) (w\<lparr>rollback_frame_count := Some frame\<rparr>))"

text \<open>\<open>assert!\<close> and the queries with which the systems and the assertions look at the world.\<close>

definition assert_that :: "(test_world \<Rightarrow> bool) \<Rightarrow> test_system" where
  "assert_that P w = (if P w then Inr w else Inl DebugAssert)"

definition entities_with :: "nat \<Rightarrow> test_world \<Rightarrow> entity list" where
  "entities_with t w =
     filter (\<lambda>e. enabled table_ecs (ecs_state w) e \<and> comp_of table_ecs (ecs_state w) t e \<noteq> None) (ents table_ecs (ecs_state w))"

definition single_of :: "'a list \<Rightarrow> 'a option" where
  "single_of xs = (case xs of [x] \<Rightarrow> Some x | _ \<Rightarrow> None)"

definition queue :: "test_value command \<Rightarrow> test_world \<Rightarrow> test_world" where
  "queue c w = w\<lparr>pending := pending w @ [EcsCommand c]\<rparr>"

definition set_input :: "test_input \<Rightarrow> test_world \<Rightarrow> test_world" where
  "set_input i w = w\<lparr>user_resource := (user_resource w)(0 := Some (Input i))\<rparr>"

text \<open>A type that requires \<open>Rollback\<close> is spawned with it.\<close>

definition spawn_player :: test_system where
  "spawn_player w = Inr (queue (Spawn (next_reserved table_ecs w 0) [(UserKey 2, UserVal Player), (RollbackKey, Marker)]) w)"

section \<open>Components that refer to entities\<close>

definition likes_type :: "(test_value, test_value, u64) user_type" where
  "likes_type = \<lparr>by_copy = copy_strategy, by_clone = copy_strategy, by_reflect = copy_strategy, hash_into = (\<lambda>_ h. h),
     map_entities = (\<lambda>f v. case v of Likes e \<Rightarrow> Likes (f e) | _ \<Rightarrow> v)\<rparr>"

definition spawn_friend :: test_system where
  "spawn_friend w = rbind (require ''Input'' (user_resource w 0)) (\<lambda>inputs.
     Inr (if inputs = Input SpawnOne
          then queue (Spawn (next_reserved table_ecs w 0) [(UserKey 1, UserVal Friend), (RollbackKey, Marker)]) w
          else w))"

text \<open>A system whose \<open>Single\<close> does not match does not run.\<close>

definition like_single_friend :: test_system where
  "like_single_friend w =
     (case single_of (entities_with 2 w) of
        None \<Rightarrow> Inr w
      | Some player \<Rightarrow>
          Inr (case single_of (entities_with 1 w) of
                 Some friend \<Rightarrow> queue (Insert (UserKey 0) player (UserVal (Likes friend))) w
               | None \<Rightarrow> queue (Remove (UserKey 0) player) w))"

definition despawn_friends :: test_system where
  "despawn_friends w = rbind (require ''Input'' (user_resource w 0)) (\<lambda>inputs.
     Inr (if inputs = Input DespawnAll then foldl (\<lambda>w friend. queue (Despawn friend) w) w (entities_with 1 w) else w))"

definition get_friend_entity :: "test_world \<Rightarrow> entity option" where
  "get_friend_entity w = single_of (entities_with 1 w)"

definition get_liked_entity :: "test_world \<Rightarrow> entity option" where
  "get_liked_entity w =
     Option.bind (single_of (entities_with 0 w)) (\<lambda>e.
       case comp_of table_ecs (ecs_state w) 0 e of Some (Likes friend) \<Rightarrow> Some friend | _ \<Rightarrow> None)"

text \<open>After the \<open>Startup\<close> schedule.\<close>

definition started :: "test_world res" where
  "started = run_schedule table_ecs (\<lambda>s. s) [spawn_player] new_world"

definition map_entities_app :: "test_bevy_app res" where
  "map_entities_app =
     rbind (add_plugin SnapshotPlugin snapshot_build empty_app) (\<lambda>b.
     rbind (rollback_component_with_copy likes_type 0 b)
       (update_component_with_map_entities likes_type 0))"

definition test_map_entities :: "nat \<Rightarrow> bool" where
  "test_map_entities k = passes
     (rbind map_entities_app (\<lambda>b.
      let T = \<lparr>built = b, chain = [spawn_friend, like_single_friend], place = k\<rparr>
      in rbind (rbind started (test_save_world T)) (\<lambda>w0.
         rbind (assert_that (\<lambda>w. get_friend_entity w = None \<and> get_liked_entity w = None) w0) (\<lambda>w0.
         rbind (test_advance_frame T (set_input SpawnOne w0)) (\<lambda>w1.
         rbind (expect UnwrapNone (get_friend_entity w1)) (\<lambda>initial_friend_entity.
         rbind (expect UnwrapNone (get_liked_entity w1)) (\<lambda>initial_liked_entity.
         rbind (assert_that (\<lambda>w. initial_friend_entity = initial_liked_entity) w1) (\<lambda>w1.
         rbind (test_load_world T 0 w1) (\<lambda>w2.
         rbind (assert_that (\<lambda>w. get_friend_entity w = None \<and> get_liked_entity w = None) w2) (\<lambda>w2.
         rbind (test_advance_frame T (set_input SpawnOne w2)) (\<lambda>w3.
         rbind (expect UnwrapNone (get_friend_entity w3)) (\<lambda>friend_entity.
         rbind (expect UnwrapNone (get_liked_entity w3)) (\<lambda>liked_entity.
           assert_that (\<lambda>w. friend_entity = liked_entity \<and> friend_entity \<noteq> initial_friend_entity \<and>
             liked_entity \<noteq> initial_liked_entity) w3)))))))))))))
     (\<lambda>w. True)"

definition restoring_app :: "test_bevy_app res" where
  "restoring_app =
     rbind (add_plugin SnapshotPlugin snapshot_build empty_app) (\<lambda>b.
     rbind (rollback_component_with_copy likes_type 1 b) (\<lambda>b.
     rbind (rollback_component_with_copy likes_type 0 b)
       (update_component_with_map_entities likes_type 0)))"

definition restores_entity_mappings_after_despawning :: "nat \<Rightarrow> bool" where
  "restores_entity_mappings_after_despawning k = passes
     (rbind restoring_app (\<lambda>b.
      let T = \<lparr>built = b, chain = [spawn_friend, like_single_friend, despawn_friends], place = k\<rparr>
      in rbind started (\<lambda>w0.
         rbind (test_advance_frame T (set_input SpawnOne w0)) (\<lambda>w1.
         rbind (expect UnwrapNone (get_friend_entity w1)) (\<lambda>initial_friend_entity.
         rbind (expect UnwrapNone (get_liked_entity w1)) (\<lambda>initial_liked_entity.
         rbind (assert_that (\<lambda>w. initial_friend_entity = initial_liked_entity) w1) (\<lambda>w1.
         rbind (test_save_world T w1) (\<lambda>w1.
         rbind (test_advance_frame T (set_input DespawnAll w1)) (\<lambda>w2.
         rbind (assert_that (\<lambda>w. get_friend_entity w = None) w2) (\<lambda>w2.
         rbind (test_load_world T 1 w2) (\<lambda>w3.
         rbind (expect UnwrapNone (get_friend_entity w3)) (\<lambda>friend_entity.
         rbind (expect UnwrapNone (get_liked_entity w3)) (\<lambda>liked_entity.
           assert_that (\<lambda>w. friend_entity = liked_entity \<and> friend_entity \<noteq> initial_friend_entity \<and>
             liked_entity \<noteq> initial_liked_entity) w3)))))))))))))
     (\<lambda>w. True)"

section \<open>Children\<close>

text \<open>The component \<open>Children\<close> that Bevy keeps for every \<open>ChildOf\<close>; an entity without children has none.\<close>

definition children_of :: "entity \<Rightarrow> test_world \<Rightarrow> entity list" where
  "children_of p w =
     filter (\<lambda>c. parent_of table_ecs (ecs_state w) c = Some p) (ents table_ecs (ecs_state w))"

definition spawn_child :: test_system where
  "spawn_child w =
     (case single_of (entities_with 2 w) of
        None \<Rightarrow> Inr w
      | Some player \<Rightarrow> rbind (require ''Input'' (user_resource w 0)) (\<lambda>inputs.
          Inr (if inputs = Input SpawnOne
               then queue (Spawn (next_reserved table_ecs w 0) [(ChildOfKey, ParentVal player), (RollbackKey, Marker)]) w
               else w)))"

definition get_player_children :: "test_world \<Rightarrow> entity list" where
  "get_player_children w =
     (case single_of (filter (\<lambda>p. children_of p w \<noteq> []) (entities_with 2 w)) of
        None \<Rightarrow> []
      | Some player \<Rightarrow> children_of player w)"

text \<open>Its \<open>Single\<close> does not match a player without children: there is nothing to despawn.\<close>

definition despawn_children :: test_system where
  "despawn_children w =
     (case single_of (filter (\<lambda>p. children_of p w \<noteq> []) (entities_with 2 w)) of
        None \<Rightarrow> Inr w
      | Some player \<Rightarrow> rbind (require ''Input'' (user_resource w 0)) (\<lambda>inputs.
          Inr (if inputs = Input DespawnAll
               then foldl (\<lambda>w c. queue (Despawn c) w) w (children_of player w) else w)))"

definition get_player :: "test_world \<Rightarrow> entity res" where
  "get_player w = expect UnwrapNone (single_of (entities_with 2 w))"

definition get_child_parent :: "test_world \<Rightarrow> entity option" where
  "get_child_parent w =
     Option.bind (single_of (filter (\<lambda>e. enabled table_ecs (ecs_state w) e \<and>
         parent_of table_ecs (ecs_state w) e \<noteq> None) (ents table_ecs (ecs_state w))))
       (parent_of table_ecs (ecs_state w))"

text \<open>\<open>children[0]\<close>: indexing an empty vector panics.\<close>

definition first_child :: "test_world \<Rightarrow> entity res" where
  "first_child w = expect UnwrapNone (case get_player_children w of [] \<Rightarrow> None | c # _ \<Rightarrow> Some c)"

definition advance_with_input :: "test_run \<Rightarrow> test_input \<Rightarrow> test_system" where
  "advance_with_input T i w = test_advance_frame T (set_input i w)"

definition test_hierarchy_preservation :: "nat \<Rightarrow> bool" where
  "test_hierarchy_preservation k = passes
     (rbind (add_plugin SnapshotPlugin snapshot_build empty_app) (\<lambda>b.
      let T = \<lparr>built = b, chain = [spawn_child, despawn_children], place = k\<rparr>
      in rbind (rbind started (test_save_world T)) (\<lambda>w0.
         rbind (assert_that (\<lambda>w. get_player_children w = []) w0) (\<lambda>w0.
         rbind (rbind (advance_with_input T SpawnOne w0) (test_save_world T)) (\<lambda>w1.
         rbind (first_child w1) (\<lambda>initial_child_entity.
         rbind (assert_that (\<lambda>w. length (get_player_children w) = 1) w1) (\<lambda>w1.
         rbind (rbind (advance_with_input T DespawnAll w1) (test_save_world T)) (\<lambda>w2.
         rbind (assert_that (\<lambda>w. length (get_player_children w) = 0) w2) (\<lambda>w2.
         rbind (test_load_world T 1 w2) (\<lambda>w3.
         rbind (assert_that (\<lambda>w. length (get_player_children w) = 1) w3) (\<lambda>w3.
         rbind (first_child w3) (\<lambda>child_entity_after_rollback.
         rbind (assert_that (\<lambda>w. initial_child_entity \<noteq> child_entity_after_rollback) w3) (\<lambda>w3.
         rbind (get_player w3) (\<lambda>player.
         rbind (expect UnwrapNone (get_child_parent w3)) (\<lambda>parent.
           assert_that (\<lambda>w. player = parent) w3)))))))))))))))
     (\<lambda>w. True)"

section \<open>The tests pass\<close>

text \<open>The plugins add three systems to \<open>AdvanceWorld\<close>; the tests pass at each of the four places of the chain.\<close>

lemma advance_places:
  "passes map_entities_app (\<lambda>b. length (advance_regs b) = 3)"
  "passes restoring_app (\<lambda>b. length (advance_regs b) = 3)"
  by code_simp+

lemma test_map_entities_passes:
  "test_map_entities 0" "test_map_entities 1" "test_map_entities 2" "test_map_entities 3"
  by code_simp+

lemma restores_entity_mappings_passes:
  "restores_entity_mappings_after_despawning 0" "restores_entity_mappings_after_despawning 1"
  "restores_entity_mappings_after_despawning 2" "restores_entity_mappings_after_despawning 3"
  by code_simp+

lemma test_hierarchy_preservation_passes:
  "test_hierarchy_preservation 0" "test_hierarchy_preservation 1"
  "test_hierarchy_preservation 2" "test_hierarchy_preservation 3"
  by code_simp+

end
